(* ===== verification/Go_Prelude.thy ===== *)
theory Go_Prelude
  imports Main "HOL-Library.AList"
begin

text \<open>
  What every component shares: the types the Go sources are written in and the lemmas the
  component proofs rest on.

  \<^item> A Go \<open>string\<close> or \<open>[]byte\<close> is a sequence of bytes. HOL's \<open>char\<close> has exactly 256
    values, so both are \<open>string\<close> (a char list) here and \<open>len\<close> is \<open>length\<close>.
  \<^item> A \<open>time.Duration\<close> is an \<open>int64\<close> count of nanoseconds: an \<open>int\<close>, with \<open>wrap64\<close>
    written out wherever the source adds, subtracts or multiplies two of them.
  \<^item> A \<open>time.Time\<close> is an \<open>int\<close>, the nanoseconds since the Unix epoch; the zero time is the
    first of January of year 1. \<open>Time.Sub\<close> saturates at the ends of the \<open>int64\<close> range.
    The clock is an argument of every operation that reads it.
  \<^item> A Go \<open>map\<close> is an association list with distinct keys (\<open>gomap_ok\<close>), so its \<open>len\<close>
    is computable; \<open>mget\<close>, \<open>mput\<close>, \<open>mdel\<close> and \<open>mkeep\<close> are its index, assignment,
    \<open>delete\<close> and "delete those that do not hold in a range loop".
  \<^item> A function that returns an \<open>error\<close> beside its value is a function into a sum:
    \<open>Inl\<close> the error, \<open>Inr\<close> the value.
\<close>

named_theorems gomap_simps \<open>lookups after updates of Go maps\<close>
named_theorems go_string_simps \<open>Go string functions on ASCII text\<close>
named_theorems eval_simps \<open>unfolding the model on closed terms\<close>
named_theorems codec_simps \<open>round trips of the encodings\<close>

type_synonym bytes = string
type_synonym gotime = int
type_synonym duration = int
type_synonym ('e, 'a) result = "'e + 'a"

section \<open>64-bit integers, durations and times\<close>

definition wrap64 :: "int \<Rightarrow> int" where
  "wrap64 x = (x + 2 ^ 63) mod 2 ^ 64 - 2 ^ 63"

definition max_duration :: duration where
  "max_duration = 2 ^ 63 - 1"

definition min_duration :: duration where
  "min_duration = - (2 ^ 63)"

definition in_int64 :: "int \<Rightarrow> bool" where
  "in_int64 x \<longleftrightarrow> min_duration \<le> x \<and> x \<le> max_duration"

lemma wrap64_id [simp]: "in_int64 x \<Longrightarrow> wrap64 x = x"
  by (simp add: in_int64_def wrap64_def min_duration_def max_duration_def)

lemma wrap64_in_int64 [simp]: "in_int64 (wrap64 x)"
proof -
  have "0 \<le> (x + 2 ^ 63) mod (2 ^ 64 :: int)" and "(x + 2 ^ 63) mod (2 ^ 64 :: int) < 2 ^ 64"
    by simp_all
  then show ?thesis
    by (simp add: in_int64_def wrap64_def min_duration_def max_duration_def)
qed

lemmas int64_eval [eval_simps] = wrap64_def max_duration_def min_duration_def in_int64_def

definition second :: duration where
  "second = 1000000000"

definition millisecond :: duration where
  "millisecond = 1000000"

definition minute :: duration where
  "minute = 60 * second"

lemma second_pos [simp]: "0 < second"
  by (simp add: second_def)

definition zero_time :: gotime where
  "zero_time = - 62135596800 * second"

definition time_sub :: "gotime \<Rightarrow> gotime \<Rightarrow> duration" where
  "time_sub t u = max min_duration (min max_duration (t - u))"

lemma time_sub_in_int64 [simp]: "in_int64 (time_sub t u)"
  by (simp add: time_sub_def in_int64_def min_duration_def max_duration_def)

lemma time_sub_eq: "in_int64 (t - u) \<Longrightarrow> time_sub t u = t - u"
  by (simp add: time_sub_def in_int64_def)

lemmas time_eval [eval_simps] = second_def minute_def zero_time_def time_sub_def

text \<open>
  Saturation never changes a comparison with a duration that is itself inside the range:
  the source's tests \<open>t.Sub(u) > d\<close> and \<open>t.Sub(u) < d\<close> are comparisons of times.
\<close>

lemma time_sub_gr_iff: "in_int64 d \<Longrightarrow> d < time_sub t u \<longleftrightarrow> d < t - u \<and> d < max_duration"
  by (auto simp: time_sub_def in_int64_def)

lemma time_sub_less_iff: "in_int64 d \<Longrightarrow> time_sub t u < d \<longleftrightarrow> t - u < d \<and> min_duration < d"
  by (auto simp: time_sub_def in_int64_def)

text \<open>A filter that keeps less of a list, and drops one of its elements, is shorter.\<close>

lemma filter_shrinks:
  "(\<And>x. P x \<Longrightarrow> Q x) \<Longrightarrow> a \<in> set xs \<Longrightarrow> Q a \<Longrightarrow> \<not> P a \<Longrightarrow> length (filter P xs) < length (filter Q xs)"
proof (induction xs)
  case (Cons x xs)
  have "length (filter P xs) \<le> length (filter Q xs)" using Cons.prems(1) by (induction xs) auto
  with Cons show ?case by (cases "x = a") (auto simp: less_Suc_eq_le)
qed simp

section \<open>Go maps\<close>

type_synonym ('k, 'v) gomap = "('k \<times> 'v) list"

definition gomap_ok :: "('k, 'v) gomap \<Rightarrow> bool" where
  "gomap_ok m \<longleftrightarrow> distinct (map fst m)"

definition mget :: "('k, 'v) gomap \<Rightarrow> 'k \<Rightarrow> 'v option" where
  "mget m k = map_of m k"

definition mput :: "('k, 'v) gomap \<Rightarrow> 'k \<Rightarrow> 'v \<Rightarrow> ('k, 'v) gomap" where
  "mput m k v = AList.update k v m"

definition mdel :: "('k, 'v) gomap \<Rightarrow> 'k \<Rightarrow> ('k, 'v) gomap" where
  "mdel m k = AList.delete k m"

definition mkeep :: "('k \<Rightarrow> 'v \<Rightarrow> bool) \<Rightarrow> ('k, 'v) gomap \<Rightarrow> ('k, 'v) gomap" where
  "mkeep P m = filter (\<lambda>(k, v). P k v) m"

definition mkeys :: "('k, 'v) gomap \<Rightarrow> 'k list" where
  "mkeys m = map fst m"

lemmas gomap_eval [eval_simps] = gomap_ok_def mget_def mput_def mdel_def mkeep_def mkeys_def

lemma gomap_ok_Nil [simp, intro]: "gomap_ok []"
  by (simp add: gomap_ok_def)

lemma gomap_ok_mput [simp, intro]: "gomap_ok m \<Longrightarrow> gomap_ok (mput m k v)"
  by (simp add: gomap_ok_def mput_def distinct_update)

lemma gomap_ok_mdel [simp, intro]: "gomap_ok m \<Longrightarrow> gomap_ok (mdel m k)"
  by (simp add: gomap_ok_def mdel_def distinct_delete)

lemma gomap_ok_mkeep [simp, intro]: "gomap_ok m \<Longrightarrow> gomap_ok (mkeep P m)"
  by (simp add: gomap_ok_def mkeep_def distinct_map_filter)

lemma mget_Nil [gomap_simps, simp]: "mget [] k = None"
  by (simp add: mget_def)

lemma mget_mput [gomap_simps]: "mget (mput m k v) j = (if j = k then Some v else mget m j)"
  by (simp add: mget_def mput_def update_conv')

lemma mget_mdel [gomap_simps]: "mget (mdel m k) j = (if j = k then None else mget m j)"
  by (simp add: mget_def mdel_def delete_conv')

lemma mget_mkeep [gomap_simps]:
  "gomap_ok m \<Longrightarrow> mget (mkeep P m) k =
     (case mget m k of None \<Rightarrow> None | Some v \<Rightarrow> if P k v then Some v else None)"
proof (induction m)
  case Nil
  then show ?case by (simp add: mget_def mkeep_def)
next
  case (Cons e m)
  then have "map_of m (fst e) = None"
    by (simp add: gomap_ok_def map_of_eq_None_iff)
  with Cons show ?case
    by (cases e) (auto simp: gomap_ok_def mget_def mkeep_def map_of_eq_None_iff split: option.splits)
qed

lemma length_mput: "length (mput m k v) = (if mget m k = None then Suc (length m) else length m)"
  unfolding mput_def mget_def by (induction m) auto

lemma map_of_sort_key: "distinct (map fst q) \<Longrightarrow> map_of (sort_key fst q) = map_of q"
  by (rule map_of_eqI) (auto simp: distinct_map intro!: map_of_is_SomeI)

lemma length_mkeep_le [simp]: "length (mkeep P m) \<le> length m"
  by (simp add: mkeep_def)

lemma length_mdel_le [simp]: "length (mdel m k) \<le> length m"
  unfolding mdel_def by (rule length_delete_le)

lemma length_mdel: "gomap_ok m \<Longrightarrow> length (mdel m k) = (if mget m k = None then length m else length m - 1)"
proof (induction m)
  case Nil
  then show ?case by (simp add: mdel_def)
next
  case (Cons e m)
  have tl: "gomap_ok m" and fresh: "map_of m (fst e) = None"
    using Cons.prems by (simp_all add: gomap_ok_def map_of_eq_None_iff)
  show ?case
  proof (cases "fst e = k")
    case True
    with fresh Cons.IH [OF tl] show ?thesis
      by (cases e) (simp add: mdel_def mget_def)
  next
    case False
    from Cons.IH [OF tl] False show ?thesis
      by (cases e; cases m) (auto simp: mdel_def mget_def)
  qed
qed

lemma mget_Some_mkeys: "mget m k = Some v \<Longrightarrow> k \<in> set (mkeys m)"
  by (force simp: mget_def mkeys_def dest: map_of_SomeD)

lemma mget_None_iff: "mget m k = None \<longleftrightarrow> k \<notin> set (mkeys m)"
  by (simp add: mget_def mkeys_def map_of_eq_None_iff)

lemma mget_in_set: "mget m k = Some v \<Longrightarrow> (k, v) \<in> set m"
  by (simp add: mget_def map_of_SomeD)

section \<open>Results\<close>

definition is_ok :: "('e, 'a) result \<Rightarrow> bool" where
  "is_ok r \<longleftrightarrow> (case r of Inl _ \<Rightarrow> False | Inr _ \<Rightarrow> True)"

lemma is_ok_simps [simp]: "is_ok (Inr x)" "\<not> is_ok (Inl e)"
  by (simp_all add: is_ok_def)

definition bind_result :: "('e, 'a) result \<Rightarrow> ('a \<Rightarrow> ('e, 'b) result) \<Rightarrow> ('e, 'b) result" where
  "bind_result r f = (case r of Inl e \<Rightarrow> Inl e | Inr x \<Rightarrow> f x)"

lemma bind_result_simps [simp]:
  "bind_result (Inl e) f = Inl e" "bind_result (Inr x) f = f x"
  by (simp_all add: bind_result_def)

lemma bind_result_Inr_iff:
  "bind_result r f = Inr y \<longleftrightarrow> (\<exists>x. r = Inr x \<and> f x = Inr y)"
  by (cases r) auto

end
