(* ===== verification/Go_Strings.thy ===== *)
theory Go_Strings
  imports Go_Prelude
begin

text \<open>
  The parts of Go's \<open>strings\<close>, \<open>unicode\<close>, \<open>utf8\<close> and \<open>regexp\<close> packages the sources
  use, on strings as byte sequences: character classes, the UTF-8 decoder behind a
  \<open>range\<close> loop over a string, \<open>TrimSpace\<close>, \<open>Fields\<close>, \<open>Cut\<close>, \<open>Split\<close>, \<open>Join\<close>,
  \<open>HasPrefix\<close>, \<open>CutPrefix\<close>, \<open>TrimSuffix\<close> and the ASCII case maps.
\<close>

section \<open>Bytes and character classes\<close>

definition ord :: "char \<Rightarrow> nat" where
  "ord c = of_char c"

lemma ord_inject [simp]: "ord a = ord b \<longleftrightarrow> a = b"
  by (simp add: ord_def)

lemma ord_less_256 [simp]: "ord c < 256"
  by (simp add: ord_def)

lemma char_of_ord [simp]: "char_of (ord c) = c"
  by (simp add: ord_def)

lemma ord_char_of: "n < 256 \<Longrightarrow> ord (char_of n) = n"
  by (simp add: ord_def of_char_of)

lemma ord_char_of_mod: "ord (char_of n) = n mod 256"
  by (simp add: ord_def of_char_of)

definition is_upper :: "char \<Rightarrow> bool" where
  "is_upper c \<longleftrightarrow> 65 \<le> ord c \<and> ord c \<le> 90"

definition is_lower :: "char \<Rightarrow> bool" where
  "is_lower c \<longleftrightarrow> 97 \<le> ord c \<and> ord c \<le> 122"

definition is_digit :: "char \<Rightarrow> bool" where
  "is_digit c \<longleftrightarrow> 48 \<le> ord c \<and> ord c \<le> 57"

definition is_letter :: "char \<Rightarrow> bool" where
  "is_letter c \<longleftrightarrow> is_upper c \<or> is_lower c"

definition is_ascii :: "char \<Rightarrow> bool" where
  "is_ascii c \<longleftrightarrow> ord c < 128"

definition upper_char :: "char \<Rightarrow> char" where
  "upper_char c = (if is_lower c then char_of (ord c - 32) else c)"

definition lower_char :: "char \<Rightarrow> char" where
  "lower_char c = (if is_upper c then char_of (ord c + 32) else c)"

lemmas char_class_defs = is_upper_def is_lower_def is_digit_def is_letter_def is_ascii_def

lemma ord_upper_char: "ord (upper_char c) = (if is_lower c then ord c - 32 else ord c)"
  by (auto simp: upper_char_def is_lower_def ord_char_of)

lemma upper_char_id [simp]: "\<not> is_lower c \<Longrightarrow> upper_char c = c"
  by (simp add: upper_char_def)

lemma upper_not_lower [simp]: "is_upper c \<Longrightarrow> \<not> is_lower c"
  by (simp add: char_class_defs)

lemma digit_not_lower [simp]: "is_digit c \<Longrightarrow> \<not> is_lower c"
  by (simp add: char_class_defs)

lemma is_upper_upper_char [simp]: "is_letter c \<Longrightarrow> is_upper (upper_char c)"
  by (auto simp: char_class_defs ord_upper_char)

lemma upper_char_not_lower [simp]: "\<not> is_lower (upper_char c)"
  by (auto simp: char_class_defs ord_upper_char)

lemma upper_char_idem [simp]: "upper_char (upper_char c) = upper_char c"
  by simp

section \<open>UTF-8\<close>

definition rune_error :: nat where
  "rune_error = 65533"

definition cont_byte :: "char \<Rightarrow> bool" where
  "cont_byte c \<longleftrightarrow> 128 \<le> ord c \<and> ord c \<le> 191"

text \<open>
  \<open>utf8.DecodeRuneInString\<close>: the first rune and the bytes it takes. An encoding that is
  malformed, overlong, a surrogate or out of range decodes as the replacement rune, one
  byte wide.
\<close>

fun decode_rune :: "string \<Rightarrow> nat \<times> nat" where
  "decode_rune [] = (rune_error, 0)"
| "decode_rune (a # s) =
    (let b0 = ord a in
     if b0 < 128 then (b0, 1)
     else if 194 \<le> b0 \<and> b0 \<le> 223 then
       (case s of
          b # _ \<Rightarrow> if cont_byte b then ((b0 - 192) * 64 + (ord b - 128), 2) else (rune_error, 1)
        | _ \<Rightarrow> (rune_error, 1))
     else if 224 \<le> b0 \<and> b0 \<le> 239 then
       (case s of
          b # c # _ \<Rightarrow>
            if cont_byte b \<and> cont_byte c \<and> (b0 = 224 \<longrightarrow> 160 \<le> ord b) \<and> (b0 = 237 \<longrightarrow> ord b \<le> 159)
            then ((b0 - 224) * 4096 + (ord b - 128) * 64 + (ord c - 128), 3) else (rune_error, 1)
        | _ \<Rightarrow> (rune_error, 1))
     else if 240 \<le> b0 \<and> b0 \<le> 244 then
       (case s of
          b # c # d # _ \<Rightarrow>
            if cont_byte b \<and> cont_byte c \<and> cont_byte d \<and> (b0 = 240 \<longrightarrow> 144 \<le> ord b)
               \<and> (b0 = 244 \<longrightarrow> ord b \<le> 143)
            then ((b0 - 240) * 262144 + (ord b - 128) * 4096 + (ord c - 128) * 64 + (ord d - 128), 4)
            else (rune_error, 1)
        | _ \<Rightarrow> (rune_error, 1))
     else (rune_error, 1))"

lemma decode_rune_ascii [go_string_simps, simp]:
  "is_ascii c \<Longrightarrow> decode_rune (c # s) = (ord c, 1)"
  by (simp add: is_ascii_def)

lemma decode_rune_width: "1 \<le> snd (decode_rune (c # s))"
  by (auto simp: Let_def split: list.splits)

declare decode_rune.simps(2) [simp del]

text \<open>The runes a \<open>range\<close> loop over the string visits.\<close>

function runes :: "string \<Rightarrow> nat list" where
  "runes [] = []"
| "runes (c # s) = fst (decode_rune (c # s)) # runes (drop (snd (decode_rune (c # s))) (c # s))"
  by pat_completeness auto
termination
proof (relation "measure length")
  fix c :: char and s :: string
  have "1 \<le> snd (decode_rune (c # s))" by (rule decode_rune_width)
  then show "(drop (snd (decode_rune (c # s))) (c # s), c # s) \<in> measure length"
    by (simp add: less_Suc_eq_le)
qed simp

lemma runes_ascii_Cons [go_string_simps, simp]: "is_ascii c \<Longrightarrow> runes (c # s) = ord c # runes s"
  by simp

declare runes.simps(2) [simp del]

lemma runes_ascii: "list_all is_ascii s \<Longrightarrow> runes s = map ord s"
  by (induction s) simp_all

text \<open>\<open>utf8.AppendRune\<close>, behind \<open>strings.Builder.WriteRune\<close>.\<close>

definition encode_rune :: "nat \<Rightarrow> string" where
  "encode_rune r0 =
    (let r = (if (55296 \<le> r0 \<and> r0 \<le> 57343) \<or> 1114111 < r0 then rune_error else r0) in
     if r < 128 then [char_of r]
     else if r < 2048 then [char_of (192 + r div 64), char_of (128 + r mod 64)]
     else if r < 65536 then
       [char_of (224 + r div 4096), char_of (128 + r div 64 mod 64), char_of (128 + r mod 64)]
     else [char_of (240 + r div 262144), char_of (128 + r div 4096 mod 64),
           char_of (128 + r div 64 mod 64), char_of (128 + r mod 64)])"

text \<open>\<open>unicode.IsSpace\<close>: the white-space characters.\<close>

definition is_space_rune :: "nat \<Rightarrow> bool" where
  "is_space_rune r \<longleftrightarrow>
     r \<in> {9, 10, 11, 12, 13, 32, 133, 160, 5760, 8232, 8233, 8239, 8287, 12288}
     \<or> (8192 \<le> r \<and> r \<le> 8202)"

definition is_space :: "char \<Rightarrow> bool" where
  "is_space c \<longleftrightarrow> ord c \<in> {9, 10, 11, 12, 13, 32}"

lemma is_space_rune_ascii: "is_ascii c \<Longrightarrow> is_space_rune (ord c) = is_space c"
  by (auto simp: is_space_rune_def is_space_def is_ascii_def)

section \<open>strings.TrimSpace\<close>

function trim_left_space :: "string \<Rightarrow> string" where
  "trim_left_space [] = []"
| "trim_left_space (c # s) =
     (if is_space_rune (fst (decode_rune (c # s)))
      then trim_left_space (drop (snd (decode_rune (c # s))) (c # s)) else c # s)"
  by pat_completeness auto
termination
proof (relation "measure length")
  fix c :: char and s :: string
  have "1 \<le> snd (decode_rune (c # s))" by (rule decode_rune_width)
  then show "(drop (snd (decode_rune (c # s))) (c # s), c # s) \<in> measure length"
    by (simp add: less_Suc_eq_le)
qed simp

declare trim_left_space.simps(2) [simp del]

text \<open>
  \<open>utf8.DecodeLastRuneInString\<close>: the last rune starts at the nearest of the last four bytes
  that can start one; anything that does not decode up to the end is the replacement rune.
\<close>

definition rune_start :: "char \<Rightarrow> bool" where
  "rune_start c \<longleftrightarrow> \<not> cont_byte c"

definition last_start :: "string \<Rightarrow> nat option" where
  "last_start s = List.find (\<lambda>k. k \<le> length s \<and> rune_start (s ! (length s - k))) [2, 3, 4]"

definition decode_last_rune :: "string \<Rightarrow> nat \<times> nat" where
  "decode_last_rune s =
     (if s = [] then (rune_error, 0)
      else if is_ascii (last s) then (ord (last s), 1)
      else case last_start s of
             None \<Rightarrow> (rune_error, 1)
           | Some k \<Rightarrow>
               (let (r, n) = decode_rune (drop (length s - k) s)
                in if n = k then (r, n) else (rune_error, 1)))"

lemma decode_last_rune_width: "s \<noteq> [] \<Longrightarrow> 1 \<le> snd (decode_last_rune s)"
  by (auto simp: decode_last_rune_def last_start_def split: option.splits prod.splits if_splits)

lemma decode_last_rune_ascii [simp]:
  "is_ascii c \<Longrightarrow> decode_last_rune (s @ [c]) = (ord c, 1)"
  by (simp add: decode_last_rune_def)

function trim_right_space :: "string \<Rightarrow> string" where
  "trim_right_space s =
     (if s \<noteq> [] \<and> is_space_rune (fst (decode_last_rune s))
      then trim_right_space (take (length s - snd (decode_last_rune s)) s) else s)"
  by pat_completeness auto
termination
proof (relation "measure length")
  fix s :: string
  assume "s \<noteq> [] \<and> is_space_rune (fst (decode_last_rune s))"
  then have ne: "s \<noteq> []" by simp
  then have "1 \<le> snd (decode_last_rune s)" by (rule decode_last_rune_width)
  with ne show "(take (length s - snd (decode_last_rune s)) s, s) \<in> measure length"
    by (cases s) auto
qed simp

declare trim_right_space.simps [simp del]

definition trim_space :: "string \<Rightarrow> string" where
  "trim_space s = trim_right_space (trim_left_space s)"

lemma trim_left_space_length [simp]: "length (trim_left_space s) \<le> length s"
proof (induction s rule: trim_left_space.induct)
  case (2 c s)
  show ?case
  proof (cases "is_space_rune (fst (decode_rune (c # s)))")
    case True
    with "2.IH" have "length (trim_left_space (c # s)) \<le> length (drop (snd (decode_rune (c # s))) (c # s))"
      by (simp add: trim_left_space.simps(2) [of c s])
    then show ?thesis by simp
  qed (simp add: trim_left_space.simps(2))
qed simp

lemma trim_right_space_length [simp]: "length (trim_right_space s) \<le> length s"
proof (induction s rule: trim_right_space.induct)
  case (1 s)
  show ?case
  proof (cases "s \<noteq> [] \<and> is_space_rune (fst (decode_last_rune s))")
    case True
    with "1.IH" have "length (trim_right_space s) \<le> length (take (length s - snd (decode_last_rune s)) s)"
      by (simp add: trim_right_space.simps [of s])
    then show ?thesis by simp
  next
    case False
    then show ?thesis by (subst trim_right_space.simps) auto
  qed
qed

lemma trim_space_length [simp]: "length (trim_space s) \<le> length s"
  unfolding trim_space_def
  by (rule order_trans [OF trim_right_space_length trim_left_space_length])

lemma trim_space_Nil [simp]: "trim_space [] = []"
  by (simp add: trim_space_def trim_right_space.simps)

text \<open>Text that starts and ends in an ASCII character that is no space is already trimmed.\<close>

lemma trim_space_id [go_string_simps]:
  assumes "s \<noteq> []" "is_ascii (hd s)" "\<not> is_space (hd s)" "is_ascii (last s)" "\<not> is_space (last s)"
  shows "trim_space s = s"
proof -
  obtain c t where ct: "s = c # t" using assms(1) by (cases s) auto
  have "trim_left_space s = s"
    using assms by (simp add: ct trim_left_space.simps(2) is_space_rune_ascii)
  moreover have "trim_right_space s = s"
  proof -
    have "decode_last_rune s = (ord (last s), 1)"
      using assms by (simp add: decode_last_rune_def)
    then show ?thesis
      using assms by (subst trim_right_space.simps) (simp add: is_space_rune_ascii)
  qed
  ultimately show ?thesis by (simp add: trim_space_def)
qed

text \<open>
  A trimmed value ends in no space, so trimming what follows a non-empty cut of it never
  empties it.
\<close>

lemma trim_right_space_fix:
  "trim_right_space s = s \<longleftrightarrow> s = [] \<or> \<not> is_space_rune (fst (decode_last_rune s))"
proof
  assume fix_s: "trim_right_space s = s"
  show "s = [] \<or> \<not> is_space_rune (fst (decode_last_rune s))"
  proof (rule ccontr)
    assume "\<not> (s = [] \<or> \<not> is_space_rune (fst (decode_last_rune s)))"
    then have ne: "s \<noteq> []" and sp: "is_space_rune (fst (decode_last_rune s))" by auto
    then have "trim_right_space s = trim_right_space (take (length s - snd (decode_last_rune s)) s)"
      by (subst trim_right_space.simps) simp
    moreover have "length (trim_right_space (take (length s - snd (decode_last_rune s)) s)) < length s"
      by (rule le_less_trans [OF trim_right_space_length])
         (use ne decode_last_rune_width [OF ne] in \<open>cases s; auto\<close>)
    ultimately show False using fix_s by simp
  qed
next
  assume "s = [] \<or> \<not> is_space_rune (fst (decode_last_rune s))"
  then show "trim_right_space s = s" by (subst trim_right_space.simps) auto
qed

lemma trim_right_space_idem [simp]: "trim_right_space (trim_right_space s) = trim_right_space s"
proof (induction s rule: trim_right_space.induct)
  case (1 s)
  then show ?case
    by (cases "s \<noteq> [] \<and> is_space_rune (fst (decode_last_rune s))")
       (auto simp: trim_right_space.simps [of s] trim_right_space_fix)
qed

section \<open>Cutting, splitting and joining\<close>

definition has_prefix :: "string \<Rightarrow> string \<Rightarrow> bool" where
  "has_prefix s p \<longleftrightarrow> take (length p) s = p"

definition has_suffix :: "string \<Rightarrow> string \<Rightarrow> bool" where
  "has_suffix s p \<longleftrightarrow> length p \<le> length s \<and> drop (length s - length p) s = p"

definition cut_prefix :: "string \<Rightarrow> string \<Rightarrow> string \<times> bool" where
  "cut_prefix s p = (if has_prefix s p then (drop (length p) s, True) else (s, False))"

definition cut_suffix :: "string \<Rightarrow> string \<Rightarrow> string \<times> bool" where
  "cut_suffix s p = (if has_suffix s p then (take (length s - length p) s, True) else (s, False))"

definition trim_suffix :: "string \<Rightarrow> string \<Rightarrow> string" where
  "trim_suffix s p = fst (cut_suffix s p)"

lemma has_prefix_append [simp]: "has_prefix (p @ s) p"
  by (simp add: has_prefix_def)

lemma has_prefix_iff: "has_prefix s p \<longleftrightarrow> (\<exists>t. s = p @ t)"
  by (metis append_take_drop_id has_prefix_append has_prefix_def)

lemma cut_prefix_append [simp]: "cut_prefix (p @ s) p = (s, True)"
  by (simp add: cut_prefix_def)

definition str_contains :: "string \<Rightarrow> string \<Rightarrow> bool" where
  "str_contains s t = list_ex (\<lambda>i. has_prefix (drop i s) t) [0..<Suc (length s)]"

lemma str_contains_append: "str_contains (a @ t @ b) t"
proof -
  have "has_prefix (drop (length a) (a @ t @ b)) t" by simp
  moreover have "length a \<in> set [0..<Suc (length (a @ t @ b))]" by (simp del: upt_Suc)
  ultimately show ?thesis unfolding str_contains_def list_ex_iff by blast
qed

text \<open>\<open>strings.Cut\<close> and \<open>strings.Split\<close> at a one-byte separator.\<close>

fun cut_at :: "char \<Rightarrow> string \<Rightarrow> string \<times> string \<times> bool" where
  "cut_at d [] = ([], [], False)"
| "cut_at d (c # s) = (if c = d then ([], s, True) else
     (let (a, b, ok) = cut_at d s in (c # a, b, ok)))"

fun split_on :: "char \<Rightarrow> string \<Rightarrow> string list" where
  "split_on d [] = [[]]"
| "split_on d (c # s) =
     (if c = d then [] # split_on d s
      else case split_on d s of [] \<Rightarrow> [[c]] | f # fs \<Rightarrow> (c # f) # fs)"

fun join_with :: "string \<Rightarrow> string list \<Rightarrow> string" where
  "join_with d [] = []"
| "join_with d [x] = x"
| "join_with d (x # y # xs) = x @ d @ join_with d (y # xs)"

lemma split_on_not_Nil [simp]: "split_on d s \<noteq> []"
  by (induction s) (auto split: list.splits)

lemma split_on_none [simp]: "d \<notin> set s \<Longrightarrow> split_on d s = [s]"
  by (induction s) auto

lemma split_on_append [simp]:
  "d \<notin> set f \<Longrightarrow> split_on d (f @ d # s) = f # split_on d s"
  by (induction f) auto

lemma split_on_sep: "split_on d (a @ d # s) = split_on d a @ split_on d s"
  by (induction a) (auto split: list.splits)

lemma split_on_mid: "d \<notin> set m \<Longrightarrow> split_on d (a @ d # m @ d # b) = split_on d a @ m # split_on d b"
  by (simp add: split_on_sep)

lemma join_split_on [simp]: "join_with [d] (split_on d s) = s"
proof (induction s)
  case (Cons c s)
  show ?case
  proof (cases "split_on d s")
    case Nil
    then show ?thesis by simp
  next
    case (Cons f fs)
    with Cons.IH show ?thesis by (cases fs) auto
  qed
qed simp

lemma split_on_fields: "f \<in> set (split_on d s) \<Longrightarrow> d \<notin> set f"
  by (induction s arbitrary: f) (auto split: if_splits list.splits)

lemma split_on_join: "fs \<noteq> [] \<Longrightarrow> list_all (\<lambda>f. d \<notin> set f) fs \<Longrightarrow> split_on d (join_with [d] fs) = fs"
  by (induction "[d]" fs rule: join_with.induct) auto

lemma cut_at_found: "d \<notin> set a \<Longrightarrow> cut_at d (a @ d # b) = (a, b, True)"
  by (induction a) auto

lemma cut_at_none: "d \<notin> set s \<Longrightarrow> cut_at d s = (s, [], False)"
  by (induction s) auto

text \<open>
  \<open>strings.Fields\<close>: the runs of characters between white space. The string is read rune by
  rune, each with the bytes it was written in.
\<close>

function rune_chunks :: "string \<Rightarrow> (nat \<times> string) list" where
  "rune_chunks [] = []"
| "rune_chunks (c # s) =
     (let (r, n) = decode_rune (c # s) in (r, take n (c # s)) # rune_chunks (drop n (c # s)))"
  by pat_completeness auto
termination
proof (relation "measure length")
  fix c :: char and s :: string and p r n
  assume "p = decode_rune (c # s)" and "(r, n) = p"
  with decode_rune_width [of c s] have "1 \<le> n" by (metis snd_conv)
  then show "(drop n (c # s), c # s) \<in> measure length" by (simp add: less_Suc_eq_le)
qed simp

lemma concat_rune_chunks: "concat (map snd (rune_chunks s)) = s"
proof (induction s rule: rune_chunks.induct)
  case (2 c s)
  then show ?case by (cases "decode_rune (c # s)") (simp add: Let_def)
qed simp

fun fields_acc :: "string \<Rightarrow> (nat \<times> string) list \<Rightarrow> string list" where
  "fields_acc acc [] = (if acc = [] then [] else [acc])"
| "fields_acc acc ((r, b) # rs) =
     (if is_space_rune r then (if acc = [] then fields_acc [] rs else acc # fields_acc [] rs)
      else fields_acc (acc @ b) rs)"

definition fields :: "string \<Rightarrow> string list" where
  "fields s = fields_acc [] (rune_chunks s)"

definition ascii_upper :: "string \<Rightarrow> string" where
  "ascii_upper s = map upper_char s"

definition ascii_lower :: "string \<Rightarrow> string" where
  "ascii_lower s = map lower_char s"

lemmas go_string_eval [eval_simps] =
  ord_def char_class_defs upper_char_def lower_char_def char_of_def bit_0 bit_Suc_0_iff rune_error_def cont_byte_def
  decode_rune.simps(2) runes.simps(2) encode_rune_def is_space_rune_def is_space_def
  trim_left_space.simps(2) rune_start_def last_start_def decode_last_rune_def trim_right_space.simps
  trim_space_def has_prefix_def has_suffix_def cut_prefix_def cut_suffix_def trim_suffix_def
  fields_def ascii_upper_def ascii_lower_def Let_def

end
