(* ===== verification/Identity_Code.thy ===== *)
theory Identity_Code
  imports Go_Strings
begin

text \<open>
  Package \<open>identitycode\<close> (\<open>src/identitycode/identitycode.go\<close>): the many spellings of a
  person's or an organisation's identity code and the one form that is stored, compared and
  shown. The definitions follow the file: the recognised identity types, the shapes the
  regular expressions accept, \<open>Canonical\<close> with its cross-border loop, \<open>Key\<close>, \<open>Display\<close>,
  \<open>Code\<close> and \<open>Parse\<close>, and the helpers below them. The lemmas show that \<open>Canonical\<close> is a
  normal form for \<open>Parse\<close>, that hints and spellings do not change it, and that what
  \<open>Display\<close> shows can be typed back in.
\<close>

datatype error =
    ErrEmpty | ErrCountryRequired | ErrCountryInvalid | ErrUnknownSemantics | ErrAmbiguous | ErrMalformed

section \<open>Identity types\<close>

definition semanticsPersonalNumber :: string where
  "semanticsPersonalNumber = ''PNO''"

definition recognisedSemantics :: "string list" where
  "recognisedSemantics = [''PNO'', ''NTR'', ''PAS'', ''IDC'', ''TIN'']"

definition naturalPersonSemantics :: "string list" where
  "naturalPersonSemantics = [''PAS'', ''IDC'', ''PNO'', ''TAX'', ''TIN'', ''EID'']"

section \<open>The shapes the regular expressions accept\<close>

text \<open>
  In the expressions the dot matches any character but a line feed, and the dollar sign the
  end of the text. Each function answers the submatches.
\<close>

definition line_feed :: char where
  "line_feed = CHR 0x0A"

fun prefixedForm :: "string \<Rightarrow> (string \<times> string \<times> string) option" where
  "prefixedForm (a # b # c # d # e # h # rest) =
     (if list_all is_letter [a, b, c, d, e] \<and> h = CHR ''-'' \<and> line_feed \<notin> set rest
      then Some ([a, b, c], [d, e], rest) else None)"
| "prefixedForm _ = None"

fun localPrefixedForm :: "string \<Rightarrow> bool" where
  "localPrefixedForm (a # b # k # c # d # h # rest) \<longleftrightarrow>
     list_all is_letter [a, b, c, d] \<and> k = CHR '':'' \<and> h = CHR ''-''"
| "localPrefixedForm _ \<longleftrightarrow> False"

fun crossBorderForm :: "string \<Rightarrow> (string \<times> string \<times> string) option" where
  "crossBorderForm (a # b # h # c # d # k # rest) =
     (if list_all is_letter [a, b, c, d] \<and> h = CHR ''/'' \<and> k = CHR ''/''
         \<and> rest \<noteq> [] \<and> line_feed \<notin> set rest
      then Some ([a, b], [c, d], rest) else None)"
| "crossBorderForm _ = None"

fun storedForm :: "string \<Rightarrow> (string \<times> string \<times> string) option" where
  "storedForm (a # b # c # d # e # h # rest) =
     (if list_all is_upper [a, b, c, d, e] \<and> h = CHR ''-'' \<and> rest \<noteq> []
         \<and> list_all (\<lambda>x. is_upper x \<or> is_digit x) rest
      then Some ([a, b, c], [d, e], rest) else None)"
| "storedForm _ = None"

section \<open>Helpers\<close>

definition isSeparator :: "nat \<Rightarrow> bool" where
  "isSeparator r \<longleftrightarrow> is_space_rune r \<or> r = 45 \<or> r = 46 \<or> r = 47"

definition isASCIILetters :: "string \<Rightarrow> bool" where
  "isASCIILetters s \<longleftrightarrow> list_all is_letter s \<and> 0 < length s"

definition isASCIIDigits :: "string \<Rightarrow> bool" where
  "isASCIIDigits s \<longleftrightarrow> list_all is_digit s \<and> 0 < length s"

definition asciiUpper :: "string \<Rightarrow> string" where
  "asciiUpper s = map (\<lambda>c. if is_lower c then char_of (ord c - 97 + 65) else c) s"

definition beginsLikeAPrefix :: "string \<Rightarrow> bool" where
  "beginsLikeAPrefix i \<longleftrightarrow> 5 \<le> length i \<and> isASCIILetters (take 5 i)"

definition countryCode :: "string \<Rightarrow> (error, string) result" where
  "countryCode hint =
     (let h = trim_space hint in
      if h = [] then Inl ErrCountryRequired
      else if length h \<noteq> 2 \<or> \<not> isASCIILetters h then Inl ErrCountryInvalid
      else Inr (asciiUpper h))"

text \<open>The loop of \<open>identifier\<close> over the runes of the part, with what the builder holds.\<close>

fun identifier_loop :: "nat list \<Rightarrow> string \<Rightarrow> (error, string) result" where
  "identifier_loop [] b = (if b = [] then Inl ErrMalformed else Inr b)"
| "identifier_loop (r # rs) b =
     (if isSeparator r then identifier_loop rs b
      else if (48 \<le> r \<and> r \<le> 57) \<or> (65 \<le> r \<and> r \<le> 90) then identifier_loop rs (b @ encode_rune r)
      else if 97 \<le> r \<and> r \<le> 122 then identifier_loop rs (b @ encode_rune (r - 97 + 65))
      else Inl ErrMalformed)"

definition identifierOf :: "string \<Rightarrow> (error, string) result" where
  "identifierOf part = identifier_loop (runes part) []"

section \<open>Canonical\<close>

lemma crossBorderForm_shrinks:
  "crossBorderForm v = Some (a, b, rest) \<Longrightarrow> length (trim_space rest) < length v"
  by (induction v rule: crossBorderForm.induct)
     (auto split: if_splits intro: le_less_trans [OF trim_space_length])

text \<open>The loop that strips one country pair at each pass; it answers the country and the code.\<close>

function unwrapCrossBorder :: "string \<Rightarrow> string \<Rightarrow> string \<times> string" where
  "unwrapCrossBorder country v =
     (case crossBorderForm v of
        None \<Rightarrow> (country, v)
      | Some (c, asked, rest) \<Rightarrow> unwrapCrossBorder c (trim_space rest))"
  by pat_completeness auto
termination
  by (relation "measure (\<lambda>(country, v). length v)") (auto intro: crossBorderForm_shrinks)

declare unwrapCrossBorder.simps [simp del]

definition canonical :: "string \<Rightarrow> string \<Rightarrow> (error, string) result" where
  "canonical raw hint =
     (let v0 = trim_space raw in
      if v0 = [] then Inl ErrEmpty
      else
        let (country, v) = unwrapCrossBorder hint v0 in
        (case prefixedForm v of
           Some (sem0, cc, rest) \<Rightarrow>
             let semantics = asciiUpper sem0 in
             if semantics \<notin> set recognisedSemantics then Inl ErrUnknownSemantics
             else bind_result (identifierOf rest) (\<lambda>i. Inr (semantics @ asciiUpper cc @ ''-'' @ i))
         | None \<Rightarrow>
             if localPrefixedForm v then Inl ErrUnknownSemantics
             else bind_result (countryCode country) (\<lambda>cc.
                  bind_result (identifierOf v) (\<lambda>i.
                  if beginsLikeAPrefix i then Inl ErrAmbiguous
                  else Inr (semanticsPersonalNumber @ cc @ ''-'' @ i)))))"

section \<open>Code, Parse, Key and Display\<close>

record code =
  Semantics :: string
  Country :: string
  Identifier :: string

definition code_string :: "code \<Rightarrow> string" where
  "code_string c = Semantics c @ Country c @ ''-'' @ Identifier c"

definition isNaturalPerson :: "code \<Rightarrow> bool" where
  "isNaturalPerson c \<longleftrightarrow> Semantics c \<in> set naturalPersonSemantics"

definition parse :: "string \<Rightarrow> (error, code) result" where
  "parse stored =
     (case storedForm stored of
        None \<Rightarrow> Inl ErrMalformed
      | Some (sem, cc, i) \<Rightarrow>
          if sem \<notin> set recognisedSemantics then Inl ErrUnknownSemantics
          else Inr \<lparr>Semantics = sem, Country = cc, Identifier = i\<rparr>)"

definition key_rune :: "nat \<Rightarrow> string" where
  "key_rune r =
     (if isSeparator r then []
      else if 97 \<le> r \<and> r \<le> 122 then encode_rune (r - 97 + 65)
      else encode_rune r)"

definition key_fallback :: "string \<Rightarrow> string" where
  "key_fallback v = concat (map key_rune (runes v))"

definition key :: "string \<Rightarrow> string" where
  "key stored =
     (let v = trim_space stored in
      case parse v of
        Inr c \<Rightarrow> code_string c
      | Inl _ \<Rightarrow>
          (case canonical v '''' of
             Inr s \<Rightarrow> s
           | Inl _ \<Rightarrow> key_fallback v))"

text \<open>The one entry of \<open>nationalSplits\<close>, Latvia's.\<close>

definition nationalSplits :: "string \<Rightarrow> (string \<Rightarrow> string option) option" where
  "nationalSplits country =
     (if country = ''LV'' then
        Some (\<lambda>i. if length i \<noteq> 11 \<or> \<not> isASCIIDigits i then None
                  else Some (take 6 i @ ''-'' @ drop 6 i))
      else None)"

definition display :: "string \<Rightarrow> string" where
  "display stored =
     (case parse (trim_space stored) of
        Inl _ \<Rightarrow> stored
      | Inr c \<Rightarrow>
          if Semantics c = semanticsPersonalNumber then
            (case nationalSplits (Country c) of
               None \<Rightarrow> code_string c
             | Some split \<Rightarrow> (case split (Identifier c) of None \<Rightarrow> code_string c | Some s \<Rightarrow> s))
          else code_string c)"

lemmas identity_eval [eval_simps] =
  semanticsPersonalNumber_def recognisedSemantics_def naturalPersonSemantics_def line_feed_def
  isSeparator_def isASCIILetters_def isASCIIDigits_def asciiUpper_def beginsLikeAPrefix_def
  countryCode_def identifierOf_def unwrapCrossBorder.simps canonical_def code_string_def
  isNaturalPerson_def parse_def key_rune_def key_fallback_def key_def nationalSplits_def display_def

section \<open>Identifiers\<close>

definition id_char :: "char \<Rightarrow> bool" where
  "id_char c \<longleftrightarrow> is_upper c \<or> is_digit c"

lemma id_char_ascii [simp]: "id_char c \<Longrightarrow> is_ascii c"
  by (auto simp: id_char_def char_class_defs)

lemma id_char_not_space [simp]: "id_char c \<Longrightarrow> \<not> is_space c"
  by (auto simp: id_char_def char_class_defs is_space_def)

lemma is_letter_not_space [simp]: "is_letter c \<Longrightarrow> \<not> is_space c"
  by (auto simp: char_class_defs is_space_def)

lemma is_letter_ascii [simp]: "is_letter c \<Longrightarrow> is_ascii c"
  by (auto simp: char_class_defs)

lemma is_digit_id [simp]: "is_digit c \<Longrightarrow> id_char c"
  by (simp add: id_char_def)

lemma id_char_not_line_feed: "list_all id_char s \<Longrightarrow> line_feed \<notin> set s"
  by (induction s) (auto simp: id_char_def char_class_defs line_feed_def ord_def)

lemma encode_rune_ascii [simp]: "r < 128 \<Longrightarrow> encode_rune r = [char_of r]"
  by (simp add: encode_rune_def)

lemma asciiUpper_eq [simp]: "asciiUpper s = map upper_char s"
  by (auto simp: asciiUpper_def upper_char_def is_lower_def intro: arg_cong)

lemma map_upper_char_id [simp]: "list_all is_upper s \<Longrightarrow> map upper_char s = s"
  by (induction s) simp_all

lemma list_all_upper_char [simp]: "list_all is_letter s \<Longrightarrow> list_all is_upper (map upper_char s)"
  by (induction s) simp_all

lemma identifier_loop_id_chars:
  "identifier_loop rs b = Inr i \<Longrightarrow> list_all id_char b \<Longrightarrow> list_all id_char i \<and> i \<noteq> []"
proof (induction rs b rule: identifier_loop.induct)
  case (2 r rs b)
  have enc: "list_all id_char (encode_rune r)" if "48 \<le> r \<and> r \<le> 57 \<or> 65 \<le> r \<and> r \<le> 90"
    using that by (auto simp: id_char_def char_class_defs ord_char_of)
  have enc': "list_all id_char (encode_rune (r - 97 + 65))" if "97 \<le> r" "r \<le> 122"
    using that by (auto simp: id_char_def char_class_defs ord_char_of)
  from 2 enc enc' show ?case
    by (auto split: if_splits simp del: encode_rune_ascii)
qed (auto split: if_splits)

lemma identifierOf_id_chars: "identifierOf p = Inr i \<Longrightarrow> list_all id_char i \<and> i \<noteq> []"
  using identifier_loop_id_chars [of "runes p" "[]" i] by (simp add: identifierOf_def)

lemma identifier_loop_id:
  "list_all id_char s \<Longrightarrow> identifier_loop (map ord s) b = (if b @ s = [] then Inl ErrMalformed else Inr (b @ s))"
proof (induction s arbitrary: b)
  case (Cons c s)
  then have c: "is_upper c \<or> is_digit c" by (simp add: id_char_def)
  then have "ord c < 128" and "\<not> isSeparator (ord c)"
    by (auto simp: char_class_defs isSeparator_def is_space_rune_def)
  with Cons c show ?case
    by (auto simp: char_class_defs)
qed simp

lemma identifierOf_id: "list_all id_char s \<Longrightarrow> s \<noteq> [] \<Longrightarrow> identifierOf s = Inr s"
proof -
  assume id: "list_all id_char s" and "s \<noteq> []"
  then have "runes s = map ord s"
    by (intro runes_ascii) (auto simp: list_all_iff)
  with id \<open>s \<noteq> []\<close> show ?thesis
    by (simp add: identifierOf_def identifier_loop_id)
qed

section \<open>Stored codes\<close>

definition stored_shape :: "string \<Rightarrow> string \<Rightarrow> string \<Rightarrow> bool" where
  "stored_shape sem cc i \<longleftrightarrow> sem \<in> set recognisedSemantics \<and> length cc = 2 \<and> list_all is_upper cc
     \<and> list_all id_char i \<and> i \<noteq> []"

lemma recognised_upper: "sem \<in> set recognisedSemantics \<Longrightarrow> length sem = 3 \<and> list_all is_upper sem"
  by (auto simp: recognisedSemantics_def is_upper_def ord_def)

lemma length3: "length s = 3 \<Longrightarrow> \<exists>a b c. s = [a, b, c]"
  by (cases s; cases "tl s"; cases "tl (tl s)") auto

lemma length2: "length s = 2 \<Longrightarrow> \<exists>a b. s = [a, b]"
  by (cases s; cases "tl s") auto

lemma storedForm_Some_iff:
  "storedForm s = Some (sem, cc, i) \<longleftrightarrow>
     s = sem @ cc @ ''-'' @ i \<and> length sem = 3 \<and> list_all is_upper sem \<and> length cc = 2 \<and> list_all is_upper cc
     \<and> list_all id_char i \<and> i \<noteq> []" (is "?L \<longleftrightarrow> ?R")
proof
  show "?L \<Longrightarrow> ?R"
    by (induction s rule: storedForm.induct) (auto split: if_splits simp: id_char_def [abs_def])
next
  assume R: ?R
  then obtain a b c d e where "sem = [a, b, c]" "cc = [d, e]"
    by (metis length2 length3)
  with R show ?L by (simp add: id_char_def [abs_def])
qed

lemma parse_ok_iff:
  "parse s = Inr c \<longleftrightarrow> stored_shape (Semantics c) (Country c) (Identifier c) \<and> code_string c = s"
proof (cases "storedForm s")
  case None
  then have "\<not> (stored_shape (Semantics c) (Country c) (Identifier c) \<and> code_string c = s)"
    using storedForm_Some_iff [of s "Semantics c" "Country c" "Identifier c"] recognised_upper [of "Semantics c"]
    by (auto simp: stored_shape_def code_string_def)
  with None show ?thesis by (simp add: parse_def)
next
  case (Some f)
  obtain sem cc i where f: "f = (sem, cc, i)" by (cases f)
  with Some have s: "s = sem @ cc @ ''-'' @ i" and l: "length sem = 3" "length cc = 2"
    and ok: "list_all is_upper sem" "list_all is_upper cc" "list_all id_char i" "i \<noteq> []"
    by (simp_all add: storedForm_Some_iff)
  show ?thesis
  proof
    assume "parse s = Inr c"
    with Some f l ok s show "stored_shape (Semantics c) (Country c) (Identifier c) \<and> code_string c = s"
      by (auto simp: parse_def stored_shape_def code_string_def split: if_splits)
  next
    assume R: "stored_shape (Semantics c) (Country c) (Identifier c) \<and> code_string c = s"
    then have "length (Semantics c) = 3" "length (Country c) = 2"
      using recognised_upper by (auto simp: stored_shape_def)
    with R s l have "Semantics c = sem" "Country c = cc" "Identifier c = i"
      by (auto simp: code_string_def)
    with R Some f show "parse s = Inr c"
      by (auto simp: parse_def stored_shape_def)
  qed
qed

section \<open>Canonical is a normal form\<close>

lemma stored_trim: "stored_shape sem cc i \<Longrightarrow> trim_space (sem @ cc @ ''-'' @ i) = sem @ cc @ ''-'' @ i"
proof (rule trim_space_id)
  assume st: "stored_shape sem cc i"
  then obtain a b c where sem: "sem = [a, b, c]" and "is_upper a"
    using length3 recognised_upper by (fastforce simp: stored_shape_def)
  then show "is_ascii (hd (sem @ cc @ ''-'' @ i))" "\<not> is_space (hd (sem @ cc @ ''-'' @ i))"
    by (simp_all add: is_letter_def)
  have "id_char (last i)"
    using st by (auto simp: stored_shape_def list_all_iff)
  with st show "is_ascii (last (sem @ cc @ ''-'' @ i))" "\<not> is_space (last (sem @ cc @ ''-'' @ i))"
    by (simp_all add: stored_shape_def)
qed simp

lemma canonical_of_stored:
  assumes st: "stored_shape sem cc i"
  shows "canonical (sem @ cc @ ''-'' @ i) h = Inr (sem @ cc @ ''-'' @ i)"
proof -
  obtain a b c d e where sem: "sem = [a, b, c]" and cc: "cc = [d, e]"
    and up: "is_upper a" "is_upper b" "is_upper c" "is_upper d" "is_upper e"
    using st length3 [of sem] length2 [of cc] recognised_upper [of sem]
    by (fastforce simp: stored_shape_def)
  have ids: "list_all id_char i" "i \<noteq> []" and rec: "sem \<in> set recognisedSemantics"
    using st by (simp_all add: stored_shape_def)
  have lf: "line_feed \<notin> set i" using ids(1) by (rule id_char_not_line_feed)
  have "crossBorderForm (sem @ cc @ ''-'' @ i) = None"
    using up by (auto simp: sem cc char_class_defs ord_def)
  then have unw: "unwrapCrossBorder h (sem @ cc @ ''-'' @ i) = (h, sem @ cc @ ''-'' @ i)"
    by (simp add: unwrapCrossBorder.simps)
  have pre: "prefixedForm (sem @ cc @ CHR ''-'' # i) = Some (sem, cc, i)"
    using up lf by (simp add: sem cc is_letter_def)
  have "map upper_char sem = sem" "map upper_char cc = cc"
    using up by (simp_all add: sem cc)
  with rec ids show ?thesis
    unfolding canonical_def stored_trim [OF st] Let_def unw
    by (simp add: pre identifierOf_id)
qed

lemma prefixedForm_letters:
  "prefixedForm v = Some (sem, cc, rest) \<Longrightarrow>
     length sem = 3 \<and> list_all is_letter sem \<and> length cc = 2 \<and> list_all is_letter cc
     \<and> v = sem @ cc @ ''-'' @ rest \<and> line_feed \<notin> set rest"
  by (induction v rule: prefixedForm.induct) (auto split: if_splits)

lemma countryCode_shape: "countryCode h = Inr cc \<Longrightarrow> length cc = 2 \<and> list_all is_upper cc"
  by (auto simp: countryCode_def Let_def isASCIILetters_def split: if_splits)

lemma canonical_shape:
  assumes "canonical raw h = Inr s"
  shows "\<exists>sem cc i. stored_shape sem cc i \<and> s = sem @ cc @ ''-'' @ i"
proof -
  obtain country v where u: "unwrapCrossBorder h (trim_space raw) = (country, v)"
    by (cases "unwrapCrossBorder h (trim_space raw)")
  show ?thesis
  proof (cases "prefixedForm v")
    case (Some f)
    obtain sem cc rest where f: "f = (sem, cc, rest)" by (cases f)
    have "list_all is_letter cc" "length cc = 2"
      using prefixedForm_letters Some f by blast+
    with assms Some f u obtain i where "stored_shape (map upper_char sem) (map upper_char cc) i"
      "s = map upper_char sem @ map upper_char cc @ ''-'' @ i"
      by (auto simp: canonical_def Let_def bind_result_Inr_iff stored_shape_def split: if_splits
          dest!: identifierOf_id_chars)
    then show ?thesis by blast
  next
    case None
    have "semanticsPersonalNumber \<in> set recognisedSemantics"
      by (simp add: semanticsPersonalNumber_def recognisedSemantics_def)
    with assms None u show ?thesis
      by (fastforce simp: canonical_def Let_def bind_result_Inr_iff stored_shape_def split: if_splits
          dest!: identifierOf_id_chars countryCode_shape)
  qed
qed

lemma canonical_parse: "canonical raw h = Inr s \<Longrightarrow> \<exists>c. parse s = Inr c \<and> code_string c = s"
proof -
  assume "canonical raw h = Inr s"
  then obtain sem cc i where "stored_shape sem cc i" "s = sem @ cc @ ''-'' @ i"
    using canonical_shape by blast
  then have "parse s = Inr \<lparr>Semantics = sem, Country = cc, Identifier = i\<rparr>"
    by (simp add: parse_ok_iff code_string_def)
  then show ?thesis using parse_ok_iff by blast
qed

lemma parse_canonical: "parse s = Inr c \<Longrightarrow> canonical s h = Inr s"
  unfolding parse_ok_iff by (metis canonical_of_stored code_string_def)

lemma parse_trim: "parse s = Inr c \<Longrightarrow> trim_space s = s"
  unfolding parse_ok_iff by (metis stored_trim code_string_def)

text \<open>
  C25: the values \<open>Canonical\<close> can answer, from any spelling and with any country hint, are
  exactly the values \<open>Parse\<close> accepts, and canonicalising such a value again returns it
  unchanged whatever the hint.
\<close>

theorem canonical_range:
  "((\<exists>raw h. canonical raw h = Inr s) \<longleftrightarrow> is_ok (parse s)) \<and>
   (is_ok (parse s) \<longleftrightarrow> (\<forall>h. canonical s h = Inr s))"
proof -
  have a: "is_ok (parse s)" if "canonical raw h = Inr s" for raw h
    using canonical_parse [OF that] by auto
  have b: "canonical s h = Inr s" if "is_ok (parse s)" for h
    using that parse_canonical by (cases "parse s") auto
  show ?thesis using a b by blast
qed

section \<open>Spellings of one code\<close>

lemma crossBorderForm_digit [simp]: "is_digit (hd v) \<Longrightarrow> crossBorderForm v = None"
  by (induction v rule: crossBorderForm.induct) (auto simp: char_class_defs)

lemma prefixedForm_digit [simp]: "is_digit (hd v) \<Longrightarrow> prefixedForm v = None"
  by (induction v rule: prefixedForm.induct) (auto simp: char_class_defs)

lemma localPrefixedForm_digit [simp]: "is_digit (hd v) \<Longrightarrow> \<not> localPrefixedForm v"
  by (induction v rule: localPrefixedForm.induct) (auto simp: char_class_defs)

lemma isASCIIDigits_not_prefix [simp]: "isASCIIDigits d \<Longrightarrow> \<not> beginsLikeAPrefix d"
proof (cases d)
  case (Cons x xs)
  assume "isASCIIDigits d"
  with Cons have "\<not> is_letter x"
    by (auto simp: isASCIIDigits_def char_class_defs)
  with Cons show ?thesis
    by (simp add: beginsLikeAPrefix_def isASCIILetters_def)
qed (simp add: beginsLikeAPrefix_def)

lemma trim_letters_to_digit:
  "is_letter a \<Longrightarrow> x \<noteq> [] \<Longrightarrow> is_digit (last x) \<Longrightarrow> trim_space (a # p @ x) = a # p @ x"
  by (rule trim_space_id) simp_all

lemma trim_digits: "x \<noteq> [] \<Longrightarrow> is_digit (hd x) \<Longrightarrow> is_digit (last x) \<Longrightarrow> trim_space x = x"
  by (rule trim_space_id) simp_all

lemma countryCode_letters:
  assumes "length cc = 2" "list_all is_letter cc"
  shows "countryCode cc = Inr (map upper_char cc)"
proof -
  obtain a b where cc: "cc = [a, b]" using assms(1) length2 by blast
  have "trim_space cc = cc"
    by (rule trim_space_id) (use assms cc in simp_all)
  with assms show ?thesis by (auto simp: countryCode_def isASCIILetters_def cc)
qed

lemma canonical_bare:
  assumes "identifierOf x = Inr d" "isASCIIDigits d" "x \<noteq> []" "is_digit (hd x)" "is_digit (last x)"
    and "length cc = 2" "list_all is_letter cc"
  shows "canonical x cc = Inr (''PNO'' @ map upper_char cc @ ''-'' @ d)"
  using assms by (simp add: canonical_def trim_digits unwrapCrossBorder.simps countryCode_letters
      semanticsPersonalNumber_def)

lemma canonical_prefixed:
  assumes "identifierOf x = Inr d" "x \<noteq> []" "is_digit (last x)" "line_feed \<notin> set x"
    and "length cc = 2" "list_all is_letter cc"
    and "length sem = 3" "list_all is_letter sem" "map upper_char sem \<in> set recognisedSemantics"
  shows "canonical (sem @ cc @ ''-'' @ x) h = Inr (map upper_char sem @ map upper_char cc @ ''-'' @ d)"
proof -
  obtain a b c d' e where sc: "sem = [a, b, c]" "cc = [d', e]"
    using assms length2 length3 by metis
  have tr: "trim_space (a # b # c # d' # e # CHR ''-'' # x) = a # b # c # d' # e # CHR ''-'' # x"
    using trim_letters_to_digit [of a x "[b, c, d', e, CHR ''-'']"] assms sc by simp
  have "crossBorderForm (a # b # c # d' # e # CHR ''-'' # x) = None"
    by simp
  with assms sc tr show ?thesis
    by (simp add: canonical_def unwrapCrossBorder.simps)
qed

lemma canonical_crossBorder:
  assumes "x \<noteq> []" "is_digit (hd x)" "is_digit (last x)" "line_feed \<notin> set x"
    and "length cc = 2" "list_all is_letter cc" "length asked = 2" "list_all is_letter asked"
  shows "canonical (cc @ ''/'' @ asked @ ''/'' @ x) h = canonical x cc"
proof -
  obtain a b c d where sc: "cc = [a, b]" "asked = [c, d]"
    using assms length2 by metis
  have tr: "trim_space (a # b # CHR ''/'' # c # d # CHR ''/'' # x) = a # b # CHR ''/'' # c # d # CHR ''/'' # x"
    using trim_letters_to_digit [of a x "[b, CHR ''/'', c, d, CHR ''/'']"] assms sc by simp
  have "unwrapCrossBorder h (a # b # CHR ''/'' # c # d # CHR ''/'' # x) = unwrapCrossBorder [a, b] x"
    using assms sc by (subst unwrapCrossBorder.simps) (simp add: trim_digits)
  with assms sc tr show ?thesis
    by (simp add: canonical_def trim_digits Let_def)
qed

text \<open>
  a national personal number written with any separators between its digits reaches one
  stored value however it arrives: bare with the country known to the caller, with its
  identity type and country in either case and whatever the hint, or wrapped the way a code
  crosses a border, whoever asked for it and whatever the hint.
\<close>

theorem spellings_agree:
  assumes "identifierOf x = Inr d" "isASCIIDigits d" "x \<noteq> []" "is_digit (hd x)" "is_digit (last x)"
    and "line_feed \<notin> set x"
    and "length cc = 2" "list_all is_letter cc" "length asked = 2" "list_all is_letter asked"
  shows "canonical x cc = Inr (''PNO'' @ map upper_char cc @ ''-'' @ d)
    \<and> canonical (''pno'' @ cc @ ''-'' @ x) h = canonical x cc
    \<and> canonical (''PNO'' @ cc @ ''-'' @ x) h = canonical x cc
    \<and> canonical (cc @ ''/'' @ asked @ ''/'' @ x) h = canonical x cc"
proof -
  have b: "canonical x cc = Inr (''PNO'' @ map upper_char cc @ ''-'' @ d)"
    using assms by (intro canonical_bare)
  have up: "map upper_char ''pno'' = ''PNO''" "map upper_char ''PNO'' = ''PNO''"
    by (simp_all add: eval_simps)
  have lt: "list_all is_letter ''pno''" "list_all is_letter ''PNO''"
    by (simp_all add: eval_simps)
  have rec: "''PNO'' \<in> set recognisedSemantics" by (simp add: recognisedSemantics_def)
  have "canonical (''pno'' @ cc @ ''-'' @ x) h = canonical x cc"
    unfolding b using canonical_prefixed [of x d cc "''pno''" h] assms up lt rec by simp
  moreover have "canonical (''PNO'' @ cc @ ''-'' @ x) h = canonical x cc"
    unfolding b using canonical_prefixed [of x d cc "''PNO''" h] assms up lt rec by simp
  moreover have "canonical (cc @ ''/'' @ asked @ ''/'' @ x) h = canonical x cc"
    using assms by (intro canonical_crossBorder)
  ultimately show ?thesis using b by blast
qed

theorem spellings_agree_witness:
  "canonical ''123456-12345'' ''lv'' = Inr ''PNOLV-12345612345''
   \<and> canonical ''lv/ee/123456-12345'' ''lt'' = canonical ''123456-12345'' ''lv''"
proof -
  have d: "identifierOf ''123456-12345'' = Inr ''12345612345''"
    by (simp add: eval_simps)
  have up: "map upper_char ''lv'' = ''LV''" by (simp add: eval_simps)
  show ?thesis
    using spellings_agree [OF d, of "''lv''" "''ee''" "''lt''"] up
    by (simp add: isASCIIDigits_def char_class_defs ord_def line_feed_def)
qed

section \<open>Display and Key\<close>

lemma display_stored:
  assumes "parse s = Inr c"
  shows "display s =
    (if Semantics c = ''PNO'' \<and> Country c = ''LV'' \<and> length (Identifier c) = 11 \<and> isASCIIDigits (Identifier c)
     then take 6 (Identifier c) @ ''-'' @ drop 6 (Identifier c) else s)"
proof -
  have "code_string c = s" using assms by (simp add: parse_ok_iff)
  then show ?thesis
    unfolding display_def parse_trim [OF assms] assms
    by (auto simp: nationalSplits_def semanticsPersonalNumber_def)
qed

lemma identifier_split:
  assumes "list_all is_digit i" "i \<noteq> []" "length a + length b = length i" "i = a @ b"
  shows "identifierOf (a @ ''-'' @ b) = Inr i"
proof -
  have asc: "list_all is_ascii (a @ ''-'' @ b)"
    using assms by (auto simp: list_all_iff is_ascii_def [of "CHR ''-''"] ord_def [of "CHR ''-''"])
  have dig: "list_all is_digit a" "list_all is_digit b"
    using assms by simp_all
  have skip: "identifier_loop (map ord xs @ rs) acc = identifier_loop rs (acc @ xs)"
    if "list_all is_digit xs" for xs rs acc
    using that
  proof (induction xs arbitrary: acc)
    case (Cons c xs)
    then have "\<not> isSeparator (ord c)" "ord c < 128"
      by (auto simp: char_class_defs isSeparator_def is_space_rune_def)
    with Cons show ?case by (auto simp: char_class_defs)
  qed simp
  have hyphen: "isSeparator (ord (CHR ''-''))" by (simp add: isSeparator_def ord_def)
  have "identifierOf (a @ ''-'' @ b) = identifier_loop (map ord a @ ord (CHR ''-'') # map ord b) []"
    unfolding identifierOf_def runes_ascii [OF asc] by simp
  also have "\<dots> = identifier_loop (map ord b @ []) ([] @ a)"
    using skip [OF dig(1)] hyphen by simp
  also have "\<dots> = Inr i"
    unfolding skip [OF dig(2)] using assms by simp
  finally show ?thesis .
qed

definition shown_split :: "code \<Rightarrow> bool" where
  "shown_split c \<longleftrightarrow> Semantics c = ''PNO'' \<and> Country c = ''LV'' \<and> length (Identifier c) = 11
     \<and> isASCIIDigits (Identifier c)"

lemma display_split:
  assumes c: "parse s = Inr c" and sp: "shown_split c"
  shows "canonical (display s) ''LV'' = Inr s" and "is_digit (hd (display s))"
proof -
  let ?i = "Identifier c" let ?x = "take 6 ?i @ ''-'' @ drop 6 ?i"
  have i: "list_all is_digit ?i" "length ?i = 11" "?i \<noteq> []" "isASCIIDigits ?i"
    using sp by (auto simp: shown_split_def isASCIIDigits_def)
  have x: "display s = ?x"
    using sp by (simp add: display_stored [OF c] shown_split_def)
  have id: "identifierOf ?x = Inr ?i"
    by (rule identifier_split) (use i in auto)
  have "take 6 ?i \<noteq> []" "6 < length ?i" using i(2,3) by simp_all
  then have "hd ?x = hd ?i" and "last ?x = last ?i"
    by (simp_all add: hd_append hd_take)
  with i have hd: "is_digit (hd ?x)" and last: "is_digit (last ?x)"
    by (simp_all add: list_all_iff)
  have "canonical ?x ''LV'' = Inr (''PNO'' @ map upper_char ''LV'' @ ''-'' @ ?i)"
    by (rule canonical_bare [OF id]) (use i hd last in \<open>simp_all add: char_class_defs ord_def\<close>)
  moreover have "s = ''PNO'' @ ''LV'' @ ''-'' @ ?i"
    using c sp by (auto simp: parse_ok_iff code_string_def shown_split_def)
  moreover have "map upper_char ''LV'' = ''LV''" by (simp add: eval_simps)
  ultimately show "canonical (display s) ''LV'' = Inr s"
    unfolding x by simp
  show "is_digit (hd (display s))" using hd by (simp add: x)
qed

lemma display_plain: "parse s = Inr c \<Longrightarrow> \<not> shown_split c \<Longrightarrow> display s = s"
  by (auto simp: display_stored shown_split_def)

lemma stored_hd_upper: "parse s = Inr c \<Longrightarrow> is_upper (hd s)"
  using length3 [of "Semantics c"] recognised_upper [of "Semantics c"]
  by (auto simp: parse_ok_iff code_string_def stored_shape_def)

text \<open>
  what a person is shown can be typed back in: the displayed spelling of a stored code,
  canonicalised with the code's own country as the hint, is that stored code.
\<close>

theorem display_roundtrip:
  assumes c: "parse s = Inr c"
  shows "canonical (display s) (Country c) = Inr s"
proof (cases "shown_split c")
  case True
  then show ?thesis using display_split(1) [OF c] by (simp add: shown_split_def)
next
  case False
  then show ?thesis using parse_canonical [OF c] display_plain [OF c] by simp
qed

theorem display_roundtrip_witness:
  "canonical (display ''PNOLV-12345612345'') ''LV'' = Inr ''PNOLV-12345612345''"
  using display_roundtrip [of "''PNOLV-12345612345''" "\<lparr>Semantics = ''PNO'', Country = ''LV'', Identifier = ''12345612345''\<rparr>"]
  by (simp add: parse_def recognisedSemantics_def char_class_defs ord_def)

text \<open>
  two stored codes that are shown alike are the same code: a screen never renders a
  person, a foreign namesake with the same digits or an organisation as one string.
\<close>

theorem display_injective:
  assumes "parse s = Inr c" "parse s' = Inr c'" and eq: "display s = display s'"
  shows "s = s'"
proof (cases "shown_split c = shown_split c'")
  case True
  show ?thesis
  proof (cases "shown_split c")
    case sp: True
    have "Inr s = canonical (display s) ''LV''" using display_split(1) [OF assms(1) sp] by simp
    also have "\<dots> = Inr s'" unfolding eq using display_split(1) [OF assms(2)] sp True by simp
    finally show ?thesis by simp
  next
    case False
    with True eq show ?thesis
      using display_plain [OF assms(1)] display_plain [OF assms(2)] by simp
  qed
next
  case False
  have "\<not> is_digit ch" if "is_upper ch" for ch
    using that by (simp add: char_class_defs)
  then show ?thesis
    using False assms display_split(2) [of s c] display_split(2) [of s' c'] display_plain [of s c]
      display_plain [of s' c'] stored_hd_upper [of s c] stored_hd_upper [of s' c']
    by (cases "shown_split c") auto
qed

theorem display_injective_witness:
  "display ''PNOLV-12345612345'' = display ''PNOLV-12345612345'' \<and> ''PNOLV-12345612345'' = ''PNOLV-12345612345''"
  using display_injective [of "''PNOLV-12345612345''" "\<lparr>Semantics = ''PNO'', Country = ''LV'', Identifier = ''12345612345''\<rparr>"
      "''PNOLV-12345612345''" "\<lparr>Semantics = ''PNO'', Country = ''LV'', Identifier = ''12345612345''\<rparr>"]
  by (simp add: parse_def recognisedSemantics_def char_class_defs ord_def)

lemma encode_rune_high:
  assumes "128 \<le> r" "c \<in> set (encode_rune r)"
  shows "128 \<le> ord c"
proof -
  define q where "q = (if (55296 \<le> r \<and> r \<le> 57343) \<or> 1114111 < r then rune_error else r)"
  have q: "128 \<le> q" "q \<le> 1114111"
    using assms(1) by (auto simp: q_def rune_error_def)
  have b1: "q < 2048 \<Longrightarrow> q div 64 < 32" and b2: "q < 65536 \<Longrightarrow> q div 4096 < 16" and b3: "q div 262144 < 5"
    using q(2) by (simp_all add: less_mult_imp_div_less)
  have o: "ord (char_of n) = n" if "n < 256" for n :: nat
    using that by (rule ord_char_of)
  have m: "x mod 64 < 64" for x :: nat by simp
  from assms(2) q consider
      "q < 2048" "c = char_of (192 + q div 64) \<or> c = char_of (128 + q mod 64)"
    | "q < 65536" "c = char_of (224 + q div 4096) \<or> c = char_of (128 + q div 64 mod 64) \<or> c = char_of (128 + q mod 64)"
    | "c = char_of (240 + q div 262144) \<or> c = char_of (128 + q div 4096 mod 64)
        \<or> c = char_of (128 + q div 64 mod 64) \<or> c = char_of (128 + q mod 64)"
    by (auto simp: encode_rune_def Let_def q_def [symmetric] split: if_splits)
  then show ?thesis
  proof cases
    case 1
    then show ?thesis using b1 m [of q] o [of "192 + q div 64"] o [of "128 + q mod 64"] by auto
  next
    case 2
    then show ?thesis
      using b2 m [of q] m [of "q div 64"] o [of "224 + q div 4096"] o [of "128 + q div 64 mod 64"] o [of "128 + q mod 64"]
      by auto
  next
    case 3
    then show ?thesis
      using b3 m [of q] m [of "q div 64"] m [of "q div 4096"] o [of "240 + q div 262144"]
        o [of "128 + q div 4096 mod 64"] o [of "128 + q div 64 mod 64"] o [of "128 + q mod 64"]
      by auto
  qed
qed

lemma encode_rune_no_hyphen: "r \<noteq> 45 \<Longrightarrow> CHR ''-'' \<notin> set (encode_rune r)"
proof (cases "r < 128")
  case True
  assume "r \<noteq> 45"
  with True have "ord (char_of r) \<noteq> 45" by (simp add: ord_char_of)
  moreover have "ord (CHR ''-'') = 45" by (simp add: ord_def)
  ultimately have "CHR ''-'' \<noteq> char_of r" by metis
  with True show ?thesis by simp
next
  case False
  then show ?thesis using encode_rune_high [of r "CHR ''-''"] by (auto simp: ord_def)
qed

lemma key_fallback_no_hyphen: "CHR ''-'' \<notin> set (key_fallback v)"
proof -
  have "CHR ''-'' \<notin> set (key_rune r)" for r
    using encode_rune_no_hyphen [of r] encode_rune_no_hyphen [of "r - 97 + 65"]
    by (auto simp: key_rune_def isSeparator_def)
  then show ?thesis by (auto simp: key_fallback_def)
qed

lemma stored_has_hyphen: "parse s = Inr c \<Longrightarrow> CHR ''-'' \<in> set s"
  by (auto simp: parse_ok_iff code_string_def)

text \<open>
  C26: a value's comparison key equals a stored code exactly when the value canonicalises to
  that code with no country supplied: a stored code is its own key, and a value that cannot
  be made sense of never gets the key of a stored identity.
\<close>

theorem key_matches_stored:
  assumes c: "parse s = Inr c"
  shows "key v = s \<longleftrightarrow> canonical (trim_space v) '''' = Inr s"
proof (cases "parse (trim_space v)")
  case (Inr d)
  then have "code_string d = trim_space v" by (simp add: parse_ok_iff)
  then show ?thesis
    using parse_canonical [OF Inr, of "''''"] Inr by (simp add: key_def)
next
  case (Inl e)
  then show ?thesis
    using key_fallback_no_hyphen [of "trim_space v"] stored_has_hyphen [OF c]
    by (cases "canonical (trim_space v) ''''") (auto simp: key_def)
qed

theorem key_matches_stored_witness:
  "key ''PNOLV-12345612345'' = ''PNOLV-12345612345''"
  using key_matches_stored [of "''PNOLV-12345612345''" "\<lparr>Semantics = ''PNO'', Country = ''LV'', Identifier = ''12345612345''\<rparr>" "''PNOLV-12345612345''"]
  by (simp add: eval_simps)

text \<open>
  a code that names no country is refused when the caller knows none, never filed under
  a guess; and a code with an identity type this package does not recognise is refused
  whatever the hint.
\<close>

theorem bare_code_needs_country:
  assumes "trim_space raw \<noteq> []" "crossBorderForm (trim_space raw) = None"
  shows "(prefixedForm (trim_space raw) = None \<and> \<not> localPrefixedForm (trim_space raw) \<longrightarrow>
            trim_space h = [] \<longrightarrow> canonical raw h = Inl ErrCountryRequired)
     \<and> (prefixedForm (trim_space raw) = Some (sem, cc, rest) \<and> asciiUpper sem \<notin> set recognisedSemantics \<longrightarrow>
            canonical raw h = Inl ErrUnknownSemantics)
     \<and> (localPrefixedForm (trim_space raw) \<longrightarrow> canonical raw h = Inl ErrUnknownSemantics)"
proof -
  have unw: "unwrapCrossBorder h (trim_space raw) = (h, trim_space raw)"
    using assms(2) by (simp add: unwrapCrossBorder.simps)
  have loc: "prefixedForm v = None" if "localPrefixedForm v" for v
    using that by (induction v rule: localPrefixedForm.induct) (auto simp: char_class_defs ord_def)
  show ?thesis
    using assms(1) unw loc by (auto simp: canonical_def Let_def countryCode_def)
qed

theorem bare_code_needs_country_witness:
  "canonical ''123456-12345'' '''' = Inl ErrCountryRequired
   \<and> canonical ''VATLV-99'' ''LV'' = Inl ErrUnknownSemantics"
  using bare_code_needs_country [of "''123456-12345''" "''''"]
    bare_code_needs_country [of "''VATLV-99''" "''LV''" "''VAT''" "''LV''" "''99''"]
  by (simp add: eval_simps)

text \<open>
  Two behaviours at the edges of the package's own description. A line feed is a separator
  inside an identifier, but the dot of the cross-border shape does not match one: a wrapped
  code with a line feed in it is read as a bare code, and the hint's country is used in place
  of the one it carries. And \<open>Key\<close> reads runes, so bytes that are no UTF-8 all become the
  replacement character: two different unrecognised values get one key.
\<close>

lemma crossBorder_line_feed_takes_hint:
  "canonical (''LV/EE/12345'' @ [line_feed] @ ''67890'') ''LT'' = Inr ''PNOLT-LVEE1234567890''"
  by (simp add: eval_simps)

lemma key_merges_invalid_bytes:
  "key [CHR 0xFF] = key [CHR 0xFE] \<and> key [CHR 0xFF] = encode_rune rune_error"
  by (simp add: eval_simps)

end
