(* ===== verification/Encodings.thy ===== *)
theory Encodings
  imports Go_Strings
begin

text \<open>
  The encodings the sources use: unpadded base64 in the URL and the standard alphabet, with
  the decoder's strict mode; unpadded base32 with a chosen alphabet; decimal numbers as
  \<open>strconv\<close> writes and reads them; big-endian 64-bit integers; hexadecimal. What a client
  relies on is the locale \<open>codec\<close>: decoding gives back what was encoded, so encoding is
  injective; a \<open>canonical_codec\<close> also accepts one spelling only of each value.
\<close>

section \<open>The interface of an encoding\<close>

locale codec =
  fixes enc :: "'a \<Rightarrow> string" and dec :: "string \<Rightarrow> 'a option" and dom_ok :: "'a \<Rightarrow> bool"
  assumes dec_enc: "dom_ok x \<Longrightarrow> dec (enc x) = Some x"
begin

lemma enc_inject: "dom_ok x \<Longrightarrow> dom_ok y \<Longrightarrow> enc x = enc y \<longleftrightarrow> x = y"
  by (metis dec_enc option.inject)

end

locale canonical_codec = codec +
  assumes enc_dec: "dec s = Some x \<Longrightarrow> enc x = s \<and> dom_ok x"
begin

lemma dec_iff: "dec s = Some x \<longleftrightarrow> dom_ok x \<and> enc x = s"
  using dec_enc enc_dec by auto

lemma dec_inject: "dec s = Some x \<Longrightarrow> dec t = Some x \<Longrightarrow> s = t"
  using enc_dec by blast

end

section \<open>Alphabets\<close>

fun index_of :: "char \<Rightarrow> string \<Rightarrow> nat option" where
  "index_of c [] = None"
| "index_of c (x # xs) = (if c = x then Some 0 else map_option Suc (index_of c xs))"

lemma index_of_Some: "index_of c xs = Some i \<Longrightarrow> i < length xs \<and> xs ! i = c"
  by (induction xs arbitrary: i) (auto split: if_splits)

lemma index_of_nth: "distinct xs \<Longrightarrow> i < length xs \<Longrightarrow> index_of (xs ! i) xs = Some i"
proof (induction xs arbitrary: i)
  case (Cons x xs)
  then show ?case by (cases i) auto
qed simp

lemma index_of_in: "c \<in> set xs \<Longrightarrow> \<exists>i. index_of c xs = Some i"
  by (induction xs) auto

definition base64_url :: string where
  "base64_url = ''ABCDEFGHIJKLMNOPQRSTUVWXYZabcdefghijklmnopqrstuvwxyz0123456789-_''"

definition base64_std :: string where
  "base64_std = ''ABCDEFGHIJKLMNOPQRSTUVWXYZabcdefghijklmnopqrstuvwxyz0123456789+/''"

definition cr_lf :: "char \<Rightarrow> bool" where
  "cr_lf c \<longleftrightarrow> c = CHR 0x0D \<or> c = CHR 0x0A"

definition alphabet64 :: "string \<Rightarrow> bool" where
  "alphabet64 al \<longleftrightarrow> distinct al \<and> length al = 64 \<and> list_all (\<lambda>c. \<not> cr_lf c) al"

lemma alphabet64_url [simp]: "alphabet64 base64_url"
  by (simp add: alphabet64_def base64_url_def cr_lf_def)

lemma alphabet64_std [simp]: "alphabet64 base64_std"
  by (simp add: alphabet64_def base64_std_def cr_lf_def)

lemma alphabet64_nth: "alphabet64 al \<Longrightarrow> i < 64 \<Longrightarrow> al ! i \<in> set al \<and> index_of (al ! i) al = Some i"
  by (auto simp: alphabet64_def index_of_nth)

section \<open>Base64 without padding\<close>

fun base64_encode :: "string \<Rightarrow> bytes \<Rightarrow> string" where
  "base64_encode al [] = []"
| "base64_encode al [a] = [al ! (ord a div 4), al ! (ord a mod 4 * 16)]"
| "base64_encode al [a, b] =
     [al ! (ord a div 4), al ! (ord a mod 4 * 16 + ord b div 16), al ! (ord b mod 16 * 4)]"
| "base64_encode al (a # b # c # rest) =
     al ! (ord a div 4) # al ! (ord a mod 4 * 16 + ord b div 16)
     # al ! (ord b mod 16 * 4 + ord c div 64) # al ! (ord c mod 64) # base64_encode al rest"

text \<open>
  The decoder on the six-bit values, in strict mode refusing trailing bits that are not zero.
\<close>

fun base64_values :: "bool \<Rightarrow> nat list \<Rightarrow> bytes option" where
  "base64_values strict [] = Some []"
| "base64_values strict [i] = None"
| "base64_values strict [i, j] =
     (if strict \<and> j mod 16 \<noteq> 0 then None else Some [char_of (i * 4 + j div 16)])"
| "base64_values strict [i, j, k] =
     (if strict \<and> k mod 4 \<noteq> 0 then None
      else Some [char_of (i * 4 + j div 16), char_of (j mod 16 * 16 + k div 4)])"
| "base64_values strict (i # j # k # l # rest) =
     map_option (\<lambda>bs. char_of (i * 4 + j div 16) # char_of (j mod 16 * 16 + k div 4)
       # char_of (k mod 4 * 64 + l) # bs) (base64_values strict rest)"

text \<open>\<open>DecodeString\<close>: carriage returns and line feeds are skipped wherever they stand.\<close>

definition base64_decode :: "bool \<Rightarrow> string \<Rightarrow> string \<Rightarrow> bytes option" where
  "base64_decode strict al s =
     (case those (map (\<lambda>c. index_of c al) (filter (\<lambda>c. \<not> cr_lf c) s)) of
        None \<Rightarrow> None
      | Some vs \<Rightarrow> base64_values strict vs)"

lemma those_Cons_Some [simp]: "those (Some x # xs) = map_option ((#) x) (those xs)"
  by simp

lemma base64_digits:
  fixes a b c :: nat
  assumes "a < 256" "b < 256" "c < 256"
  shows "a div 4 < 64" "a mod 4 * 16 < 64" "a mod 4 * 16 + b div 16 < 64" "b mod 16 * 4 < 64"
    "b mod 16 * 4 + c div 64 < 64" "c mod 64 < 64"
    "(a div 4) * 4 + (a mod 4 * 16) div 16 = a"
    "(a div 4) * 4 + (a mod 4 * 16 + b div 16) div 16 = a"
    "(a mod 4 * 16 + b div 16) mod 16 * 16 + (b mod 16 * 4) div 4 = b"
    "(a mod 4 * 16 + b div 16) mod 16 * 16 + (b mod 16 * 4 + c div 64) div 4 = b"
    "(b mod 16 * 4 + c div 64) mod 4 * 64 + c mod 64 = c"
    "(a mod 4 * 16) mod 16 = 0" "(b mod 16 * 4) mod 4 = 0"
proof -
  have b16: "b div 16 < 16" and c64: "c div 64 < 4" using assms by (simp_all add: less_mult_imp_div_less)
  have am: "a mod 4 < 4" and bm: "b mod 16 < 16" by simp_all
  show "a div 4 < 64" using assms by (simp add: less_mult_imp_div_less)
  show "a mod 4 * 16 < 64" "a mod 4 * 16 + b div 16 < 64" using am b16 by linarith+
  show "b mod 16 * 4 < 64" "b mod 16 * 4 + c div 64 < 64" using bm c64 by linarith+
  show "c mod 64 < 64" by simp
  show "(a div 4) * 4 + (a mod 4 * 16) div 16 = a" by simp
  show "(a div 4) * 4 + (a mod 4 * 16 + b div 16) div 16 = a" using b16 by simp
  show "(a mod 4 * 16 + b div 16) mod 16 * 16 + (b mod 16 * 4) div 4 = b" using b16 by simp
  show "(a mod 4 * 16 + b div 16) mod 16 * 16 + (b mod 16 * 4 + c div 64) div 4 = b" using b16 c64 by simp
  show "(b mod 16 * 4 + c div 64) mod 4 * 64 + c mod 64 = c" using c64 by simp
  show "(a mod 4 * 16) mod 16 = 0" "(b mod 16 * 4) mod 4 = 0" by simp_all
qed

text \<open>Each group of bytes is written as digits below 64 from which it is read back.\<close>

lemma base64_one:
  "\<exists>i j. (\<forall>al. base64_encode al [a] = [al ! i, al ! j]) \<and> i < 64 \<and> j < 64
     \<and> char_of (i * 4 + j div 16) = a \<and> j mod 16 = 0"
  apply (rule exI [of _ "ord a div 4"], rule exI [of _ "ord a mod 4 * 16"])
  apply (simp only: base64_encode.simps base64_digits [OF ord_less_256 [of a] ord_less_256 [of a] ord_less_256 [of a]]
      char_of_ord simp_thms)
  done

lemma base64_two:
  "\<exists>i j k. (\<forall>al. base64_encode al [a, b] = [al ! i, al ! j, al ! k]) \<and> i < 64 \<and> j < 64 \<and> k < 64
     \<and> char_of (i * 4 + j div 16) = a \<and> char_of (j mod 16 * 16 + k div 4) = b \<and> k mod 4 = 0"
  apply (rule exI [of _ "ord a div 4"], rule exI [of _ "ord a mod 4 * 16 + ord b div 16"],
      rule exI [of _ "ord b mod 16 * 4"])
  apply (simp only: base64_encode.simps base64_digits [OF ord_less_256 [of a] ord_less_256 [of b] ord_less_256 [of b]]
      char_of_ord simp_thms)
  done

lemma base64_three:
  "\<exists>i j k l. (\<forall>al rest. base64_encode al (a # b # c # rest) = al ! i # al ! j # al ! k # al ! l # base64_encode al rest)
     \<and> i < 64 \<and> j < 64 \<and> k < 64 \<and> l < 64 \<and> char_of (i * 4 + j div 16) = a
     \<and> char_of (j mod 16 * 16 + k div 4) = b \<and> char_of (k mod 4 * 64 + l) = c"
  apply (rule exI [of _ "ord a div 4"], rule exI [of _ "ord a mod 4 * 16 + ord b div 16"],
      rule exI [of _ "ord b mod 16 * 4 + ord c div 64"], rule exI [of _ "ord c mod 64"])
  apply (simp only: base64_encode.simps base64_digits [OF ord_less_256 [of a] ord_less_256 [of b] ord_less_256 [of c]]
      char_of_ord simp_thms)
  done

lemma base64_encode_alphabet:
  "alphabet64 al \<Longrightarrow> list_all (\<lambda>c. c \<in> set al) (base64_encode al bs)"
proof (induction al bs rule: base64_encode.induct)
  case (2 al a)
  obtain i j where "base64_encode al [a] = [al ! i, al ! j]" "i < 64" "j < 64"
    using base64_one by blast
  then show ?case using 2 by (simp add: alphabet64_nth)
next
  case (3 al a b)
  obtain i j k where "base64_encode al [a, b] = [al ! i, al ! j, al ! k]" "i < 64" "j < 64" "k < 64"
    using base64_two by blast
  then show ?case using 3 by (simp add: alphabet64_nth)
next
  case (4 al a b c rest)
  obtain i j k l where "base64_encode al (a # b # c # rest) = al ! i # al ! j # al ! k # al ! l # base64_encode al rest"
    "i < 64" "j < 64" "k < 64" "l < 64"
    using base64_three by blast
  then show ?case using 4 by (simp add: alphabet64_nth)
qed simp

lemma base64_encode_no_crlf: "alphabet64 al \<Longrightarrow> filter (\<lambda>c. \<not> cr_lf c) (base64_encode al bs) = base64_encode al bs"
  using base64_encode_alphabet [of al bs] by (auto simp: alphabet64_def list_all_iff intro!: filter_True)

lemma base64_values_encode:
  "alphabet64 al \<Longrightarrow>
     (case those (map (\<lambda>c. index_of c al) (base64_encode al bs)) of
        None \<Rightarrow> None | Some vs \<Rightarrow> base64_values strict vs) = Some bs"
proof (induction al bs rule: base64_encode.induct)
  case (2 al a)
  obtain i j where e: "base64_encode al [a] = [al ! i, al ! j]" and ij: "i < 64" "j < 64"
    and q: "char_of (i * 4 + j div 16) = a" "j mod 16 = 0"
    using base64_one [of a] by metis
  have "those (map (\<lambda>c. index_of c al) (base64_encode al [a])) = Some [i, j]"
    unfolding e using 2 ij by (simp add: alphabet64_nth)
  moreover have "base64_values strict [i, j] = Some [a]"
    by (simp only: base64_values.simps q simp_thms if_False)
  ultimately show ?case by (simp only: option.case)
next
  case (3 al a b)
  obtain i j k where e: "base64_encode al [a, b] = [al ! i, al ! j, al ! k]" and ijk: "i < 64" "j < 64" "k < 64"
    and q: "char_of (i * 4 + j div 16) = a" "char_of (j mod 16 * 16 + k div 4) = b" "k mod 4 = 0"
    using base64_two [of a b] by metis
  have "those (map (\<lambda>c. index_of c al) (base64_encode al [a, b])) = Some [i, j, k]"
    unfolding e using 3 ijk by (simp add: alphabet64_nth)
  moreover have "base64_values strict [i, j, k] = Some [a, b]"
    by (simp only: base64_values.simps q simp_thms if_False)
  ultimately show ?case by (simp only: option.case)
next
  case (4 al a b c rest)
  obtain i j k l where e: "base64_encode al (a # b # c # rest) = al ! i # al ! j # al ! k # al ! l # base64_encode al rest"
    and ijkl: "i < 64" "j < 64" "k < 64" "l < 64"
    and q: "char_of (i * 4 + j div 16) = a" "char_of (j mod 16 * 16 + k div 4) = b" "char_of (k mod 4 * 64 + l) = c"
    using base64_three [of a b c] by metis
  obtain vs where vs: "those (map (\<lambda>c. index_of c al) (base64_encode al rest)) = Some vs"
    "base64_values strict vs = Some rest"
    using "4.IH" "4.prems" by (auto split: option.splits)
  have "those (map (\<lambda>c. index_of c al) (base64_encode al (a # b # c # rest))) = Some (i # j # k # l # vs)"
    unfolding e using "4.prems" ijkl vs(1) by (simp add: alphabet64_nth)
  moreover have "base64_values strict (i # j # k # l # vs) = Some (a # b # c # rest)"
    by (simp only: base64_values.simps vs(2) q option.map)
  ultimately show ?case by (simp only: option.case)
qed simp

lemma base64_decode_encode [codec_simps]:
  "alphabet64 al \<Longrightarrow> base64_decode strict al (base64_encode al bs) = Some bs"
  by (simp add: base64_decode_def base64_encode_no_crlf base64_values_encode)

lemma length_base64_encode:
  "length (base64_encode al bs) = length bs div 3 * 4 + (if length bs mod 3 = 0 then 0 else Suc (length bs mod 3))"
proof (induction al bs rule: base64_encode.induct)
  case (4 al a b c rest)
  have l: "length (a # b # c # rest) = length rest + 3"
    and d: "(length rest + 3) div 3 = length rest div 3 + 1" "(length rest + 3) mod 3 = length rest mod 3"
    by simp_all
  show ?case unfolding l d using 4 by simp
qed simp_all

text \<open>\<open>base64.RawURLEncoding\<close>.\<close>

interpretation url64: codec "base64_encode base64_url" "base64_decode False base64_url" "\<lambda>_. True"
  by unfold_locales (simp add: codec_simps)

section \<open>Decimal numbers\<close>

definition digit_char :: "nat \<Rightarrow> char" where
  "digit_char d = char_of (48 + d)"

fun format_uint :: "nat \<Rightarrow> string" where
  "format_uint n = (if n < 10 then [digit_char n] else format_uint (n div 10) @ [digit_char (n mod 10)])"

declare format_uint.simps [simp del]

fun parse_digits :: "nat \<Rightarrow> string \<Rightarrow> nat option" where
  "parse_digits n [] = Some n"
| "parse_digits n (c # s) = (if is_digit c then parse_digits (n * 10 + (ord c - 48)) s else None)"

text \<open>\<open>strconv.ParseUint\<close> in base 10: digits only, at least one, within the given width.\<close>

definition parse_uint :: "string \<Rightarrow> nat \<Rightarrow> nat option" where
  "parse_uint s bits =
     (if s = [] then None
      else case parse_digits 0 s of None \<Rightarrow> None | Some n \<Rightarrow> if n < 2 ^ bits then Some n else None)"

text \<open>\<open>strconv.FormatInt\<close> in base 10.\<close>

definition format_int :: "int \<Rightarrow> string" where
  "format_int i = (if i < 0 then ''-'' @ format_uint (nat (- i)) else format_uint (nat i))"

lemma digit_char_ord: "d < 10 \<Longrightarrow> ord (digit_char d) = 48 + d"
  by (simp add: digit_char_def ord_char_of)

lemma is_digit_digit_char [simp]: "d < 10 \<Longrightarrow> is_digit (digit_char d)"
  by (simp add: is_digit_def digit_char_ord)

lemma parse_digits_append:
  "parse_digits n (s @ t) = (case parse_digits n s of None \<Rightarrow> None | Some m \<Rightarrow> parse_digits m t)"
  by (induction s arbitrary: n) auto

lemma format_uint_not_Nil [simp]: "format_uint n \<noteq> []"
  by (subst format_uint.simps) simp

lemma parse_digits_format: "parse_digits 0 (format_uint n) = Some n"
proof (induction n rule: format_uint.induct)
  case (1 n)
  show ?case
  proof (cases "n < 10")
    case True
    then show ?thesis by (simp add: format_uint.simps [of n] digit_char_ord)
  next
    case False
    with "1.IH" show ?thesis
      by (simp add: format_uint.simps [of n] parse_digits_append digit_char_ord)
  qed
qed

lemma format_uint_digits: "list_all is_digit (format_uint n)"
proof (induction n rule: format_uint.induct)
  case (1 n)
  then show ?case by (cases "n < 10") (simp_all add: format_uint.simps [of n])
qed

lemma parse_uint_format [codec_simps]: "n < 2 ^ bits \<Longrightarrow> parse_uint (format_uint n) bits = Some n"
  by (simp add: parse_uint_def parse_digits_format)

lemma length_format_uint: "0 < k \<Longrightarrow> n < 10 ^ k \<Longrightarrow> length (format_uint n) \<le> k"
proof (induction n arbitrary: k rule: format_uint.induct)
  case (1 n)
  show ?case
  proof (cases "n < 10")
    case True
    with 1 show ?thesis by (simp add: format_uint.simps [of n])
  next
    case False
    have "1 < k"
      using False "1.prems" by (cases "k = 1") auto
    moreover from this have "n div 10 < 10 ^ (k - 1)"
      using "1.prems" by (cases k) (auto intro: less_mult_imp_div_less simp: mult.commute)
    ultimately have "length (format_uint (n div 10)) \<le> k - 1"
      using "1.IH" [OF False, of "k - 1"] by simp
    with False \<open>1 < k\<close> show ?thesis by (simp add: format_uint.simps [of n])
  qed
qed

interpretation dec32: codec format_uint "\<lambda>s. parse_uint s 32" "\<lambda>n. n < 2 ^ 32"
  by unfold_locales (rule parse_uint_format)

section \<open>Big-endian 64-bit integers\<close>

text \<open>\<open>binary.BigEndian\<close> on eight bytes.\<close>

fun be_bytes :: "nat \<Rightarrow> nat \<Rightarrow> bytes" where
  "be_bytes 0 n = []"
| "be_bytes (Suc k) n = be_bytes k (n div 256) @ [char_of (n mod 256)]"

definition be_value :: "bytes \<Rightarrow> nat" where
  "be_value bs = foldl (\<lambda>v b. v * 256 + ord b) 0 bs"

lemma length_be_bytes [simp]: "length (be_bytes k n) = k"
  by (induction k arbitrary: n) simp_all

lemma be_value_snoc [simp]: "be_value (bs @ [b]) = be_value bs * 256 + ord b"
  by (simp add: be_value_def)

lemma be_value_bytes: "n < 256 ^ k \<Longrightarrow> be_value (be_bytes k n) = n"
proof (induction k arbitrary: n)
  case 0
  then show ?case by (simp add: be_value_def)
next
  case (Suc k)
  then have "n div 256 < 256 ^ k"
    by (auto intro: less_mult_imp_div_less simp: mult.commute)
  with Suc.IH show ?case by (simp add: ord_char_of_mod)
qed

lemma be_value_bound: "be_value bs < 256 ^ length bs"
proof (induction bs rule: rev_induct)
  case (snoc b bs)
  have "be_value bs * 256 + ord b < (be_value bs + 1) * 256" by simp
  also have "\<dots> \<le> 256 ^ length bs * 256" using snoc by (intro mult_le_mono) simp_all
  finally show ?case by simp
qed (simp add: be_value_def)

lemma be_bytes_value: "be_bytes (length bs) (be_value bs) = bs"
  by (induction bs rule: rev_induct) (simp_all add: be_value_def)

section \<open>Base32 and hexadecimal\<close>

text \<open>\<open>base32\<close> without padding: each group of five bytes gives eight characters.\<close>

fun base32_chars :: "nat \<Rightarrow> nat" where
  "base32_chars n = (n * 8 + 4) div 5"

fun digits_of :: "nat \<Rightarrow> nat \<Rightarrow> nat \<Rightarrow> nat list" where
  "digits_of b 0 v = []"
| "digits_of b (Suc k) v = digits_of b k (v div b) @ [v mod b]"

definition base32_group :: "string \<Rightarrow> bytes \<Rightarrow> string" where
  "base32_group al bs =
     (let v = be_value (bs @ replicate (5 - length bs) (CHR 0x00))
      in map (\<lambda>d. al ! d) (take (base32_chars (length bs)) (digits_of 32 8 v)))"

function base32_encode :: "string \<Rightarrow> bytes \<Rightarrow> string" where
  "base32_encode al bs = (if bs = [] then [] else base32_group al (take 5 bs) @ base32_encode al (drop 5 bs))"
  by pat_completeness auto
termination
  by (relation "measure (\<lambda>(al, bs). length bs)") auto

declare base32_encode.simps [simp del]

lemma length_digits_of [simp]: "length (digits_of b k v) = k"
  by (induction k arbitrary: v) simp_all

lemma digits_of_less: "0 < b \<Longrightarrow> d \<in> set (digits_of b k v) \<Longrightarrow> d < b"
  by (induction k arbitrary: v) auto

lemma base32_encode_five:
  assumes "length bs = 5"
  shows "base32_encode al bs = map (\<lambda>d. al ! d) (digits_of 32 8 (be_value bs))"
proof -
  have "base32_encode al [] = []" by (simp add: base32_encode.simps)
  with assms show ?thesis
    by (subst base32_encode.simps) (auto simp: base32_group_def Let_def)
qed

definition hex_alphabet :: string where
  "hex_alphabet = ''0123456789abcdef''"

definition hex_encode :: "bytes \<Rightarrow> string" where
  "hex_encode bs = concat (map (\<lambda>b. [hex_alphabet ! (ord b div 16), hex_alphabet ! (ord b mod 16)]) bs)"

lemmas encoding_eval [eval_simps] =
  base64_url_def base64_std_def cr_lf_def base64_decode_def digit_char_def format_uint.simps
  parse_uint_def be_value_def base32_group_def base32_encode.simps hex_alphabet_def hex_encode_def

end
