(* ===== verification/Api_Key.thy ===== *)
theory Api_Key
  imports Encodings "HOL-Library.Word"
begin

text \<open>
  API keys of package \<open>apikeys\<close> (\<open>src/apikeys/apikeys.go\<close>, \<open>presented.go\<close>, \<open>secret.go\<close>):
  the cost parameters, a key family and its checks, minting, reading a presented key, and the
  stored string with its strict decoder. The key derivation (argon2id, which is not part of
  the repository) is the field \<open>derive\<close> of a scheme, as in the source; what the source reads
  from a random source is an argument, \<open>None\<close> being the reader's error. The lemmas
  characterise the parser and the decoder exactly, and show that what is minted is read back.
\<close>

section \<open>Parameters\<close>

record params =
  Memory :: "32 word"
  Iterations :: "32 word"
  Parallelism :: "8 word"

definition zero_params :: params where
  "zero_params = \<lparr>Memory = 0, Iterations = 0, Parallelism = 0\<rparr>"

definition defaultParams :: params where
  "defaultParams = \<lparr>Memory = 19456, Iterations = 2, Parallelism = 1\<rparr>"

definition defaultCeiling :: params where
  "defaultCeiling = \<lparr>Memory = 65536, Iterations = 3, Parallelism = 4\<rparr>"

definition atLeast_params :: "params \<Rightarrow> params \<Rightarrow> bool" where
  "atLeast_params p q \<longleftrightarrow> Memory q \<le> Memory p \<and> Iterations q \<le> Iterations p \<and> Parallelism q \<le> Parallelism p"

definition nonZero :: "params \<Rightarrow> bool" where
  "nonZero p \<longleftrightarrow> 0 < Memory p \<and> 0 < Iterations p \<and> 0 < Parallelism p"

definition higher :: "params \<Rightarrow> params \<Rightarrow> params" where
  "higher p q = \<lparr>Memory = max (Memory p) (Memory q), Iterations = max (Iterations p) (Iterations q),
     Parallelism = max (Parallelism p) (Parallelism q)\<rparr>"

lemma atLeast_params_refl [simp]: "atLeast_params p p"
  by (simp add: atLeast_params_def)

lemma atLeast_params_trans: "atLeast_params p q \<Longrightarrow> atLeast_params q r \<Longrightarrow> atLeast_params p r"
  by (auto simp: atLeast_params_def)

lemma atLeast_params_antisym: "atLeast_params p q \<Longrightarrow> atLeast_params q p \<Longrightarrow> p = q"
  by (auto simp: atLeast_params_def)

lemma higher_lub: "atLeast_params r (higher p q) \<longleftrightarrow> atLeast_params r p \<and> atLeast_params r q"
  by (auto simp: atLeast_params_def higher_def)

lemma higher_upper: "atLeast_params (higher p q) p" "atLeast_params (higher p q) q"
  by (auto simp: atLeast_params_def higher_def)

lemma higher_eq_iff: "higher p q = p \<longleftrightarrow> atLeast_params p q"
  by (cases p) (auto simp: atLeast_params_def higher_def max_absorb1 max_def split: if_splits)

section \<open>Schemes\<close>

datatype stored_reason =
    TooLong | NotArgon2id | NotThreeParameters | ParametersNotDecimal | SaltOrTag | OutsideBounds

text \<open>
  \<open>ErrUnavailable\<close> wraps the store's error: its text, and the error of this package it wraps in
  turn, if any, which \<open>errors.Is\<close> and \<open>errors.As\<close> see through it.
\<close>

datatype key_error =
    ErrInvalid
  | ErrLimited duration
  | ErrBusy duration
  | ErrStoredHash stored_reason
  | ErrUnavailable string "key_error option"
  | ErrNoCaller
  | ErrContext string
  | ErrRandom
  | SchemeName
  | ZeroParams
  | ParamsBelowDefault
  | MintBelowFloor
  | CeilingBelowMint
  | NoLookup
  | NegativeLimits
  | LimiterRefused

definition separator :: char where "separator = CHR ''_''"
definition lookupBytes :: nat where "lookupBytes = 5"
definition lookupLen :: nat where "lookupLen = 8"
definition secretBytes :: nat where "secretBytes = 24"
definition secretLen :: nat where "secretLen = 32"
definition saltLen :: nat where "saltLen = 16"
definition maxSaltLen :: nat where "maxSaltLen = 64"
definition tagLen :: nat where "tagLen = 32"
definition minSchemeLen :: nat where "minSchemeLen = 2"
definition maxSchemeLen :: nat where "maxSchemeLen = 8"
definition maxStoredLen :: nat where "maxStoredLen = 256"
definition argon2_version :: nat where "argon2_version = 19"

definition lookupAlphabet :: string where
  "lookupAlphabet = ''0123456789ABCDEFGHJKMNPQRSTVWXYZ''"

lemmas key_format = separator_def lookupBytes_def lookupLen_def secretBytes_def secretLen_def
  saltLen_def maxSaltLen_def tagLen_def maxStoredLen_def argon2_version_def

definition charset :: "string \<Rightarrow> bool list" where
  "charset s = foldl (\<lambda>set c. set[ord c := True]) (replicate 256 False) s"

definition lookupChars :: "bool list" where
  "lookupChars = charset lookupAlphabet"

definition secretChars :: "bool list" where
  "secretChars = charset base64_url"

record config =
  Scheme :: string
  Params :: params
  Floor :: params
  Ceiling :: params

record stored_hash =
  sh_params :: params
  sh_salt :: bytes
  sh_tag :: bytes

record scheme =
  s_name :: string
  s_mint :: params
  s_floor :: params
  s_ceiling :: params
  derive :: "bytes \<Rightarrow> bytes \<Rightarrow> params \<Rightarrow> nat \<Rightarrow> bytes"
  s_dummy :: stored_hash

definition validScheme :: "string \<Rightarrow> bool" where
  "validScheme name =
     (if length name < minSchemeLen \<or> length name > maxSchemeLen \<or> \<not> is_lower (name ! 0) then False
      else list_all (\<lambda>c. is_lower c \<or> is_digit c) name)"

definition orDefault :: "params \<Rightarrow> params \<Rightarrow> params" where
  "orDefault p d = (if p = zero_params then d else p)"

text \<open>\<open>NewScheme\<close>: \<open>salt\<close> and \<open>tag\<close> are what the system's randomness fills the dummy hash with.\<close>

definition newScheme :: "(bytes \<Rightarrow> bytes \<Rightarrow> params \<Rightarrow> nat \<Rightarrow> bytes) \<Rightarrow> bytes option \<Rightarrow> bytes option \<Rightarrow> config \<Rightarrow> (key_error, scheme) result" where
  "newScheme argon2id salt tag c =
     (if \<not> validScheme (Scheme c) then Inl SchemeName
      else
        let mint = orDefault (Params c) defaultParams;
            floor = orDefault (Floor c) defaultParams;
            ceiling = orDefault (Ceiling c) (higher defaultCeiling mint);
            d = defaultParams
        in if \<not> nonZero mint \<or> \<not> nonZero floor then Inl ZeroParams
           else if Memory floor < Memory d \<or> Iterations floor < Iterations d then Inl ParamsBelowDefault
           else if \<not> atLeast_params mint floor then Inl MintBelowFloor
           else if \<not> atLeast_params ceiling mint then Inl CeilingBelowMint
           else case (salt, tag) of
             (Some sb, Some tb) \<Rightarrow>
               Inr \<lparr>s_name = Scheme c, s_mint = mint, s_floor = floor, s_ceiling = ceiling,
                    derive = argon2id, s_dummy = \<lparr>sh_params = mint, sh_salt = sb, sh_tag = tb\<rparr>\<rparr>
           | _ \<Rightarrow> Inl ErrRandom)"

definition scheme_ok :: "scheme \<Rightarrow> bool" where
  "scheme_ok s \<longleftrightarrow> validScheme (s_name s) \<and> nonZero (s_floor s)
     \<and> Memory defaultParams \<le> Memory (s_floor s) \<and> Iterations defaultParams \<le> Iterations (s_floor s)
     \<and> atLeast_params (s_mint s) (s_floor s) \<and> atLeast_params (s_ceiling s) (s_mint s)
     \<and> sh_params (s_dummy s) = s_mint s \<and> length (sh_salt (s_dummy s)) = saltLen
     \<and> length (sh_tag (s_dummy s)) = tagLen"

section \<open>Stored strings\<close>

definition encodeStored :: "params \<Rightarrow> bytes \<Rightarrow> bytes \<Rightarrow> string" where
  "encodeStored p salt tag =
     ''$argon2id$v='' @ format_uint argon2_version
     @ ''$m='' @ format_uint (unat (Memory p))
     @ '',t='' @ format_uint (unat (Iterations p))
     @ '',p='' @ format_uint (unat (Parallelism p))
     @ ''$'' @ base64_encode base64_std salt
     @ ''$'' @ base64_encode base64_std tag"

definition decimal :: "string \<Rightarrow> string \<Rightarrow> nat \<Rightarrow> nat option" where
  "decimal field name bits =
     (case cut_prefix field name of
        (v, False) \<Rightarrow> None
      | (v, True) \<Rightarrow> (case parse_uint v bits of
          None \<Rightarrow> None
        | Some n \<Rightarrow> if format_uint n \<noteq> v then None else Some n))"

definition strictBase64 :: "string \<Rightarrow> bytes option" where
  "strictBase64 s =
     (case base64_decode True base64_std s of
        None \<Rightarrow> None
      | Some b \<Rightarrow> if base64_encode base64_std b \<noteq> s then None else Some b)"

definition decodeStored :: "scheme \<Rightarrow> string \<Rightarrow> (key_error, stored_hash) result" where
  "decodeStored s h =
     (if length h > maxStoredLen then Inl (ErrStoredHash TooLong)
      else let f = split_on (CHR ''$'') h in
        if length f \<noteq> 6 \<or> f ! 0 \<noteq> '''' \<or> f ! 1 \<noteq> ''argon2id'' \<or> f ! 2 \<noteq> ''v='' @ format_uint argon2_version
        then Inl (ErrStoredHash NotArgon2id)
        else let ps = split_on (CHR '','') (f ! 3) in
          if length ps \<noteq> 3 then Inl (ErrStoredHash NotThreeParameters)
          else case (decimal (ps ! 0) ''m='' 32, decimal (ps ! 1) ''t='' 32, decimal (ps ! 2) ''p='' 8) of
            (Some m, Some t, Some p) \<Rightarrow>
              (case (strictBase64 (f ! 4), strictBase64 (f ! 5)) of
                 (Some salt, Some tag) \<Rightarrow>
                   if length salt < saltLen \<or> length salt > maxSaltLen \<or> length tag \<noteq> tagLen
                   then Inl (ErrStoredHash SaltOrTag)
                   else let st = \<lparr>sh_params = \<lparr>Memory = of_nat m, Iterations = of_nat t, Parallelism = of_nat p\<rparr>,
                                 sh_salt = salt, sh_tag = tag\<rparr>
                     in if \<not> atLeast_params (sh_params st) (s_floor s) \<or> \<not> atLeast_params (s_ceiling s) (sh_params st)
                        then Inl (ErrStoredHash OutsideBounds) else Inr st
               | _ \<Rightarrow> Inl (ErrStoredHash SaltOrTag))
          | _ \<Rightarrow> Inl (ErrStoredHash ParametersNotDecimal))"

section \<open>Keys\<close>

record parsed_key =
  pk_lookup :: string
  pk_secret :: bytes

definition parse_key :: "scheme \<Rightarrow> string \<Rightarrow> (key_error, parsed_key) result" where
  "parse_key s key =
     (let n = length (s_name s) in
      if length key \<noteq> n + 1 + lookupLen + 1 + secretLen \<or> take n key \<noteq> s_name s
         \<or> key ! n \<noteq> separator \<or> key ! (n + 1 + lookupLen) \<noteq> separator
      then Inl ErrInvalid
      else let lookup = take lookupLen (drop (n + 1) key); secret = drop (n + 2 + lookupLen) key in
        if \<not> list_all (\<lambda>c. lookupChars ! ord c) lookup then Inl ErrInvalid
        else if \<not> list_all (\<lambda>c. secretChars ! ord c) secret then Inl ErrInvalid
        else Inr \<lparr>pk_lookup = lookup, pk_secret = secret\<rparr>)"

definition hashWith :: "scheme \<Rightarrow> parsed_key \<Rightarrow> bytes \<Rightarrow> params \<Rightarrow> string" where
  "hashWith s k salt p = encodeStored p salt (derive s (pk_secret k) salt p tagLen)"

definition rehashTo :: "scheme \<Rightarrow> params \<Rightarrow> params \<times> bool" where
  "rehashTo s p = (let to = higher p (s_mint s) in (to, to \<noteq> p))"

record secret =
  secret_v :: string

record minted =
  Key :: secret
  Lookup :: string
  Hash :: string

definition mint :: "scheme \<Rightarrow> bytes option \<Rightarrow> (key_error, minted) result" where
  "mint s entropy =
     (case entropy of
        None \<Rightarrow> Inl ErrRandom
      | Some buf \<Rightarrow>
          let lookup = base32_encode lookupAlphabet (take lookupBytes buf);
              secret = base64_encode base64_url (take secretBytes (drop lookupBytes buf));
              k = \<lparr>pk_lookup = lookup, pk_secret = secret\<rparr>
          in Inr \<lparr>Key = \<lparr>secret_v = s_name s @ [separator] @ lookup @ [separator] @ secret\<rparr>,
                  Lookup = lookup,
                  Hash = hashWith s k (drop (lookupBytes + secretBytes) buf) (s_mint s)\<rparr>)"

definition presented :: "scheme \<Rightarrow> string \<Rightarrow> (key_error, secret) result" where
  "presented s key = (case parse_key s key of Inl e \<Rightarrow> Inl e | Inr _ \<Rightarrow> Inr \<lparr>secret_v = key\<rparr>)"

text \<open>Everything that prints a secret prints a placeholder; only \<open>Reveal\<close> reads it.\<close>

definition redacted :: string where "redacted = ''[redacted]''"
definition reveal :: "secret \<Rightarrow> string" where "reveal s = secret_v s"
definition secret_String :: "secret \<Rightarrow> string" where "secret_String s = redacted"
definition secret_GoString :: "secret \<Rightarrow> string" where "secret_GoString s = redacted"
definition secret_Format :: "secret \<Rightarrow> char \<Rightarrow> string \<Rightarrow> string" where "secret_Format s verb w = w @ redacted"
definition secret_MarshalJSON :: "secret \<Rightarrow> string" where "secret_MarshalJSON s = [CHR 0x22] @ redacted @ [CHR 0x22]"
definition secret_MarshalText :: "secret \<Rightarrow> string" where "secret_MarshalText s = redacted"
definition secret_LogValue :: "secret \<Rightarrow> string" where "secret_LogValue s = redacted"

lemmas api_key_eval [eval_simps] = zero_params_def defaultParams_def defaultCeiling_def
  atLeast_params_def nonZero_def higher_def lookupAlphabet_def charset_def lookupChars_def secretChars_def
  minSchemeLen_def maxSchemeLen_def key_format validScheme_def orDefault_def newScheme_def scheme_ok_def
  encodeStored_def decimal_def strictBase64_def decodeStored_def parse_key_def hashWith_def rehashTo_def
  mint_def presented_def redacted_def reveal_def

section \<open>Schemes keep their bounds in order\<close>

lemma orDefault_cases: "orDefault p d = p \<or> (p = zero_params \<and> orDefault p d = d)"
  by (simp add: orDefault_def)

text \<open>
  a scheme that passes the checks mints and reads only parameters of at least the default
  memory and passes, floor below minted below ceiling, and its dummy hash costs what a minted
  key costs.
\<close>

theorem newScheme_bounds:
  assumes "newScheme argon2id salt tag c = Inr s"
    and "\<And>b. salt = Some b \<Longrightarrow> length b = saltLen" "\<And>b. tag = Some b \<Longrightarrow> length b = tagLen"
  shows "scheme_ok s \<and> s_name s = Scheme c \<and> derive s = argon2id"
  using assms by (auto simp: newScheme_def scheme_ok_def Let_def split: if_splits option.splits)

definition derives_length :: "scheme \<Rightarrow> bool" where
  "derives_length s \<longleftrightarrow> (\<forall>secret salt p n. length (derive s secret salt p n) = n)"

definition demo_derive :: "bytes \<Rightarrow> bytes \<Rightarrow> params \<Rightarrow> nat \<Rightarrow> bytes" where
  "demo_derive secret salt p n = take n (secret @ salt @ replicate n (CHR ''x''))"

definition demo_config :: config where
  "demo_config = \<lparr>Scheme = ''gmb'', Params = zero_params, Floor = zero_params, Ceiling = zero_params\<rparr>"

definition demo_salt :: bytes where "demo_salt = replicate 16 (CHR ''s'')"
definition demo_tag :: bytes where "demo_tag = replicate 32 (CHR ''t'')"

definition demo_scheme :: scheme where
  "demo_scheme = \<lparr>s_name = ''gmb'', s_mint = defaultParams, s_floor = defaultParams, s_ceiling = defaultCeiling,
     derive = demo_derive, s_dummy = \<lparr>sh_params = defaultParams, sh_salt = demo_salt, sh_tag = demo_tag\<rparr>\<rparr>"

lemma demo_scheme_made: "newScheme demo_derive (Some demo_salt) (Some demo_tag) demo_config = Inr demo_scheme"
  by (simp add: demo_scheme_def demo_config_def newScheme_def validScheme_def Let_def eval_simps char_class_defs)

lemma demo_scheme_ok: "scheme_ok demo_scheme" "derives_length demo_scheme"
proof -
  show "scheme_ok demo_scheme"
    by (simp add: demo_scheme_def scheme_ok_def validScheme_def Let_def eval_simps char_class_defs demo_salt_def demo_tag_def)
  show "derives_length demo_scheme"
    by (auto simp: derives_length_def demo_scheme_def demo_derive_def)
qed

theorem newScheme_bounds_witness: "scheme_ok demo_scheme \<and> s_name demo_scheme = Scheme demo_config \<and> derive demo_scheme = demo_derive"
  using newScheme_bounds [OF demo_scheme_made] by (simp add: demo_salt_def demo_tag_def key_format)

lemma scheme_ok_order:
  assumes "scheme_ok s"
  shows "atLeast_params (s_ceiling s) (s_floor s)" "nonZero (s_mint s)"
  using assms by (auto simp: scheme_ok_def atLeast_params_def nonZero_def)

section \<open>Rehashing only raises\<close>

text \<open>
  the parameters a stored string is rehashed to are the least that are at least both its
  own and the minted ones; the answer says a rehash is due exactly when a field is below the
  minted value, rehashing settles it, and inside the scheme's bounds it stays inside them.
\<close>

theorem rehash_raises:
  assumes "scheme_ok s" "rehashTo s p = (to, due)"
  shows "(\<forall>r. atLeast_params r to \<longleftrightarrow> atLeast_params r p \<and> atLeast_params r (s_mint s))
     \<and> (due \<longleftrightarrow> \<not> atLeast_params p (s_mint s)) \<and> rehashTo s to = (to, False)
     \<and> (atLeast_params p (s_floor s) \<and> atLeast_params (s_ceiling s) p \<longrightarrow>
          atLeast_params to (s_floor s) \<and> atLeast_params (s_ceiling s) to)"
proof -
  have to: "to = higher p (s_mint s)" and due: "due \<longleftrightarrow> higher p (s_mint s) \<noteq> p"
    using assms(2) by (auto simp: rehashTo_def Let_def)
  have again: "higher to (s_mint s) = to"
    by (simp add: to higher_eq_iff higher_upper)
  have ord: "atLeast_params (s_ceiling s) (s_mint s)" using assms(1) by (simp add: scheme_ok_def)
  have "atLeast_params to (s_floor s)" if "atLeast_params p (s_floor s)"
    using that higher_upper(1) [of p "s_mint s"] by (simp add: to) (rule atLeast_params_trans)
  moreover have "atLeast_params (s_ceiling s) to" if "atLeast_params (s_ceiling s) p"
    using that ord by (simp add: to higher_lub)
  ultimately show ?thesis
    using due again by (simp add: to higher_lub higher_eq_iff rehashTo_def)
qed

theorem rehash_raises_witness:
  "rehashTo demo_scheme \<lparr>Memory = 20000, Iterations = 2, Parallelism = 1\<rparr>
     = (\<lparr>Memory = 20000, Iterations = 2, Parallelism = 1\<rparr>, False)
   \<and> (\<forall>r. atLeast_params r \<lparr>Memory = 20000, Iterations = 2, Parallelism = 1\<rparr> \<longleftrightarrow>
       atLeast_params r \<lparr>Memory = 20000, Iterations = 2, Parallelism = 1\<rparr> \<and> atLeast_params r (s_mint demo_scheme))"
proof -
  have e: "rehashTo demo_scheme \<lparr>Memory = 20000, Iterations = 2, Parallelism = 1\<rparr>
     = (\<lparr>Memory = 20000, Iterations = 2, Parallelism = 1\<rparr>, False)"
    by (simp add: demo_scheme_def eval_simps)
  from rehash_raises [OF demo_scheme_ok(1) e] e show ?thesis by blast
qed

section \<open>The stored string has one spelling\<close>

lemma decimal_iff: "decimal field name bits = Some n \<longleftrightarrow> n < 2 ^ bits \<and> name @ format_uint n = field"
proof
  assume "decimal field name bits = Some n"
  then show "n < 2 ^ bits \<and> name @ format_uint n = field"
    by (auto simp: decimal_def cut_prefix_def has_prefix_iff parse_uint_def
        split: prod.splits bool.splits option.splits if_splits)
next
  assume "n < 2 ^ bits \<and> name @ format_uint n = field"
  then show "decimal field name bits = Some n"
    by (auto simp: decimal_def codec_simps)
qed

interpretation decimals: canonical_codec "\<lambda>n. name @ format_uint n" "\<lambda>s. decimal s name bits" "\<lambda>n. n < 2 ^ bits"
  for name bits
  by unfold_locales (simp_all add: decimal_iff)

interpretation strict64: canonical_codec "base64_encode base64_std" strictBase64 "\<lambda>_. True"
  by unfold_locales (auto simp: strictBase64_def codec_simps split: option.splits if_splits)

lemma format_uint_chars: "c \<in> set (format_uint n) \<Longrightarrow> is_digit c"
  using format_uint_digits [of n] by (simp add: list_all_iff)

lemma base64_std_chars: "c \<in> set (base64_encode base64_std bs) \<Longrightarrow> c \<in> set base64_std"
  using base64_encode_alphabet [of base64_std bs] by (simp add: list_all_iff)

lemma not_delimiter:
  "CHR ''$'' \<notin> set (format_uint n)" "CHR '','' \<notin> set (format_uint n)"
  "CHR ''$'' \<notin> set (base64_encode base64_std bs)"
proof -
  have "CHR ''$'' \<notin> set base64_std" by (simp add: base64_std_def)
  then show "CHR ''$'' \<notin> set (base64_encode base64_std bs)" using base64_std_chars by blast
qed (auto dest!: format_uint_chars simp: is_digit_def ord_def)

definition param_field :: "params \<Rightarrow> string" where
  "param_field p = ''m='' @ format_uint (unat (Memory p)) @ '','' @ ''t='' @ format_uint (unat (Iterations p))
     @ '','' @ ''p='' @ format_uint (unat (Parallelism p))"

lemma encodeStored_fields:
  "encodeStored p salt tag = join_with ''$'' ['''', ''argon2id'', ''v='' @ format_uint argon2_version, param_field p,
     base64_encode base64_std salt, base64_encode base64_std tag]"
  by (simp add: encodeStored_def param_field_def)

lemma split_encodeStored:
  "split_on (CHR ''$'') (encodeStored p salt tag) = ['''', ''argon2id'', ''v='' @ format_uint argon2_version, param_field p,
     base64_encode base64_std salt, base64_encode base64_std tag]"
proof -
  have "CHR ''$'' \<notin> set (param_field p)" "CHR ''$'' \<notin> set (''v='' @ format_uint argon2_version)"
    by (simp_all add: param_field_def not_delimiter)
  then show ?thesis unfolding encodeStored_fields
    by (intro split_on_join) (simp_all add: not_delimiter)
qed

lemma split_param_field:
  "split_on (CHR '','') (param_field p) = [''m='' @ format_uint (unat (Memory p)),
     ''t='' @ format_uint (unat (Iterations p)), ''p='' @ format_uint (unat (Parallelism p))]"
  by (simp add: param_field_def not_delimiter)

lemma param_field_split_iff:
  "split_on (CHR '','') f = [a, b, c] \<and> decimal a ''m='' 32 = Some m \<and> decimal b ''t='' 32 = Some t
     \<and> decimal c ''p='' 8 = Some p \<longleftrightarrow>
   f = param_field \<lparr>Memory = of_nat m, Iterations = of_nat t, Parallelism = of_nat p\<rparr>
     \<and> m < 2 ^ 32 \<and> t < 2 ^ 32 \<and> p < 2 ^ 8
     \<and> a = ''m='' @ format_uint m \<and> b = ''t='' @ format_uint t \<and> c = ''p='' @ format_uint p"
  (is "?l \<longleftrightarrow> ?r")
proof
  assume l: ?l
  then have d: "m < 2 ^ 32" "t < 2 ^ 32" "p < 2 ^ 8" "a = ''m='' @ format_uint m"
      "b = ''t='' @ format_uint t" "c = ''p='' @ format_uint p"
    by (auto simp: decimal_iff)
  have "f = join_with [CHR '',''] [a, b, c]" using l join_split_on [of "CHR '',''" f] by simp
  with d show ?r by (simp add: param_field_def unat_of_nat take_bit_nat_eq_self)
next
  assume r: ?r
  with split_param_field [of "\<lparr>Memory = of_nat m, Iterations = of_nat t, Parallelism = of_nat p\<rparr>"] show ?l
    by (simp add: unat_of_nat take_bit_nat_eq_self decimal_iff)
qed

lemma length_encodeStored:
  assumes "length salt \<le> maxSaltLen" "length tag = tagLen"
  shows "length (encodeStored p salt tag) \<le> maxStoredLen"
proof -
  have "unat (Memory p) < 10 ^ 10" "unat (Iterations p) < 10 ^ 10" "unat (Parallelism p) < 10 ^ 3"
    using unsigned_less [of "Memory p", where 'a = nat] unsigned_less [of "Iterations p", where 'a = nat]
      unsigned_less [of "Parallelism p", where 'a = nat] by simp_all
  then have "length (format_uint (unat (Memory p))) \<le> 10" "length (format_uint (unat (Iterations p))) \<le> 10"
      "length (format_uint (unat (Parallelism p))) \<le> 3"
    by (auto intro: length_format_uint)
  moreover have "length (format_uint argon2_version) \<le> 2"
    by (rule length_format_uint) (simp_all add: argon2_version_def)
  moreover have "length salt div 3 \<le> 64 div 3"
    using assms(1) by (intro div_le_mono) (simp add: maxSaltLen_def)
  then have "length (base64_encode base64_std salt) \<le> 87"
    using mod_less_divisor [of 3 "length salt"] by (auto simp: length_base64_encode)
  moreover have "length (base64_encode base64_std tag) \<le> 43"
    by (simp add: length_base64_encode assms(2) tagLen_def)
  ultimately show ?thesis by (simp add: encodeStored_def maxStoredLen_def)
qed

lemma length_six: "length f = 6 \<Longrightarrow> f = [f ! 0, f ! 1, f ! 2, f ! 3, f ! 4, f ! 5]"
  by (auto simp: length_Suc_conv numeral_eq_Suc)

lemma length_three: "length f = 3 \<Longrightarrow> f = [f ! 0, f ! 1, f ! 2]"
  by (auto simp: length_Suc_conv numeral_eq_Suc)

lemma decodeStored_encodeStored:
  assumes "atLeast_params p (s_floor s)" "atLeast_params (s_ceiling s) p"
    and "saltLen \<le> length salt" "length salt \<le> maxSaltLen" "length tag = tagLen"
  shows "decodeStored s (encodeStored p salt tag) = Inr \<lparr>sh_params = p, sh_salt = salt, sh_tag = tag\<rparr>"
proof -
  have b: "unat (Memory p) < 2 ^ 32" "unat (Iterations p) < 2 ^ 32" "unat (Parallelism p) < 2 ^ 8"
    using unsigned_less [of "Memory p", where 'a = nat] unsigned_less [of "Iterations p", where 'a = nat]
      unsigned_less [of "Parallelism p", where 'a = nat] by simp_all
  have d: "decimal (''m='' @ format_uint (unat (Memory p))) ''m='' 32 = Some (unat (Memory p))"
      "decimal (''t='' @ format_uint (unat (Iterations p))) ''t='' 32 = Some (unat (Iterations p))"
      "decimal (''p='' @ format_uint (unat (Parallelism p))) ''p='' 8 = Some (unat (Parallelism p))"
    using b by (simp_all only: decimal_iff simp_thms)
  have s64: "strictBase64 (base64_encode base64_std bs) = Some bs" for bs
    by (simp add: strict64.dec_enc)
  have len: "\<not> maxStoredLen < length (encodeStored p salt tag)"
    using length_encodeStored [OF assms(4,5), of p] by simp
  have n: "length [x1, x2, x3, x4, x5, x6] = 6" "[x1, x2, x3, x4, x5, x6] ! 0 = x1" "[x1, x2, x3, x4, x5, x6] ! 1 = x2"
     "[x1, x2, x3, x4, x5, x6] ! 2 = x3" "[x1, x2, x3, x4, x5, x6] ! 3 = x4" "[x1, x2, x3, x4, x5, x6] ! 4 = x5"
     "[x1, x2, x3, x4, x5, x6] ! 5 = x6" "length [x1, x2, x3] = 3" "[x1, x2, x3] ! 0 = x1" "[x1, x2, x3] ! 1 = x2"
     "[x1, x2, x3] ! 2 = x3" for x1 x2 x3 x4 x5 x6 :: string by simp_all
  show ?thesis
    unfolding decodeStored_def Let_def split_encodeStored split_param_field n d s64
    using assms len by (simp add: atLeast_params_def)
qed

lemma decodeStored_iff:
  "decodeStored s h = Inr st \<longleftrightarrow>
     h = encodeStored (sh_params st) (sh_salt st) (sh_tag st)
     \<and> atLeast_params (sh_params st) (s_floor s) \<and> atLeast_params (s_ceiling s) (sh_params st)
     \<and> saltLen \<le> length (sh_salt st) \<and> length (sh_salt st) \<le> maxSaltLen \<and> length (sh_tag st) = tagLen"
  (is "?l \<longleftrightarrow> ?r")
proof
  assume ?r
  with decodeStored_encodeStored [of "sh_params st" s "sh_salt st" "sh_tag st"] show ?l by (cases st) simp
next
  assume l: ?l
  let ?f = "split_on (CHR ''$'') h"
  let ?ps = "split_on (CHR '','') (?f ! 3)"
  obtain m t p salt tag where f: "length ?f = 6" "?f ! 0 = ''''" "?f ! 1 = ''argon2id''"
      "?f ! 2 = ''v='' @ format_uint argon2_version"
    and ps: "length ?ps = 3" "decimal (?ps ! 0) ''m='' 32 = Some m" "decimal (?ps ! 1) ''t='' 32 = Some t"
      "decimal (?ps ! 2) ''p='' 8 = Some p"
    and b: "strictBase64 (?f ! 4) = Some salt" "strictBase64 (?f ! 5) = Some tag"
      "saltLen \<le> length salt" "length salt \<le> maxSaltLen" "length tag = tagLen"
    and st: "st = \<lparr>sh_params = \<lparr>Memory = of_nat m, Iterations = of_nat t, Parallelism = of_nat p\<rparr>,
                                 sh_salt = salt, sh_tag = tag\<rparr>"
    and bounds: "atLeast_params (sh_params st) (s_floor s)" "atLeast_params (s_ceiling s) (sh_params st)"
    using l unfolding decodeStored_def Let_def
    by (auto simp only: Inr_not_Inl Inl_not_Inr sum.inject not_less not_not de_Morgan_disj simp_thms split_conv
        split: if_splits option.splits prod.splits)
  have "?f ! 3 = param_field (sh_params st)"
    using param_field_split_iff [of "?f ! 3" "?ps ! 0" "?ps ! 1" "?ps ! 2" m t p] length_three [OF ps(1)] ps
    by (simp add: st)
  moreover have "base64_encode base64_std salt = ?f ! 4" "base64_encode base64_std tag = ?f ! 5"
    using b by (simp_all add: strict64.dec_iff)
  ultimately have "?f = ['''', ''argon2id'', ''v='' @ format_uint argon2_version, param_field (sh_params st),
      base64_encode base64_std (sh_salt st), base64_encode base64_std (sh_tag st)]"
    using length_six [OF f(1)] f by (simp add: st)
  then have "h = encodeStored (sh_params st) (sh_salt st) (sh_tag st)"
    using join_split_on [of "CHR ''$''" h] unfolding encodeStored_fields by simp
  with b bounds show ?r by (simp add: st)
qed

text \<open>
  C22: a stored string is accepted exactly when it is the one spelling of what it is read as:
  argon2id at version 19, a salt and a tag of the accepted lengths, and parameters between
  the scheme's floor and ceiling. So no two strings are read alike, and the length bound
  refuses nothing well formed.
\<close>

theorem stored_string_canonical:
  "decodeStored s h = Inr st \<longleftrightarrow>
     h = encodeStored (sh_params st) (sh_salt st) (sh_tag st)
     \<and> atLeast_params (sh_params st) (s_floor s) \<and> atLeast_params (s_ceiling s) (sh_params st)
     \<and> saltLen \<le> length (sh_salt st) \<and> length (sh_salt st) \<le> maxSaltLen \<and> length (sh_tag st) = tagLen"
  by (rule decodeStored_iff)

section \<open>Keys: what is minted is read back\<close>

lemma charset_nth: "charset s ! ord c \<longleftrightarrow> c \<in> set s"
proof -
  have "length t = 256 \<Longrightarrow> foldl (\<lambda>set c. set[ord c := True]) t s ! ord c \<longleftrightarrow> t ! ord c \<or> c \<in> set s" for t
  proof (induction s arbitrary: t)
    case (Cons a s)
    then show ?case by (auto simp: nth_list_update)
  qed simp
  then show ?thesis by (simp add: charset_def)
qed

lemma parse_key_error: "parse_key s key = Inl e \<Longrightarrow> e = ErrInvalid"
  by (auto simp: parse_key_def Let_def split: if_splits)

lemma key_shape_iff:
  "parse_key s key = Inr k \<longleftrightarrow>
      key = s_name s @ [separator] @ pk_lookup k @ [separator] @ pk_secret k
      \<and> length (pk_lookup k) = lookupLen \<and> set (pk_lookup k) \<subseteq> set lookupAlphabet
      \<and> length (pk_secret k) = secretLen \<and> set (pk_secret k) \<subseteq> set base64_url"
  (is "?l \<longleftrightarrow> ?r")
proof -
  let ?n = "length (s_name s)"
  let ?lk = "take lookupLen (drop (?n + 1) key)" and ?sec = "drop (?n + 2 + lookupLen) key"
  show ?thesis
  proof
    assume ?r
    moreover from this have "key ! ?n = separator" "key ! (?n + 1 + lookupLen) = separator"
      by (simp_all add: nth_append)
    ultimately show ?l
      by (cases k) (auto simp: parse_key_def Let_def lookupChars_def secretChars_def charset_nth list_all_iff)
  next
    assume l: ?l
    then have c: "length key = ?n + 1 + lookupLen + 1 + secretLen" "take ?n key = s_name s" "key ! ?n = separator"
        "key ! (?n + 1 + lookupLen) = separator"
      and k: "k = \<lparr>pk_lookup = ?lk, pk_secret = ?sec\<rparr>"
      and a: "set ?lk \<subseteq> set lookupAlphabet" "set ?sec \<subseteq> set base64_url"
      by (auto simp: parse_key_def Let_def lookupChars_def secretChars_def charset_nth list_all_iff split: if_splits)
    have "key = take ?n key @ key ! ?n # drop (Suc ?n) key" using c(1) by (intro id_take_nth_drop) simp
    moreover have "drop (Suc ?n) key = ?lk @ drop lookupLen (drop (Suc ?n) key)"
      by (metis append_take_drop_id Suc_eq_plus1)
    moreover have "drop lookupLen (drop (Suc ?n) key) = key ! (?n + 1 + lookupLen) # ?sec"
      using c(1) Cons_nth_drop_Suc [of "?n + 1 + lookupLen" key] by (simp add: add.commute add.left_commute)
    ultimately have "key = s_name s @ separator # ?lk @ separator # ?sec" using c by metis
    with k a c(1) show ?r by (simp add: lookupLen_def secretLen_def)
  qed
qed

text \<open>
  the keys of a scheme are exactly the strings of its name, eight characters of the lookup
  alphabet and 32 of the secret's, joined by the separator; everything else is refused with
  the one error that names nothing of the input, and \<open>Presented\<close> holds exactly such a key.
\<close>

theorem key_shape:
  "(parse_key s key = Inr k \<longleftrightarrow>
      key = s_name s @ [separator] @ pk_lookup k @ [separator] @ pk_secret k
      \<and> length (pk_lookup k) = lookupLen \<and> set (pk_lookup k) \<subseteq> set lookupAlphabet
      \<and> length (pk_secret k) = secretLen \<and> set (pk_secret k) \<subseteq> set base64_url)
   \<and> parse_key s key \<in> insert (Inl ErrInvalid) (range Inr)
   \<and> (presented s key = (case parse_key s key of Inl e \<Rightarrow> Inl ErrInvalid | Inr _ \<Rightarrow> Inr \<lparr>secret_v = key\<rparr>))"
proof -
  have "parse_key s key \<in> insert (Inl ErrInvalid) (range Inr)"
    by (cases "parse_key s key") (auto dest: parse_key_error)
  moreover have "presented s key = (case parse_key s key of Inl e \<Rightarrow> Inl ErrInvalid | Inr _ \<Rightarrow> Inr \<lparr>secret_v = key\<rparr>)"
    by (cases "parse_key s key") (auto simp: presented_def dest: parse_key_error)
  ultimately show ?thesis using key_shape_iff by simp
qed

lemma lookup_encoding:
  assumes "length bs = lookupBytes"
  shows "length (base32_encode lookupAlphabet bs) = lookupLen \<and> set (base32_encode lookupAlphabet bs) \<subseteq> set lookupAlphabet"
proof -
  have five: "length bs = 5" using assms by (simp add: lookupBytes_def)
  have "lookupAlphabet ! d \<in> set lookupAlphabet" if "d \<in> set (digits_of 32 8 (be_value bs))" for d
    using digits_of_less [OF _ that] by (intro nth_mem) (simp add: lookupAlphabet_def)
  then show ?thesis by (auto simp: base32_encode_five [OF five] lookupLen_def)
qed

lemma secret_encoding:
  assumes "length bs = secretBytes"
  shows "length (base64_encode base64_url bs) = secretLen \<and> set (base64_encode base64_url bs) \<subseteq> set base64_url"
  using base64_encode_alphabet [of base64_url bs] assms
  by (auto simp: length_base64_encode secretBytes_def secretLen_def list_all_iff)

lemma minted_read_back:
  assumes "scheme_ok s" "derives_length s" "length buf = lookupBytes + secretBytes + saltLen"
  shows "\<exists>m k. mint s (Some buf) = Inr m \<and> parse_key s (reveal (Key m)) = Inr k \<and> pk_lookup k = Lookup m
     \<and> decodeStored s (Hash m) = Inr \<lparr>sh_params = s_mint s, sh_salt = drop (lookupBytes + secretBytes) buf,
          sh_tag = derive s (pk_secret k) (drop (lookupBytes + secretBytes) buf) (s_mint s) tagLen\<rparr>"
proof -
  let ?lk = "base32_encode lookupAlphabet (take lookupBytes buf)"
  let ?sec = "base64_encode base64_url (take secretBytes (drop lookupBytes buf))"
  let ?salt = "drop (lookupBytes + secretBytes) buf"
  let ?k = "\<lparr>pk_lookup = ?lk, pk_secret = ?sec\<rparr>"
  have lk: "length ?lk = lookupLen \<and> set ?lk \<subseteq> set lookupAlphabet"
    using assms(3) by (intro lookup_encoding) (simp add: lookupBytes_def)
  have sec: "length ?sec = secretLen \<and> set ?sec \<subseteq> set base64_url"
    using assms(3) by (intro secret_encoding) (simp add: secretBytes_def)
  have "parse_key s (s_name s @ [separator] @ ?lk @ [separator] @ ?sec) = Inr ?k"
    using key_shape_iff lk sec by simp
  moreover have "decodeStored s (hashWith s ?k ?salt (s_mint s)) = Inr \<lparr>sh_params = s_mint s, sh_salt = ?salt,
          sh_tag = derive s ?sec ?salt (s_mint s) tagLen\<rparr>"
    unfolding hashWith_def parsed_key.simps
  proof (rule decodeStored_encodeStored)
    show "atLeast_params (s_mint s) (s_floor s)" "atLeast_params (s_ceiling s) (s_mint s)"
      using assms(1) by (simp_all add: scheme_ok_def)
    show "saltLen \<le> length ?salt" "length ?salt \<le> maxSaltLen"
      using assms(3) by (simp_all add: saltLen_def maxSaltLen_def)
    show "length (derive s ?sec ?salt (s_mint s) tagLen) = tagLen"
      using assms(2) by (simp add: derives_length_def)
  qed
  ultimately show ?thesis by (simp add: mint_def Let_def reveal_def)
qed

text \<open>
  minting never fails for want of anything but randomness, and the key it shows is read
  back as one of the scheme's with the lookup part that is stored, while the string that is
  stored is accepted and holds the derivation of the key's secret at the minted parameters,
  with the random salt.
\<close>

theorem mint_roundtrip:
  assumes "scheme_ok s" "derives_length s" "length buf = lookupBytes + secretBytes + saltLen"
  shows "\<exists>m k. mint s (Some buf) = Inr m \<and> parse_key s (reveal (Key m)) = Inr k \<and> pk_lookup k = Lookup m
     \<and> decodeStored s (Hash m) = Inr \<lparr>sh_params = s_mint s, sh_salt = drop (lookupBytes + secretBytes) buf,
          sh_tag = derive s (pk_secret k) (drop (lookupBytes + secretBytes) buf) (s_mint s) tagLen\<rparr>"
  using assms by (rule minted_read_back)

theorem mint_roundtrip_witness:
  "\<exists>m k. mint demo_scheme (Some (replicate 45 (CHR ''r''))) = Inr m
     \<and> parse_key demo_scheme (reveal (Key m)) = Inr k \<and> pk_lookup k = Lookup m"
  using mint_roundtrip [OF demo_scheme_ok, of "replicate 45 (CHR ''r'')"]
  by (auto simp: lookupBytes_def secretBytes_def saltLen_def)

end
