(* ===== verification/Rate_Limit.thy ===== *)
theory Rate_Limit
  imports Go_Prelude
begin

text \<open>
  The attempt limiter of package \<open>apikeys\<close> (\<open>src/apikeys/limit.go\<close>): the generic cell rate
  algorithm, one due time per tracked caller, a bounded table, a sweep that forgets callers
  whose allowance is whole again, and one shared allowance for callers beyond the table. The
  clock and SHA-256 are arguments. The lemmas give the effect of one attempt, the invariant of
  the table, the bound on what one allowance lets through in any stretch of time, and the
  refinement of a reference limiter that never forgets anybody.
\<close>

section \<open>The interface Limiter\<close>

text \<open>
  What a check relies on: the limiter's invariant is kept, and a refusal names a positive
  delay while an allowed attempt names none.
\<close>

locale attempt_limiter =
  fixes allow_attempt :: "'l \<Rightarrow> gotime \<Rightarrow> string \<Rightarrow> (bool \<times> duration) \<times> 'l"
    and limiter_inv :: "'l \<Rightarrow> bool"
  assumes inv_allow: "limiter_inv l \<Longrightarrow> allow_attempt l now caller = (r, l') \<Longrightarrow> limiter_inv l'"
    and allow_delay: "limiter_inv l \<Longrightarrow> allow_attempt l now caller = ((ok, after), l') \<Longrightarrow>
      (ok \<longrightarrow> after = 0) \<and> (\<not> ok \<longrightarrow> 0 < after)"
begin

fun attempts :: "'l \<Rightarrow> (string \<times> gotime) list \<Rightarrow> (bool \<times> duration) list \<times> 'l" where
  "attempts l [] = ([], l)"
| "attempts l ((caller, now) # es) =
     (let (r, l') = allow_attempt l now caller; (rs, l'') = attempts l' es in (r # rs, l''))"

lemma inv_attempts: "limiter_inv l \<Longrightarrow> limiter_inv (snd (attempts l es))"
  by (induction l es rule: attempts.induct)
     (auto simp: Let_def split: prod.splits dest: inv_allow)

lemma refusals_name_a_delay:
  "limiter_inv l \<Longrightarrow> (False, after) \<in> set (fst (attempts l es)) \<Longrightarrow> 0 < after"
proof (induction l es rule: attempts.induct)
  case (2 l caller now es)
  obtain r l' where a: "allow_attempt l now caller = (r, l')"
    by (cases "allow_attempt l now caller")
  with 2 show ?case
    by (cases r) (auto simp: Let_def split: prod.splits dest: allow_delay inv_allow)
qed simp

end

section \<open>MemoryLimiter\<close>

record limit_config =
  Attempts :: int
  Window :: duration
  MaxCallers :: int

definition defaultLimitConfig :: limit_config where
  "defaultLimitConfig = \<lparr>Attempts = 60, Window = minute, MaxCallers = 10000\<rparr>"

record memory_limiter =
  interval :: duration
  tolerance :: duration
  max_callers :: int
  due :: "(bytes, gotime) gomap"
  overflow :: gotime
  swept :: gotime

datatype limit_error = LimitNeeds | WindowTooShort

definition newMemoryLimiter :: "limit_config \<Rightarrow> (limit_error, memory_limiter) result" where
  "newMemoryLimiter c =
     (if Attempts c < 1 \<or> Window c \<le> 0 \<or> MaxCallers c < 1 then Inl LimitNeeds
      else let iv = Window c div Attempts c in
        if iv \<le> 0 then Inl WindowTooShort
        else Inr \<lparr>interval = iv, tolerance = wrap64 (Window c - iv), max_callers = MaxCallers c,
                  due = [], overflow = zero_time, swept = zero_time\<rparr>)"

text \<open>\<open>take\<close> answers whether the attempt is allowed, the delay, and the new due time.\<close>

definition take_attempt :: "memory_limiter \<Rightarrow> gotime \<Rightarrow> gotime \<Rightarrow> (bool \<times> duration) \<times> gotime" where
  "take_attempt l d now =
     (let t = (if d < now then now else d);
          wait = wrap64 (time_sub t now - tolerance l)
      in if 0 < wait then ((False, wait), d) else ((True, 0), t + interval l))"

definition sweep :: "memory_limiter \<Rightarrow> gotime \<Rightarrow> memory_limiter" where
  "sweep l now =
     (if time_sub now (swept l) < interval l then l
      else l\<lparr>swept := now, due := mkeep (\<lambda>_ d. now < d) (due l)\<rparr>)"

definition callers :: "memory_limiter \<Rightarrow> nat" where
  "callers l = length (due l)"

definition due_of :: "memory_limiter \<Rightarrow> bytes \<Rightarrow> gotime" where
  "due_of l i = (case mget (due l) i of None \<Rightarrow> zero_time | Some d \<Rightarrow> d)"

definition table_full :: "memory_limiter \<Rightarrow> bool" where
  "table_full l \<longleftrightarrow> max_callers l \<le> int (length (due l))"

definition allow :: "(string \<Rightarrow> bytes) \<Rightarrow> memory_limiter \<Rightarrow> gotime \<Rightarrow> string \<Rightarrow> (bool \<times> duration) \<times> memory_limiter" where
  "allow sha256 l now caller =
     (let i = sha256 caller; d = due_of l i; tracked = (mget (due l) i \<noteq> None);
          l1 = (if \<not> tracked \<and> table_full l then sweep l now else l)
      in if \<not> tracked \<and> table_full l \<and> table_full l1
         then let (r, d') = take_attempt l1 (overflow l1) now in (r, l1\<lparr>overflow := d'\<rparr>)
         else let (r, d') = take_attempt l1 d now in (r, l1\<lparr>due := mput (due l1) i d'\<rparr>))"

lemmas rate_limit_eval [eval_simps] =
  defaultLimitConfig_def newMemoryLimiter_def take_attempt_def sweep_def callers_def due_of_def
  table_full_def allow_def

section \<open>One attempt\<close>

definition limiter_ok :: "memory_limiter \<Rightarrow> bool" where
  "limiter_ok l \<longleftrightarrow> gomap_ok (due l) \<and> 0 < interval l \<and> 0 \<le> tolerance l \<and> tolerance l < max_duration
     \<and> 0 < max_callers l \<and> int (length (due l)) \<le> max_callers l"

lemma newMemoryLimiter_ok:
  assumes "newMemoryLimiter c = Inr l" "in_int64 (Window c)"
  shows "limiter_ok l \<and> tolerance l + interval l = Window c \<and> Attempts c * interval l \<le> Window c"
proof -
  let ?iv = "Window c div Attempts c"
  have c: "1 \<le> Attempts c" "0 < Window c" "1 \<le> MaxCallers c" "0 < ?iv"
    and l: "l = \<lparr>interval = ?iv, tolerance = wrap64 (Window c - ?iv), max_callers = MaxCallers c,
                 due = [], overflow = zero_time, swept = zero_time\<rparr>"
    using assms(1) by (auto simp: newMemoryLimiter_def Let_def split: if_splits)
  have le: "?iv \<le> Window c"
    using c by (metis int_div_less_self linorder_not_less nless_le order_less_le zle_add1_eq_le div_by_1 not_less_iff_gr_or_eq)
  then have "in_int64 (Window c - ?iv)"
    using c assms(2) by (auto simp: in_int64_def min_duration_def)
  moreover have "Attempts c * ?iv \<le> Window c"
    using c by (simp add: minus_mod_eq_mult_div [symmetric])
  ultimately show ?thesis
    using c le assms(2) by (auto simp: l limiter_ok_def in_int64_def)
qed

lemma take_attempt_cases:
  assumes "0 \<le> tolerance l" "tolerance l < max_duration"
  shows "take_attempt l d now =
    (if max d now - now \<le> tolerance l then ((True, 0), max d now + interval l)
     else ((False, wrap64 (time_sub (max d now) now - tolerance l)), d))"
    and "\<not> max d now - now \<le> tolerance l \<Longrightarrow> 0 < wrap64 (time_sub (max d now) now - tolerance l)"
proof -
  have t: "(if d < now then now else d) = max d now" by simp
  have s: "time_sub (max d now) now = min max_duration (max d now - now)"
    by (simp add: time_sub_def min_duration_def max_duration_def)
  have i: "in_int64 (time_sub (max d now) now - tolerance l)"
    using assms by (auto simp: s in_int64_def min_duration_def max_duration_def)
  have "0 < time_sub (max d now) now - tolerance l \<longleftrightarrow> \<not> max d now - now \<le> tolerance l"
    using assms by (auto simp: s)
  with i show "take_attempt l d now =
      (if max d now - now \<le> tolerance l then ((True, 0), max d now + interval l)
       else ((False, wrap64 (time_sub (max d now) now - tolerance l)), d))"
    and "\<not> max d now - now \<le> tolerance l \<Longrightarrow> 0 < wrap64 (time_sub (max d now) now - tolerance l)"
    by (auto simp: take_attempt_def Let_def t)
qed

lemma sweep_fields [simp]:
  "interval (sweep l now) = interval l" "tolerance (sweep l now) = tolerance l"
  "max_callers (sweep l now) = max_callers l" "overflow (sweep l now) = overflow l"
  by (simp_all add: sweep_def)

lemma limiter_ok_sweep: "limiter_ok l \<Longrightarrow> limiter_ok (sweep l now)"
  by (auto simp: limiter_ok_def sweep_def) (meson length_mkeep_le of_nat_mono order_trans)

text \<open>Forgetting a caller whose allowance is whole again changes nothing at or after that time.\<close>

lemma sweep_due: "limiter_ok l \<Longrightarrow> zero_time \<le> now \<Longrightarrow> max now (due_of (sweep l now) i) = max now (due_of l i)"
  by (auto simp: sweep_def due_of_def limiter_ok_def gomap_simps split: option.splits)

definition uses_overflow :: "(string \<Rightarrow> bytes) \<Rightarrow> memory_limiter \<Rightarrow> gotime \<Rightarrow> string \<Rightarrow> bool" where
  "uses_overflow sha256 l now caller \<longleftrightarrow>
     mget (due l) (sha256 caller) = None \<and> table_full l \<and> table_full (sweep l now)"

definition before_take :: "(string \<Rightarrow> bytes) \<Rightarrow> memory_limiter \<Rightarrow> gotime \<Rightarrow> string \<Rightarrow> memory_limiter" where
  "before_take sha256 l now caller =
     (if mget (due l) (sha256 caller) = None \<and> table_full l then sweep l now else l)"

lemma allow_unfold:
  "allow sha256 l now caller =
     (let l1 = before_take sha256 l now caller in
      if uses_overflow sha256 l now caller
      then let (r, d') = take_attempt l1 (overflow l1) now in (r, l1\<lparr>overflow := d'\<rparr>)
      else let (r, d') = take_attempt l1 (due_of l (sha256 caller)) now
           in (r, l1\<lparr>due := mput (due l1) (sha256 caller) d'\<rparr>))"
  by (auto simp: allow_def before_take_def uses_overflow_def Let_def)

lemma before_take_ok:
  "limiter_ok l \<Longrightarrow> limiter_ok (before_take sha256 l now caller)"
  by (simp add: before_take_def limiter_ok_sweep)

lemma before_take_fields [simp]:
  "interval (before_take sha256 l now caller) = interval l"
  "tolerance (before_take sha256 l now caller) = tolerance l"
  "max_callers (before_take sha256 l now caller) = max_callers l"
  "overflow (before_take sha256 l now caller) = overflow l"
  by (simp_all add: before_take_def)

lemma limiter_ok_put:
  assumes "limiter_ok l1" "mget (due l1) i \<noteq> None \<or> \<not> table_full l1"
  shows "limiter_ok (l1\<lparr>due := mput (due l1) i d\<rparr>)"
  using assms by (auto simp: limiter_ok_def table_full_def length_mput)

lemma limiter_ok_allow:
  assumes "limiter_ok l" "allow sha256 l now caller = (r, l')"
  shows "limiter_ok l'"
proof -
  let ?l1 = "before_take sha256 l now caller"
  have ok1: "limiter_ok ?l1" using assms(1) by (rule before_take_ok)
  have "mget (due ?l1) (sha256 caller) \<noteq> None \<or> \<not> table_full ?l1" if "\<not> uses_overflow sha256 l now caller"
    using that by (auto simp: uses_overflow_def before_take_def)
  with assms(2) ok1 show ?thesis
    by (auto simp: allow_unfold Let_def limiter_ok_put split: if_splits prod.splits)
       (simp add: limiter_ok_def)
qed

lemma allow_delay_positive:
  assumes "limiter_ok l" "allow sha256 l now caller = ((ok, after), l')"
  shows "(ok \<longrightarrow> after = 0) \<and> (\<not> ok \<longrightarrow> 0 < after)"
proof -
  let ?l1 = "before_take sha256 l now caller"
  have "0 \<le> tolerance ?l1" "tolerance ?l1 < max_duration"
    using before_take_ok [OF assms(1), of sha256 now caller] by (simp_all add: limiter_ok_def)
  note c = take_attempt_cases [OF this]
  show ?thesis using assms(2) c(2)
    by (auto simp: allow_unfold Let_def c(1) split: if_splits)
qed

interpretation memory: attempt_limiter "allow sha256" limiter_ok for sha256
  by unfold_locales (blast intro: limiter_ok_allow, blast dest: allow_delay_positive)

section \<open>How much an allowance lets through\<close>

text \<open>
  A run of attempts, and the ones among them that were allowed on a caller's own allowance, or
  on the shared one.
\<close>

fun allow_run :: "(string \<Rightarrow> bytes) \<Rightarrow> memory_limiter \<Rightarrow> (string \<times> gotime) list \<Rightarrow> (bool \<times> duration) list \<times> memory_limiter" where
  "allow_run sha256 l [] = ([], l)"
| "allow_run sha256 l ((caller, now) # es) =
     (let (r, l') = allow sha256 l now caller; (rs, l'') = allow_run sha256 l' es in (r # rs, l''))"

fun own_allowed :: "(string \<Rightarrow> bytes) \<Rightarrow> bytes \<Rightarrow> memory_limiter \<Rightarrow> (string \<times> gotime) list \<Rightarrow> nat" where
  "own_allowed sha256 i l [] = 0"
| "own_allowed sha256 i l ((caller, now) # es) =
     (let ((ok, _), l') = allow sha256 l now caller
      in (if ok \<and> sha256 caller = i \<and> \<not> uses_overflow sha256 l now caller then 1 else 0)
         + own_allowed sha256 i l' es)"

fun shared_allowed :: "(string \<Rightarrow> bytes) \<Rightarrow> memory_limiter \<Rightarrow> (string \<times> gotime) list \<Rightarrow> nat" where
  "shared_allowed sha256 l [] = 0"
| "shared_allowed sha256 l ((caller, now) # es) =
     (let ((ok, _), l') = allow sha256 l now caller
      in (if ok \<and> uses_overflow sha256 l now caller then 1 else 0) + shared_allowed sha256 l' es)"

text \<open>The attempts happen between \<open>t0\<close> and \<open>t1\<close>, in the order of the clock.\<close>

fun within :: "gotime \<Rightarrow> gotime \<Rightarrow> (string \<times> gotime) list \<Rightarrow> bool" where
  "within t0 t1 [] \<longleftrightarrow> t0 \<le> t1"
| "within t0 t1 ((caller, now) # es) \<longleftrightarrow> t0 \<le> now \<and> now \<le> t1 \<and> within now t1 es"

lemma within_le: "within t0 t1 es \<Longrightarrow> t0 \<le> t1"
  by (induction es arbitrary: t0) auto

text \<open>One attempt at \<open>now\<close>, seen from one allowance: what it does to the time it is whole at.\<close>

lemma allow_own_step:
  assumes ok: "limiter_ok l" and z: "zero_time \<le> now" and a: "allow sha256 l now caller = ((b, after), l')"
  shows "max now (due_of l' i) = max now (due_of l i)
           + (if b \<and> sha256 caller = i \<and> \<not> uses_overflow sha256 l now caller then interval l else 0)"
    and "b \<and> sha256 caller = i \<and> \<not> uses_overflow sha256 l now caller \<Longrightarrow> max now (due_of l i) - now \<le> tolerance l"
    and "max now (overflow l') = max now (overflow l)
           + (if b \<and> uses_overflow sha256 l now caller then interval l else 0)"
    and "b \<and> uses_overflow sha256 l now caller \<Longrightarrow> max now (overflow l) - now \<le> tolerance l"
    and "interval l' = interval l" and "tolerance l' = tolerance l"
proof -
  let ?l1 = "before_take sha256 l now caller"
  have pos: "0 < interval l" and tol: "0 \<le> tolerance ?l1" "tolerance ?l1 < max_duration"
    using ok by (simp_all add: limiter_ok_def)
  note c = take_attempt_cases(1) [OF tol]
  have d1: "max now (due_of ?l1 j) = max now (due_of l j)" for j
    using sweep_due [OF ok z] by (simp add: before_take_def)
  have put: "due_of (k\<lparr>due := mput (due k) j d\<rparr>) h = (if h = j then d else due_of k h)" for k :: memory_limiter and j d h
    by (simp add: due_of_def gomap_simps)
  have ovf: "due_of (k\<lparr>overflow := d\<rparr>) h = due_of k h" for k :: memory_limiter and d h
    by (simp add: due_of_def)
  note facts = a [unfolded allow_unfold Let_def c]
  show "max now (due_of l' i) = max now (due_of l i)
           + (if b \<and> sha256 caller = i \<and> \<not> uses_overflow sha256 l now caller then interval l else 0)"
    using facts d1 pos by (auto simp: put ovf max.commute split: if_splits)
  show "max now (overflow l') = max now (overflow l)
           + (if b \<and> uses_overflow sha256 l now caller then interval l else 0)"
    using facts pos by (auto simp: max.commute split: if_splits)
  show "b \<and> sha256 caller = i \<and> \<not> uses_overflow sha256 l now caller \<Longrightarrow> max now (due_of l i) - now \<le> tolerance l"
    and "b \<and> uses_overflow sha256 l now caller \<Longrightarrow> max now (overflow l) - now \<le> tolerance l"
    and "interval l' = interval l" and "tolerance l' = tolerance l"
    using facts by (auto simp: max.commute split: if_splits)
qed

text \<open>
  The potential argument, once for both kinds of allowance: each allowed attempt moves the
  time the allowance is whole at one interval on, and never past the tolerance.
\<close>

lemma own_allowed_potential:
  assumes "limiter_ok l" "zero_time \<le> t0" "within t0 t1 es"
  shows "own_allowed sha256 i l es = 0 \<or>
    max t0 (due_of l i) + int (own_allowed sha256 i l es) * interval l \<le> t1 + tolerance l + interval l"
  using assms
proof (induction es arbitrary: l t0)
  case (Cons e es)
  obtain caller now where e: "e = (caller, now)" by (cases e)
  obtain b after l' where a: "allow sha256 l now caller = ((b, after), l')"
    by (metis prod.exhaust)
  let ?own = "b \<and> sha256 caller = i \<and> \<not> uses_overflow sha256 l now caller"
  have w: "t0 \<le> now" "now \<le> t1" "within now t1 es" and z: "zero_time \<le> now"
    using Cons.prems e by auto
  note s = allow_own_step [OF Cons.prems(1) z a]
  have n: "own_allowed sha256 i l (e # es) = (if ?own then 1 else 0) + own_allowed sha256 i l' es"
    by (simp add: e a)
  have ih: "own_allowed sha256 i l' es = 0 \<or>
      max now (due_of l' i) + int (own_allowed sha256 i l' es) * interval l \<le> t1 + tolerance l + interval l"
    using Cons.IH [OF limiter_ok_allow [OF Cons.prems(1) a] z w(3)] s(5,6) by simp
  have mono: "max t0 (due_of l i) \<le> max now (due_of l i)" using w by auto
  show ?case
    using ih s(1) [of i] mono w s(2) [of i]
    by (cases ?own; cases "own_allowed sha256 i l' es = 0") (auto simp: n algebra_simps)
qed simp

lemma shared_allowed_potential:
  assumes "limiter_ok l" "zero_time \<le> t0" "within t0 t1 es"
  shows "shared_allowed sha256 l es = 0 \<or>
    max t0 (overflow l) + int (shared_allowed sha256 l es) * interval l \<le> t1 + tolerance l + interval l"
  using assms
proof (induction es arbitrary: l t0)
  case (Cons e es)
  obtain caller now where e: "e = (caller, now)" by (cases e)
  obtain b after l' where a: "allow sha256 l now caller = ((b, after), l')"
    by (metis prod.exhaust)
  let ?sh = "b \<and> uses_overflow sha256 l now caller"
  have w: "t0 \<le> now" "now \<le> t1" "within now t1 es" and z: "zero_time \<le> now"
    using Cons.prems e by auto
  note s = allow_own_step [OF Cons.prems(1) z a]
  have n: "shared_allowed sha256 l (e # es) = (if ?sh then 1 else 0) + shared_allowed sha256 l' es"
    by (simp add: e a)
  have ih: "shared_allowed sha256 l' es = 0 \<or>
      max now (overflow l') + int (shared_allowed sha256 l' es) * interval l \<le> t1 + tolerance l + interval l"
    using Cons.IH [OF limiter_ok_allow [OF Cons.prems(1) a] z w(3)] s(5,6) by simp
  have mono: "max t0 (overflow l) \<le> max now (overflow l)" using w by auto
  show ?case
    using ih s(3) mono w s(4)
    by (cases ?sh; cases "shared_allowed sha256 l' es = 0") (auto simp: n algebra_simps)
qed simp

text \<open>
  C23: in any stretch of time, whatever the other callers do and however often the table is
  swept, the attempts allowed on one caller's own allowance, and those allowed on the shared
  allowance of all the callers beyond the table, each take up no more of their share of the
  window than the length of the stretch plus one window.
\<close>

theorem rate_bound:
  assumes "limiter_ok l" "zero_time \<le> t0" "within t0 t1 es"
  shows "int (own_allowed sha256 i l es) * interval l \<le> (t1 - t0) + (tolerance l + interval l)
     \<and> int (shared_allowed sha256 l es) * interval l \<le> (t1 - t0) + (tolerance l + interval l)"
proof -
  have nn: "0 \<le> (t1 - t0) + (tolerance l + interval l)"
    using assms within_le [OF assms(3)] by (simp add: limiter_ok_def)
  have "int (own_allowed sha256 i l es) * interval l \<le> (t1 - t0) + (tolerance l + interval l)"
    using own_allowed_potential [OF assms, of sha256 i] nn by auto
  moreover have "int (shared_allowed sha256 l es) * interval l \<le> (t1 - t0) + (tolerance l + interval l)"
    using shared_allowed_potential [OF assms, of sha256] nn by auto
  ultimately show ?thesis ..
qed

definition two_a_second :: memory_limiter where
  "two_a_second = \<lparr>interval = 500000000, tolerance = 500000000, max_callers = 1, due = [],
     overflow = zero_time, swept = zero_time\<rparr>"

theorem rate_bound_witness:
  "int (own_allowed (\<lambda>s. s) ''a'' two_a_second [(''a'', 0), (''a'', 0), (''a'', 0), (''b'', 1), (''a'', 600000000)])
     * interval two_a_second \<le> (600000000 - 0) + (tolerance two_a_second + interval two_a_second)
   \<and> own_allowed (\<lambda>s. s) ''a'' two_a_second [(''a'', 0), (''a'', 0), (''a'', 0), (''b'', 1), (''a'', 600000000)] = 3"
proof -
  have ok: "limiter_ok two_a_second" by (simp add: limiter_ok_def two_a_second_def eval_simps)
  have w: "within 0 600000000 [(''a'', 0), (''a'', 0), (''a'', 0), (''b'', 1), (''a'', 600000000)]" by simp
  have z: "zero_time \<le> 0" by (simp add: eval_simps)
  have n: "own_allowed (\<lambda>s. s) ''a'' two_a_second [(''a'', 0), (''a'', 0), (''a'', 0), (''b'', 1), (''a'', 600000000)] = 3"
    by (simp add: two_a_second_def uses_overflow_def eval_simps)
  show ?thesis using rate_bound [OF ok z w, of "\<lambda>s. s" "''a''"] n by simp
qed

section \<open>The reference limiter\<close>

text \<open>
  The specification keeps one time for every caller for ever: no table, no sweep, no digest
  bound. A refused attempt is told how long the caller's time is off, beyond the tolerance.
\<close>

definition spec_allow :: "duration \<Rightarrow> duration \<Rightarrow> (bytes \<Rightarrow> gotime) \<Rightarrow> gotime \<Rightarrow> bytes \<Rightarrow> (bool \<times> duration) \<times> (bytes \<Rightarrow> gotime)" where
  "spec_allow iv tol f now i =
     (if f i - now \<le> tol then ((True, 0), f(i := max (f i) now + iv)) else ((False, min max_duration (f i - now) - tol), f))"

fun spec_run :: "(string \<Rightarrow> bytes) \<Rightarrow> duration \<Rightarrow> duration \<Rightarrow> (bytes \<Rightarrow> gotime) \<Rightarrow> (string \<times> gotime) list \<Rightarrow> (bool \<times> duration) list" where
  "spec_run sha256 iv tol f [] = []"
| "spec_run sha256 iv tol f ((caller, now) # es) =
     (let (r, f') = spec_allow iv tol f now (sha256 caller) in r # spec_run sha256 iv tol f' es)"

text \<open>
  The table has room at every attempt of a run: fewer than its size of the other callers seen so
  far have, by the reference, a time that is ahead or less than an interval back. How many callers
  the run has in all is not bounded.
\<close>

fun uncrowded :: "(string \<Rightarrow> bytes) \<Rightarrow> duration \<Rightarrow> duration \<Rightarrow> int \<Rightarrow> bytes list \<Rightarrow> (bytes \<Rightarrow> gotime) \<Rightarrow> (string \<times> gotime) list \<Rightarrow> bool" where
  "uncrowded sha256 iv tol size_of seen_so_far f [] \<longleftrightarrow> True"
| "uncrowded sha256 iv tol size_of seen_so_far f ((caller, now) # es) \<longleftrightarrow>
     int (length (filter (\<lambda>j. j \<noteq> sha256 caller \<and> now - iv < f j) seen_so_far)) < size_of
     \<and> uncrowded sha256 iv tol size_of (List.insert (sha256 caller) seen_so_far) (snd (spec_allow iv tol f now (sha256 caller))) es"

text \<open>The limiter beside the reference: what the table holds is the reference's, and is not older than the last sweep.\<close>

definition mirrors :: "memory_limiter \<Rightarrow> (bytes \<Rightarrow> gotime) \<Rightarrow> bytes list \<Rightarrow> gotime \<Rightarrow> bool" where
  "mirrors l f ks t \<longleftrightarrow> distinct ks \<and> swept l \<le> t \<and> (\<forall>i. max t (due_of l i) = max t (f i))
     \<and> (\<forall>i d. mget (due l) i = Some d \<longrightarrow> f i = d \<and> i \<in> set ks \<and> swept l \<le> d)"

lemma mirrors_later:
  assumes "mirrors l f ks t" "t \<le> t'"
  shows "mirrors l f ks t'"
proof -
  have "max t' (due_of l i) = max t' (f i)" for i
    using assms(2) assms(1) [unfolded mirrors_def] by (metis max.absorb1 max.assoc)
  then show ?thesis using assms by (auto simp: mirrors_def)
qed

text \<open>A sweep forgets only who is at or before now, and what is left when none is due is less than an interval back.\<close>

lemma sweep_mirrors:
  assumes "limiter_ok l" "zero_time \<le> now" "mirrors l f ks now"
  shows "mirrors (sweep l now) f ks now"
    and "interval l < max_duration \<Longrightarrow> mget (due (sweep l now)) i = Some d \<Longrightarrow> now - interval l < d"
proof -
  have g: "gomap_ok (due l)" "0 < interval l" using assms(1) by (simp_all add: limiter_ok_def)
  have m: "mget (due l) i = Some d \<Longrightarrow> f i = d \<and> i \<in> set ks \<and> swept l \<le> d" for i d using assms(3) by (simp add: mirrors_def)
  have "max now (due_of (sweep l now) i) = max now (f i)" for i
    using sweep_due [OF assms(1,2)] assms(3) by (simp add: mirrors_def)
  then show "mirrors (sweep l now) f ks now"
    using assms(3) g m by (auto simp: mirrors_def sweep_def gomap_simps split: option.splits if_splits)
  show "now - interval l < d" if "interval l < max_duration" "mget (due (sweep l now)) i = Some d"
  proof (cases "time_sub now (swept l) < interval l")
    case True
    then have "now - swept l < interval l" using that(1) by (auto simp: time_sub_def split: if_splits)
    with True m [of i d] that(2) show ?thesis by (auto simp: sweep_def)
  next
    case False
    with that(2) g show ?thesis by (auto simp: sweep_def gomap_simps split: option.splits if_splits)
  qed
qed

lemma no_overflow_if_room:
  assumes "limiter_ok l" "interval l < max_duration" "zero_time \<le> now" "mirrors l f ks now"
    and "int (length (filter (\<lambda>j. j \<noteq> sha256 caller \<and> now - interval l < f j) ks)) < max_callers l"
  shows "\<not> uses_overflow sha256 l now caller"
proof
  let ?l = "sweep l now" and ?crowd = "filter (\<lambda>j. j \<noteq> sha256 caller \<and> now - interval l < f j) ks"
  assume o: "uses_overflow sha256 l now caller"
  note sw = sweep_mirrors [OF assms(1,3,4)]
  have "set (map fst (due ?l)) \<subseteq> set ?crowd"
  proof
    fix j assume "j \<in> set (map fst (due ?l))"
    then obtain d where d: "mget (due ?l) j = Some d" using mget_None_iff [of "due ?l" j] by (auto simp: mkeys_def)
    have "mget (due l) j \<noteq> None"
      using d assms(1) by (auto simp: sweep_def limiter_ok_def gomap_simps split: option.splits if_splits)
    then have "j \<noteq> sha256 caller" using o by (auto simp: uses_overflow_def)
    with d sw(1) sw(2) [OF assms(2) d] show "j \<in> set ?crowd" by (auto simp: mirrors_def)
  qed
  then have "card (set (map fst (due ?l))) \<le> card (set ?crowd)" by (rule card_mono [rotated]) simp
  also have "\<dots> \<le> length ?crowd" by (rule card_length)
  finally have "length (due ?l) \<le> length ?crowd"
    using distinct_card [of "map fst (due ?l)"] limiter_ok_sweep [OF assms(1), of now] by (simp add: limiter_ok_def gomap_ok_def mkeys_def)
  with o assms(5) show False by (simp add: uses_overflow_def table_full_def)
qed

lemma allow_mirrors:
  assumes ok: "limiter_ok l" and z: "zero_time \<le> now" and m: "mirrors l f ks now"
    and no: "\<not> uses_overflow sha256 l now caller" and a: "allow sha256 l now caller = (r, l')"
  shows "fst (spec_allow (interval l) (tolerance l) f now (sha256 caller)) = r
    \<and> mirrors l' (snd (spec_allow (interval l) (tolerance l) f now (sha256 caller))) (List.insert (sha256 caller) ks) now"
proof -
  let ?i = "sha256 caller" and ?l1 = "before_take sha256 l now caller"
  have b: "mirrors ?l1 f ks now" using sweep_mirrors(1) [OF ok z m] m by (simp add: before_take_def)
  have tol: "0 \<le> tolerance ?l1" "tolerance ?l1 < max_duration" "0 < interval l" using ok by (simp_all add: limiter_ok_def)
  have d: "max now (due_of l ?i) = max now (f ?i)" using m by (simp add: mirrors_def)
  have same: "due_of l ?i = f ?i" if "now < f ?i" using d that by (auto simp: max_def split: if_splits)
  have s: "time_sub (max (f ?i) now) now = min max_duration (f ?i - now)" if "now < f ?i"
    using that by (simp add: time_sub_def min_duration_def max_duration_def)
  have "in_int64 (min max_duration (f ?i - now) - tolerance l)" if "now < f ?i"
    using that tol by (auto simp: in_int64_def min_duration_def max_duration_def)
  then have t: "take_attempt ?l1 (due_of l ?i) now = (fst (spec_allow (interval l) (tolerance l) f now ?i),
      (if f ?i - now \<le> tolerance l then max (f ?i) now + interval l else f ?i))"
    using d same s tol(1) unfolding take_attempt_cases(1) [OF tol(1,2)] by (auto simp: spec_allow_def max.commute)
  then have l': "r = fst (spec_allow (interval l) (tolerance l) f now ?i)"
      "l' = ?l1\<lparr>due := mput (due ?l1) ?i (if f ?i - now \<le> tolerance l then max (f ?i) now + interval l else f ?i)\<rparr>"
    using a no by (auto simp: allow_unfold Let_def)
  have late: "swept ?l1 \<le> now" using b by (simp add: mirrors_def)
  show ?thesis
    using b tol(1,3) late unfolding l' mirrors_def
    by (auto simp: spec_allow_def due_of_def gomap_simps distinct_insert)
qed

lemma mirrored_run:
  assumes "limiter_ok l" "interval l < max_duration" "zero_time \<le> t0" "within t0 t1 es" "mirrors l f ks t0"
    and "uncrowded sha256 (interval l) (tolerance l) (max_callers l) ks f es"
  shows "fst (allow_run sha256 l es) = spec_run sha256 (interval l) (tolerance l) f es"
  using assms
proof (induction es arbitrary: l t0 f ks)
  case (Cons e es)
  obtain caller now where e: "e = (caller, now)" by (cases e)
  obtain r l' where a: "allow sha256 l now caller = (r, l')" by (metis prod.exhaust)
  have w: "t0 \<le> now" "within now t1 es" and z: "zero_time \<le> now" using Cons.prems e by auto
  have m: "mirrors l f ks now" by (rule mirrors_later [OF Cons.prems(5) w(1)])
  have no: "\<not> uses_overflow sha256 l now caller"
    by (rule no_overflow_if_room [OF Cons.prems(1,2) z m]) (use Cons.prems(6) e in simp)
  note sim = allow_mirrors [OF Cons.prems(1) z m no a]
  have k: "interval l' = interval l" "tolerance l' = tolerance l" "max_callers l' = max_callers l"
    using a by (auto simp: allow_unfold Let_def split: if_splits prod.splits)
  have "fst (allow_run sha256 l' es)
      = spec_run sha256 (interval l) (tolerance l) (snd (spec_allow (interval l) (tolerance l) f now (sha256 caller))) es"
    using Cons.IH [OF limiter_ok_allow [OF Cons.prems(1) a] _ z w(2) sim [THEN conjunct2]] Cons.prems(2,6) by (simp add: e k)
  with sim show ?case by (simp add: e a Let_def split_beta)
qed simp

text \<open>
  C24: a limiter made for any window below the longest duration answers every attempt of a run, and
  with the same delay, as the reference limiter that never forgets a caller, as long as at each attempt
  fewer than its table's size of the other callers have, by the reference, an allowance
  that is not yet whole or became whole less than an interval ago. The run may see any number of callers: the table
  is swept whenever it is full, and no caller whose allowance is not whole is forgotten.
\<close>

theorem limiter_refines_reference:
  assumes "newMemoryLimiter c = Inr l" "Window c < max_duration" "zero_time \<le> t0" "within t0 t1 es"
    and "uncrowded sha256 (interval l) (tolerance l) (max_callers l) [] (\<lambda>_. zero_time) es"
  shows "fst (allow_run sha256 l es) = spec_run sha256 (interval l) (tolerance l) (\<lambda>_. zero_time) es"
proof -
  have "in_int64 (Window c)"
    using assms(1,2) by (auto simp: newMemoryLimiter_def in_int64_def min_duration_def split: if_splits)
  with newMemoryLimiter_ok [OF assms(1)] assms(2) have new: "limiter_ok l" "interval l < max_duration"
    by (auto simp: limiter_ok_def)
  have "mirrors l (\<lambda>_. zero_time) [] t0"
    using assms(1,3) by (auto simp: newMemoryLimiter_def mirrors_def due_of_def mget_def Let_def split: if_splits)
  from mirrored_run [OF new assms(3,4) this assms(5)] show ?thesis .
qed

text \<open>A table of one: the first caller's allowance is whole again when the second one comes, and is swept away.\<close>

definition one_caller :: limit_config where
  "one_caller = \<lparr>Attempts = 2, Window = second, MaxCallers = 1\<rparr>"

definition demo_attempts :: "(string \<times> gotime) list" where
  "demo_attempts = [(''a'', 0), (''a'', 0), (''a'', 0), (''b'', 2 * second), (''b'', 2 * second)]"

theorem limiter_refines_reference_witness:
  "fst (allow_run (\<lambda>s. s) two_a_second demo_attempts) = [(True, 0), (True, 0), (False, 500000000), (True, 0), (True, 0)]
   \<and> mkeys (due (snd (allow_run (\<lambda>s. s) two_a_second demo_attempts))) = [''b'']"
proof -
  have l: "newMemoryLimiter one_caller = Inr two_a_second"
    by (simp add: newMemoryLimiter_def one_caller_def two_a_second_def second_def wrap64_def)
  have w: "Window one_caller < max_duration" "zero_time \<le> 0" "within 0 (2 * second) demo_attempts"
    by (simp_all add: one_caller_def demo_attempts_def eval_simps)
  have u: "uncrowded (\<lambda>s. s) (interval two_a_second) (tolerance two_a_second) (max_callers two_a_second) [] (\<lambda>_. zero_time) demo_attempts"
    by (simp add: two_a_second_def demo_attempts_def spec_allow_def zero_time_def second_def)
  have "mkeys (due (snd (allow_run (\<lambda>s. s) two_a_second demo_attempts))) = [''b'']"
    by (simp add: two_a_second_def demo_attempts_def eval_simps)
  with limiter_refines_reference [OF l w u] show ?thesis
    by (simp add: two_a_second_def demo_attempts_def spec_allow_def zero_time_def second_def max_duration_def)
qed

end
