(* ===== verification/Key_Verifier.thy ===== *)
theory Key_Verifier
  imports Api_Key Rate_Limit
begin

text \<open>
  The check of a presented key (\<open>src/apikeys/verify.go\<close>): the success cache, the verifier's
  construction, \<open>Verify\<close> with its limit, lookup, derive slots, derive, comparison, rehash and
  caching, and the mapping of its errors to HTTP. \<open>Verify\<close> is split where it takes its derive
  slot, so that checks in flight at once can be interleaved. The store's lookup, the state of
  the context, the clocks, SHA-256, the random salt of a rehash and the order in which Go
  ranges over the cache are arguments. The derives a check runs are returned beside its answer.
\<close>

section \<open>The success cache\<close>

record cache_entry =
  ce_stored :: string
  ce_digest :: bytes
  ce_expires :: gotime

record success_cache =
  sc_ttl :: duration
  sc_size :: int
  sc_entries :: "(string, cache_entry) gomap"

definition hit :: "(bytes \<Rightarrow> bytes) \<Rightarrow> success_cache \<Rightarrow> gotime \<Rightarrow> string \<Rightarrow> string \<Rightarrow> bytes \<Rightarrow> bool" where
  "hit sha256 c now lookup stored secret =
     (case mget (sc_entries c) lookup of
        None \<Rightarrow> False
      | Some e \<Rightarrow> now < ce_expires e \<and> ce_stored e = stored \<and> ce_digest e = sha256 secret)"

text \<open>The second loop of \<open>put\<close>, over the keys in the order the language ranges over them.\<close>

fun evict :: "int \<Rightarrow> string list \<Rightarrow> (string, cache_entry) gomap \<Rightarrow> (string, cache_entry) gomap" where
  "evict bound [] m = m"
| "evict bound (k # ks) m = (if int (length m) < bound then m else evict bound ks (mdel m k))"

definition put :: "(bytes \<Rightarrow> bytes) \<Rightarrow> ((string, cache_entry) gomap \<Rightarrow> string list) \<Rightarrow> success_cache \<Rightarrow> gotime
    \<Rightarrow> string \<Rightarrow> string \<Rightarrow> bytes \<Rightarrow> success_cache" where
  "put sha256 order c now lookup stored secret =
     (let m = sc_entries c;
          m1 = (if mget m lookup = None \<and> int (length m) \<ge> sc_size c
                then let live = mkeep (\<lambda>_ e. now < ce_expires e) m in evict (sc_size c) (order live) live
                else m)
      in c\<lparr>sc_entries := mput m1 lookup
             \<lparr>ce_stored = stored, ce_digest = sha256 secret, ce_expires = now + sc_ttl c\<rparr>\<rparr>)"

definition cache_len :: "success_cache \<Rightarrow> nat" where
  "cache_len c = length (sc_entries c)"

section \<open>The verifier\<close>

definition defaultMaxDerives :: int where "defaultMaxDerives = 4"
definition defaultBusyRetryAfter :: duration where "defaultBusyRetryAfter = second"
definition defaultCacheSize :: int where "defaultCacheSize = 1024"

record 'l verifier_config =
  vc_limiter :: "'l option"
  MaxDerives :: int
  BusyRetryAfter :: duration
  CacheTTL :: duration
  CacheSize :: int

record 'l verifier =
  v_scheme :: scheme
  v_limiter :: 'l
  v_cap :: int
  v_used :: nat
  v_busyAfter :: duration
  v_cache :: "success_cache option"

text \<open>
  \<open>NewVerifier\<close>. What making a limiter answers when it is given none is the argument
  \<open>made\<close>: \<open>NewMemoryLimiter\<close> of \<open>DefaultLimitConfig\<close> in the source.
\<close>

definition newVerifier :: "(limit_error, 'l) result \<Rightarrow> scheme \<Rightarrow> bool \<Rightarrow> 'l verifier_config \<Rightarrow> (key_error, 'l verifier) result" where
  "newVerifier made s has_lookup c =
     (if \<not> has_lookup then Inl NoLookup
      else if MaxDerives c < 0 \<or> BusyRetryAfter c < 0 \<or> CacheTTL c < 0 \<or> CacheSize c < 0 then Inl NegativeLimits
      else case (case vc_limiter c of None \<Rightarrow> made | Some l \<Rightarrow> Inr l) of
        Inl _ \<Rightarrow> Inl LimiterRefused
      | Inr l \<Rightarrow>
         Inr \<lparr>v_scheme = s,
              v_limiter = l,
              v_cap = (if MaxDerives c = 0 then defaultMaxDerives else MaxDerives c),
              v_used = 0,
              v_busyAfter = (if BusyRetryAfter c = 0 then defaultBusyRetryAfter else BusyRetryAfter c),
              v_cache = (if CacheTTL c > 0
                         then Some \<lparr>sc_ttl = CacheTTL c,
                                    sc_size = (if CacheSize c = 0 then defaultCacheSize else CacheSize c),
                                    sc_entries = []\<rparr>
                         else None)\<rparr>)"

record check_result =
  res_Lookup :: string
  res_Rehash :: string
  res_Replaces :: string

record check =
  ck_key :: parsed_key
  ck_secret :: bytes
  ck_stored :: string
  ck_hash :: stored_hash
  ck_known :: bool
  ck_refused :: "key_error option"

datatype entered = Answered "(key_error, check_result) result" | Deriving check

definition passed :: "parsed_key \<Rightarrow> check_result" where
  "passed k = \<lparr>res_Lookup = pk_lookup k, res_Rehash = '''', res_Replaces = ''''\<rparr>"

definition no_key :: parsed_key where
  "no_key = \<lparr>pk_lookup = '''', pk_secret = ''''\<rparr>"

text \<open>A store's error: its text, and the error of this package it wraps.\<close>

type_synonym store_error = "string \<times> key_error option"

text \<open>
  The check prepared for its derive: which hash it runs against and with which secret. The
  store answers \<open>Inl\<close> its error, or the stored string if it found one.
\<close>

definition prepare :: "scheme \<Rightarrow> (string \<Rightarrow> (store_error, string option) result) \<Rightarrow> string \<Rightarrow> (key_error, check) result" where
  "prepare s lookup key =
     (case parse_key s key of
        Inl _ \<Rightarrow> Inr \<lparr>ck_key = no_key, ck_secret = replicate secretLen (CHR 0x00), ck_stored = '''',
                      ck_hash = s_dummy s, ck_known = False, ck_refused = None\<rparr>
      | Inr k \<Rightarrow> (case lookup (pk_lookup k) of
          Inl (text, wraps) \<Rightarrow> Inl (ErrUnavailable text wraps)
        | Inr None \<Rightarrow> Inr \<lparr>ck_key = k, ck_secret = pk_secret k, ck_stored = '''',
                           ck_hash = s_dummy s, ck_known = False, ck_refused = None\<rparr>
        | Inr (Some stored) \<Rightarrow> (case decodeStored s stored of
            Inl e \<Rightarrow> Inr \<lparr>ck_key = k, ck_secret = pk_secret k, ck_stored = stored,
                          ck_hash = s_dummy s, ck_known = False, ck_refused = Some e\<rparr>
          | Inr st \<Rightarrow> Inr \<lparr>ck_key = k, ck_secret = pk_secret k, ck_stored = stored,
                           ck_hash = st, ck_known = True, ck_refused = None\<rparr>)))"

text \<open>\<open>Verify\<close> up to the derive slot.\<close>

definition verify_enter :: "('l \<Rightarrow> gotime \<Rightarrow> string \<Rightarrow> (bool \<times> duration) \<times> 'l) \<Rightarrow> (bytes \<Rightarrow> bytes) \<Rightarrow>
    (string \<Rightarrow> (store_error, string option) result) \<Rightarrow> 'l verifier \<Rightarrow> gotime \<Rightarrow> string \<Rightarrow> string \<Rightarrow> entered \<times> 'l verifier" where
  "verify_enter allows sha256 lookup vf now caller key =
     (if caller = '''' then (Answered (Inl ErrNoCaller), vf)
      else case allows (v_limiter vf) now caller of
        ((False, after), l) \<Rightarrow> (Answered (Inl (ErrLimited after)), vf\<lparr>v_limiter := l\<rparr>)
      | ((True, _), l) \<Rightarrow>
          let vf1 = vf\<lparr>v_limiter := l\<rparr> in
          (case prepare (v_scheme vf1) lookup key of
             Inl e \<Rightarrow> (Answered (Inl e), vf1)
           | Inr ck \<Rightarrow>
               if ck_known ck \<and> (case v_cache vf1 of None \<Rightarrow> False
                    | Some c \<Rightarrow> hit sha256 c now (pk_lookup (ck_key ck)) (ck_stored ck) (pk_secret (ck_key ck)))
               then (Answered (Inr (passed (ck_key ck))), vf1)
               else if int (v_used vf1) < v_cap vf1 then (Deriving ck, vf1\<lparr>v_used := v_used vf1 + 1\<rparr>)
               else (Answered (Inl (ErrBusy (v_busyAfter vf1))), vf1)))"

type_synonym derive_call = "bytes \<times> bytes \<times> params \<times> nat"

definition derive_call_of :: "check \<Rightarrow> derive_call" where
  "derive_call_of ck = (ck_secret ck, sh_salt (ck_hash ck), sh_params (ck_hash ck), length (sh_tag (ck_hash ck)) mod 2 ^ 32)"

definition run_derive :: "scheme \<Rightarrow> derive_call \<Rightarrow> bytes" where
  "run_derive s d = (case d of (secret, salt, p, n) \<Rightarrow> derive s secret salt p n)"

text \<open>\<open>Verify\<close> from the derive slot on; the slot is given back whatever happens.\<close>

definition verify_finish :: "(bytes \<Rightarrow> bytes) \<Rightarrow> ((string, cache_entry) gomap \<Rightarrow> string list) \<Rightarrow> string option \<Rightarrow> bytes option
    \<Rightarrow> 'l verifier \<Rightarrow> gotime \<Rightarrow> check \<Rightarrow> ((key_error, check_result) result \<times> derive_call list) \<times> 'l verifier" where
  "verify_finish sha256 order ctx_err rand vf now ck =
     (let s = v_scheme vf; vf1 = vf\<lparr>v_used := v_used vf - 1\<rparr>; k = ck_key ck; st = ck_hash ck; d = derive_call_of ck in
      case ctx_err of
        Some e \<Rightarrow> ((Inl (ErrContext e), []), vf1)
      | None \<Rightarrow>
          let match = (run_derive s d = sh_tag st) in
          (case ck_refused ck of
             Some e \<Rightarrow> ((Inl e, [d]), vf1)
           | None \<Rightarrow>
               if \<not> ck_known ck \<or> \<not> match then ((Inl ErrInvalid, [d]), vf1)
               else case rehashTo s (sh_params st) of
                 (to, True) \<Rightarrow> (case rand of
                    None \<Rightarrow> ((Inr (passed k), [d]), vf1)
                  | Some salt \<Rightarrow> ((Inr ((passed k)\<lparr>res_Rehash := hashWith s k salt to, res_Replaces := ck_stored ck\<rparr>),
                       [d, (pk_secret k, salt, to, tagLen)]), vf1))
               | (_, False) \<Rightarrow> (case v_cache vf1 of
                    None \<Rightarrow> ((Inr (passed k), [d]), vf1)
                  | Some c \<Rightarrow> ((Inr (passed k), [d]),
                      vf1\<lparr>v_cache := Some (put sha256 order c now (pk_lookup k) (ck_stored ck) (pk_secret k))\<rparr>))))"

definition verify :: "('l \<Rightarrow> gotime \<Rightarrow> string \<Rightarrow> (bool \<times> duration) \<times> 'l) \<Rightarrow> (bytes \<Rightarrow> bytes) \<Rightarrow>
    ((string, cache_entry) gomap \<Rightarrow> string list) \<Rightarrow> (string \<Rightarrow> (store_error, string option) result) \<Rightarrow> string option \<Rightarrow> bytes option
    \<Rightarrow> 'l verifier \<Rightarrow> gotime \<Rightarrow> string \<Rightarrow> string \<Rightarrow> ((key_error, check_result) result \<times> derive_call list) \<times> 'l verifier" where
  "verify allows sha256 order lookup ctx_err rand vf now caller key =
     (case verify_enter allows sha256 lookup vf now caller key of
        (Answered r, vf1) \<Rightarrow> ((r, []), vf1)
      | (Deriving ck, vf1) \<Rightarrow> verify_finish sha256 order ctx_err rand vf1 now ck)"

section \<open>Errors\<close>

text \<open>The errors an error is, outermost first: what \<open>errors.Is\<close> and \<open>errors.As\<close> go through.\<close>

fun err_chain :: "key_error \<Rightarrow> key_error list" where
  "err_chain (ErrUnavailable text (Some e)) = ErrUnavailable text (Some e) # err_chain e"
| "err_chain e = [e]"

fun carried_delay :: "key_error \<Rightarrow> duration option" where
  "carried_delay (ErrLimited d) = Some d"
| "carried_delay (ErrBusy d) = Some d"
| "carried_delay _ = None"

definition retryAfter :: "key_error \<Rightarrow> duration option" where
  "retryAfter e = (case List.map_filter carried_delay (err_chain e) of [] \<Rightarrow> None | d # _ \<Rightarrow> Some d)"

fun is_limited :: "key_error \<Rightarrow> bool" where
  "is_limited (ErrLimited d) = True"
| "is_limited _ = False"

text \<open>\<open>ErrContext\<close> holds what \<open>ctx.Err\<close> answers: cancelled or deadline exceeded.\<close>

fun is_unavailable :: "key_error \<Rightarrow> bool" where
  "is_unavailable (ErrBusy d) = True"
| "is_unavailable (ErrUnavailable text wraps) = True"
| "is_unavailable (ErrContext text) = True"
| "is_unavailable _ = False"

definition httpStatus :: "key_error option \<Rightarrow> nat" where
  "httpStatus err = (case err of
       None \<Rightarrow> 200
     | Some e \<Rightarrow>
         if ErrInvalid \<in> set (err_chain e) then 401
         else if list_ex is_limited (err_chain e) then 429
         else if list_ex is_unavailable (err_chain e) then 503
         else 500)"

lemmas verifier_eval [eval_simps] = hit_def put_def evict.simps cache_len_def defaultMaxDerives_def
  defaultBusyRetryAfter_def defaultCacheSize_def newVerifier_def passed_def no_key_def prepare_def
  verify_enter_def derive_call_of_def run_derive_def verify_finish_def verify_def retryAfter_def httpStatus_def map_filter_simps

section \<open>The cache remembers only what it was told\<close>

text \<open>
  What the verifier relies on: a remembered success is recalled for its own lookup part and
  stored string only, for a secret of the same digest, and never past its time.
\<close>

locale success_memo =
  fixes recall :: "'c \<Rightarrow> gotime \<Rightarrow> string \<Rightarrow> string \<Rightarrow> bytes \<Rightarrow> bool"
    and remember :: "'c \<Rightarrow> gotime \<Rightarrow> string \<Rightarrow> string \<Rightarrow> bytes \<Rightarrow> 'c"
    and digest :: "bytes \<Rightarrow> bytes" and memo_ok :: "'c \<Rightarrow> bool"
  assumes ok_remember: "memo_ok c \<Longrightarrow> memo_ok (remember c t l st sec)"
    and recall_remember: "memo_ok c \<Longrightarrow> recall (remember c t l st sec) now l' st' sec' \<Longrightarrow>
      recall c now l' st' sec' \<or> (l' = l \<and> st' = st \<and> digest sec' = digest sec)"
begin

definition vouched :: "(string \<Rightarrow> string \<Rightarrow> bytes \<Rightarrow> bool) \<Rightarrow> 'c \<Rightarrow> bool" where
  "vouched P c \<longleftrightarrow> memo_ok c \<and>
     (\<forall>now l st sec. recall c now l st sec \<longrightarrow> (\<exists>sec'. digest sec' = digest sec \<and> P l st sec'))"

lemma vouched_remember: "vouched P c \<Longrightarrow> P l st sec \<Longrightarrow> vouched P (remember c t l st sec)"
  unfolding vouched_def using ok_remember recall_remember by metis

lemma vouched_recall: "vouched P c \<Longrightarrow> recall c now l st sec \<Longrightarrow> \<exists>sec'. digest sec' = digest sec \<and> P l st sec'"
  unfolding vouched_def by blast

end

definition range_order :: "((string, cache_entry) gomap \<Rightarrow> string list) \<Rightarrow> bool" where
  "range_order order \<longleftrightarrow> (\<forall>m. set (order m) = set (mkeys m))"

definition cache_ok :: "success_cache \<Rightarrow> bool" where
  "cache_ok c \<longleftrightarrow> gomap_ok (sc_entries c) \<and> 0 < sc_size c"

lemma gomap_ok_evict [simp, intro]: "gomap_ok m \<Longrightarrow> gomap_ok (evict b ks m)"
  by (induction b ks m rule: evict.induct) simp_all

lemma mget_evict: "mget (evict b ks m) l = Some e \<Longrightarrow> mget m l = Some e"
  by (induction b ks m rule: evict.induct) (auto simp: gomap_simps split: if_splits)

lemma mkeys_mdel: "set (mkeys (mdel m k)) = set (mkeys m) - {k}"
  using mget_None_iff [of "mdel m k"] mget_None_iff [of m] by (auto simp: gomap_simps) metis+

lemma evict_length:
  "gomap_ok m \<Longrightarrow> set (mkeys m) \<subseteq> set ks \<Longrightarrow> 0 < b \<Longrightarrow> int (length (evict b ks m)) < b"
proof (induction b ks m rule: evict.induct)
  case (1 b m)
  then show ?case by (simp add: mkeys_def)
next
  case (2 b k ks m)
  then show ?case by (auto simp: mkeys_mdel)
qed

lemma put_entries:
  assumes "cache_ok c" "mget (sc_entries (put sha256 order c t l st sec)) l' = Some e"
  shows "(l' = l \<and> e = \<lparr>ce_stored = st, ce_digest = sha256 sec, ce_expires = t + sc_ttl c\<rparr>)
    \<or> (l' \<noteq> l \<and> mget (sc_entries c) l' = Some e)"
  using assms
  by (auto simp: put_def Let_def gomap_simps cache_ok_def split: if_splits option.splits dest!: mget_evict)

lemma cache_ok_put: "cache_ok c \<Longrightarrow> cache_ok (put sha256 order c t l st sec)"
  by (auto simp: cache_ok_def put_def Let_def)

interpretation successes: success_memo "hit sha256" "put sha256 order" sha256 cache_ok for sha256 order
proof
  show "hit sha256 c now l' st' sec' \<or> l' = l \<and> st' = st \<and> sha256 sec' = sha256 sec"
    if c: "cache_ok c" and h: "hit sha256 (put sha256 order c t l st sec) now l' st' sec'" for c t l st sec now l' st' sec'
  proof -
    obtain e where e: "mget (sc_entries (put sha256 order c t l st sec)) l' = Some e"
      "now < ce_expires e" "ce_stored e = st'" "ce_digest e = sha256 sec'"
      using h by (auto simp: hit_def split: option.splits)
    from put_entries [OF c e(1)] e show ?thesis by (auto simp: hit_def)
  qed
qed (rule cache_ok_put)

lemma cache_bound:
  assumes "cache_ok c" "range_order order" "int (cache_len c) \<le> sc_size c"
  shows "int (cache_len (put sha256 order c t l st sec)) \<le> sc_size c"
proof -
  let ?live = "mkeep (\<lambda>_ e. t < ce_expires e) (sc_entries c)"
  have "int (length (evict (sc_size c) (order ?live) ?live)) < sc_size c"
    using assms(1,2) by (intro evict_length) (auto simp: cache_ok_def range_order_def)
  then show ?thesis
    using assms(3) by (auto simp: cache_len_def put_def Let_def length_mput)
qed

text \<open>
  the cache never holds more than its size, whatever order the language ranges over it
  in; a success it is given is recalled until exactly its time, for that stored string, and
  forgetting makes room only when the cache is full.
\<close>

theorem cache_bounded:
  assumes "cache_ok c" "range_order order" "int (cache_len c) \<le> sc_size c"
  shows "int (cache_len (put sha256 order c t l st sec)) \<le> sc_size c
    \<and> (hit sha256 (put sha256 order c t l st sec) now l st sec \<longleftrightarrow> now < t + sc_ttl c)
    \<and> (int (cache_len c) < sc_size c \<and> l' \<noteq> l \<longrightarrow>
         mget (sc_entries (put sha256 order c t l st sec)) l' = mget (sc_entries c) l')"
  by (intro conjI cache_bound assms) (auto simp: put_def hit_def cache_len_def Let_def gomap_simps)

definition demo_cache :: success_cache where
  "demo_cache = \<lparr>sc_ttl = 10, sc_size = 1, sc_entries = [(''L1'', \<lparr>ce_stored = ''h'', ce_digest = ''d'', ce_expires = 5\<rparr>)]\<rparr>"

theorem cache_bounded_witness:
  "int (cache_len (put id mkeys demo_cache 3 ''L2'' ''h2'' ''s2'')) \<le> 1
   \<and> hit id (put id mkeys demo_cache 3 ''L2'' ''h2'' ''s2'') 12 ''L2'' ''h2'' ''s2''"
proof -
  have "cache_ok demo_cache" "range_order mkeys" "int (cache_len demo_cache) \<le> sc_size demo_cache"
    by (simp_all add: cache_ok_def range_order_def demo_cache_def cache_len_def gomap_ok_def)
  from cache_bounded [OF this, of id 3 "''L2''" "''h2''" "''s2''" 12 "''''"] show ?thesis
    by (simp add: demo_cache_def)
qed

section \<open>Only a known, matching key passes\<close>

text \<open>The secret is the one the stored string was made from, as far as the derivation tells.\<close>

definition key_matches :: "scheme \<Rightarrow> string \<Rightarrow> bytes \<Rightarrow> bool" where
  "key_matches s stored secret \<longleftrightarrow> (case decodeStored s stored of
     Inl _ \<Rightarrow> False | Inr st \<Rightarrow> derive s secret (sh_salt st) (sh_params st) (length (sh_tag st)) = sh_tag st)"

definition verifier_inv :: "(bytes \<Rightarrow> bytes) \<Rightarrow> 'l verifier \<Rightarrow> bool" where
  "verifier_inv sha256 vf \<longleftrightarrow> scheme_ok (v_scheme vf) \<and> 0 < v_cap vf \<and> int (v_used vf) \<le> v_cap vf \<and> 0 < v_busyAfter vf
     \<and> (case v_cache vf of None \<Rightarrow> True | Some c \<Rightarrow> int (cache_len c) \<le> sc_size c
          \<and> successes.vouched sha256 (\<lambda>l st sec. key_matches (v_scheme vf) st sec) c)"

definition prepared :: "scheme \<Rightarrow> check \<Rightarrow> bool" where
  "prepared s ck \<longleftrightarrow> (ck_known ck \<longrightarrow> decodeStored s (ck_stored ck) = Inr (ck_hash ck)
     \<and> ck_secret ck = pk_secret (ck_key ck) \<and> ck_refused ck = None)"

lemma newVerifier_inv:
  assumes "newVerifier made s has_lookup c = Inr vf" "scheme_ok s"
  shows "verifier_inv sha256 vf \<and> v_scheme vf = s \<and> v_used vf = 0"
proof -
  have n: "has_lookup" "0 \<le> MaxDerives c" "0 \<le> BusyRetryAfter c" "0 \<le> CacheTTL c" "0 \<le> CacheSize c"
    using assms(1) by (auto simp: newVerifier_def split: if_splits)
  from assms n show ?thesis
    by (auto simp: newVerifier_def verifier_inv_def successes.vouched_def cache_ok_def hit_def cache_len_def
        defaultMaxDerives_def defaultBusyRetryAfter_def defaultCacheSize_def split: if_splits option.splits sum.splits)
qed

lemma prepare_prepared: "prepare s lookup key = Inr ck \<Longrightarrow> prepared s ck"
  by (auto simp: prepare_def prepared_def split: sum.splits option.splits)

lemma prepare_known:
  assumes "prepare s lookup key = Inr ck" "ck_known ck"
  shows "parse_key s key = Inr (ck_key ck) \<and> lookup (pk_lookup (ck_key ck)) = Inr (Some (ck_stored ck))"
  using assms by (auto simp: prepare_def split: sum.splits option.splits)

lemma decoded_tag_length: "decodeStored s h = Inr st \<Longrightarrow> length (sh_tag st) mod 2 ^ 32 = length (sh_tag st)"
  unfolding decodeStored_iff by (simp add: tagLen_def)

lemma prepared_match:
  assumes "prepared s ck" "ck_known ck"
  shows "run_derive s (derive_call_of ck) = sh_tag (ck_hash ck) \<longleftrightarrow> key_matches s (ck_stored ck) (pk_secret (ck_key ck))"
  using assms decoded_tag_length
  by (auto simp: prepared_def run_derive_def derive_call_of_def key_matches_def)

text \<open>What entering a check does to the verifier, and what it has prepared when it derives.\<close>

lemma enter_effect:
  assumes "verify_enter allows sha256 lookup vf now caller key = (r, vf')"
  shows "v_scheme vf' = v_scheme vf \<and> v_cap vf' = v_cap vf \<and> v_busyAfter vf' = v_busyAfter vf \<and> v_cache vf' = v_cache vf
    \<and> v_used vf' = (case r of Answered _ \<Rightarrow> v_used vf | Deriving _ \<Rightarrow> v_used vf + 1)
    \<and> (case r of Answered _ \<Rightarrow> True
       | Deriving ck \<Rightarrow> prepare (v_scheme vf) lookup key = Inr ck \<and> int (v_used vf) < v_cap vf)"
  using assms
  by (auto simp: verify_enter_def Let_def split: if_splits prod.splits bool.splits sum.splits)

lemma enter_accepts:
  assumes "verify_enter allows sha256 lookup vf now caller key = (Answered (Inr res), vf')"
  obtains ck c where "prepare (v_scheme vf) lookup key = Inr ck" "ck_known ck" "v_cache vf = Some c"
    "hit sha256 c now (pk_lookup (ck_key ck)) (ck_stored ck) (pk_secret (ck_key ck))" "res = passed (ck_key ck)"
  using assms
  by (auto simp: verify_enter_def Let_def split: if_splits prod.splits bool.splits sum.splits option.splits)

lemma finish_accepts:
  assumes "verify_finish sha256 order ctx rand vf now ck = ((Inr res, ds), vf')" "prepared (v_scheme vf) ck"
  shows "ck_known ck \<and> key_matches (v_scheme vf) (ck_stored ck) (pk_secret (ck_key ck))
    \<and> res_Lookup res = pk_lookup (ck_key ck)"
proof -
  have kn: "ck_known ck" and d: "run_derive (v_scheme vf) (derive_call_of ck) = sh_tag (ck_hash ck)"
    and l: "res_Lookup res = pk_lookup (ck_key ck)"
    using assms(1) by (auto simp: verify_finish_def Let_def passed_def split: if_splits prod.splits bool.splits option.splits)
  with prepared_match [OF assms(2) kn] show ?thesis by simp
qed

lemma inv_enter:
  assumes "verifier_inv sha256 vf" "verify_enter allows sha256 lookup vf now caller key = (r, vf')"
  shows "verifier_inv sha256 vf'"
  using assms(1) enter_effect [OF assms(2)] by (cases r) (auto simp: verifier_inv_def split: option.splits)

lemma inv_finish:
  assumes i: "verifier_inv sha256 vf" and o: "range_order order" and p: "prepared (v_scheme vf) ck"
    and f: "verify_finish sha256 order ctx rand vf now ck = (r, vf')"
  shows "verifier_inv sha256 vf' \<and> v_scheme vf' = v_scheme vf \<and> v_cap vf' = v_cap vf \<and> v_used vf' = v_used vf - 1"
proof -
  have still: "verifier_inv sha256 (vf\<lparr>v_used := v_used vf - 1\<rparr>)"
    using i by (auto simp: verifier_inv_def split: option.splits)
  consider (same) "vf' = vf\<lparr>v_used := v_used vf - 1\<rparr>"
    | (put) c where "v_cache vf = Some c" "key_matches (v_scheme vf) (ck_stored ck) (pk_secret (ck_key ck))"
        "vf' = vf\<lparr>v_used := v_used vf - 1,
           v_cache := Some (put sha256 order c now (pk_lookup (ck_key ck)) (ck_stored ck) (pk_secret (ck_key ck)))\<rparr>"
    using f prepared_match [OF p]
    by (auto simp: verify_finish_def Let_def split: if_splits prod.splits bool.splits option.splits)
  then show ?thesis
  proof cases
    case same
    with still show ?thesis by simp
  next
    case put
    have c: "cache_ok c" "int (cache_len c) \<le> sc_size c"
        "successes.vouched sha256 (\<lambda>l st sec. key_matches (v_scheme vf) st sec) c"
      using i put(1) by (auto simp: verifier_inv_def successes.vouched_def)
    have sz: "sc_size (put sha256 order c t l st sec) = sc_size c" for t l st sec
      by (simp add: put_def Let_def)
    from still put c successes.vouched_remember [OF c(3) put(2)] cache_bound [OF c(1) o c(2)] sz show ?thesis
      by (simp add: verifier_inv_def)
  qed
qed

text \<open>
  Checks in flight at once: each step enters a check, answers one without a derive, or
  finishes one that holds a slot. The store, the clock, the context and the random source may
  answer differently at every step.
\<close>

type_synonym 'l flight = "'l verifier \<times> check list"

inductive flight_step :: "('l \<Rightarrow> gotime \<Rightarrow> string \<Rightarrow> (bool \<times> duration) \<times> 'l) \<Rightarrow> (bytes \<Rightarrow> bytes) \<Rightarrow> 'l flight \<Rightarrow> 'l flight \<Rightarrow> bool"
  for allows sha256 where
  answer: "verify_enter allows sha256 lookup vf now caller key = (Answered r, vf') \<Longrightarrow>
     flight_step allows sha256 (vf, cks) (vf', cks)"
| start: "verify_enter allows sha256 lookup vf now caller key = (Deriving ck, vf') \<Longrightarrow>
     flight_step allows sha256 (vf, cks) (vf', ck # cks)"
| finish: "ck \<in> set cks \<Longrightarrow> range_order order \<Longrightarrow>
     verify_finish sha256 order ctx rand vf now ck = (r, vf') \<Longrightarrow>
     flight_step allows sha256 (vf, cks) (vf', remove1 ck cks)"

inductive_cases flight_stepE: "flight_step allows sha256 (vf, cks) fl'"

definition flight_inv :: "(bytes \<Rightarrow> bytes) \<Rightarrow> scheme \<Rightarrow> int \<Rightarrow> 'l flight \<Rightarrow> bool" where
  "flight_inv sha256 s cap fl \<longleftrightarrow> (case fl of (vf, cks) \<Rightarrow> verifier_inv sha256 vf \<and> v_scheme vf = s \<and> v_cap vf = cap
     \<and> v_used vf = length cks \<and> list_all (prepared s) cks)"

lemma flight_inv_step:
  assumes "flight_step allows sha256 fl fl'" "flight_inv sha256 s cap fl"
  shows "flight_inv sha256 s cap fl'"
  using assms
proof cases
  case (answer lookup vf now caller key r vf' cks)
  from enter_effect [OF answer(3)] inv_enter [OF _ answer(3)] assms(2) answer show ?thesis
    by (simp add: flight_inv_def)
next
  case (start lookup vf now caller key ck vf' cks)
  from enter_effect [OF start(3)] inv_enter [OF _ start(3)] assms(2) start show ?thesis
    by (auto simp: flight_inv_def prepare_prepared)
next
  case (finish ck cks order ctx rand vf now r vf')
  have p: "prepared (v_scheme vf) ck" "verifier_inv sha256 vf" "list_all (prepared s) cks"
    using assms(2) finish(1,3) by (auto simp: flight_inv_def list_all_iff)
  have "list_all (prepared s) (remove1 ck cks)" using p(3) by (auto simp: list_all_iff dest: notin_set_remove1)
  with inv_finish [OF p(2) finish(4) p(1) finish(5)] assms(2) finish(1,2,3) show ?thesis
    by (auto simp: flight_inv_def length_remove1)
qed

lemma flight_inv_reachable:
  "(flight_step allows sha256)\<^sup>*\<^sup>* fl fl' \<Longrightarrow> flight_inv sha256 s cap fl \<Longrightarrow> flight_inv sha256 s cap fl'"
  by (induction rule: rtranclp_induct) (auto intro: flight_inv_step)

lemma flight_inv_new:
  assumes "newVerifier made s has_lookup c = Inr vf" "scheme_ok s"
  shows "flight_inv sha256 s (v_cap vf) (vf, [])"
  using newVerifier_inv [OF assms, of sha256] by (simp add: flight_inv_def)

text \<open>
  C17: however checks of one verifier are interleaved, and whatever the store, the clock and
  the contexts answer in between, no more derives are in flight than the cap, each of them
  holds exactly one slot, and the cache stays inside its size; when none is in flight every
  slot is free again.
\<close>

theorem derives_in_flight_bounded:
  assumes "newVerifier made s has_lookup c = Inr vf0" "scheme_ok s"
    and "(flight_step allows sha256)\<^sup>*\<^sup>* (vf0, []) (vf, cks)"
  shows "v_used vf = length cks \<and> int (length cks) \<le> v_cap vf0
     \<and> (case v_cache vf of None \<Rightarrow> True | Some ca \<Rightarrow> int (cache_len ca) \<le> sc_size ca)"
proof -
  have "flight_inv sha256 s (v_cap vf0) (vf, cks)"
    using flight_inv_reachable [OF assms(3) flight_inv_new [OF assms(1,2)]] .
  then show ?thesis by (auto simp: flight_inv_def verifier_inv_def split: option.splits)
qed

text \<open>
  C16: whatever checks ran before and are in flight, a check passes only for a key of the
  scheme whose lookup part the store knows, now, with a stored string the scheme accepts, and
  whose secret derives to the stored tag; through the cache, the secret may instead be another
  one with the same SHA-256 digest as one that does.
\<close>

theorem passes_only_matching:
  assumes "newVerifier made s has_lookup c = Inr vf0" "scheme_ok s"
    and "(flight_step allows sha256)\<^sup>*\<^sup>* (vf0, []) (vf, cks)"
    and "verify allows sha256 order lookup ctx rand vf now caller key = ((Inr res, ds), vf')"
  shows "\<exists>k stored sec. parse_key s key = Inr k \<and> lookup (pk_lookup k) = Inr (Some stored) \<and> res_Lookup res = pk_lookup k
     \<and> key_matches s stored sec \<and> (sec = pk_secret k \<or> ds = [] \<and> sha256 sec = sha256 (pk_secret k))"
proof -
  have inv: "verifier_inv sha256 vf" and s: "v_scheme vf = s"
    using flight_inv_reachable [OF assms(3) flight_inv_new [OF assms(1,2)]] by (simp_all add: flight_inv_def)
  obtain e vf1 where en: "verify_enter allows sha256 lookup vf now caller key = (e, vf1)" by (metis prod.exhaust)
  show ?thesis
  proof (cases e)
    case (Answered r)
    with en assms(4) have r: "r = Inr res" "ds = []" by (auto simp: verify_def)
    obtain ck ca where k: "prepare s lookup key = Inr ck" "ck_known ck" "v_cache vf = Some ca"
        "hit sha256 ca now (pk_lookup (ck_key ck)) (ck_stored ck) (pk_secret (ck_key ck))" "res = passed (ck_key ck)"
      using enter_accepts en Answered r s by metis
    have "successes.vouched sha256 (\<lambda>l st sec. key_matches s st sec) ca"
      using inv k(3) s by (simp add: verifier_inv_def)
    from successes.vouched_recall [OF this k(4)] prepare_known [OF k(1,2)] k(5) r show ?thesis
      by (auto simp: passed_def)
  next
    case (Deriving ck)
    note ef = enter_effect [OF en]
    have p: "prepare s lookup key = Inr ck" "v_scheme vf1 = s" using ef Deriving s by simp_all
    have f: "verify_finish sha256 order ctx rand vf1 now ck = ((Inr res, ds), vf')"
      using assms(4) en Deriving by (simp add: verify_def)
    from finish_accepts [OF f] prepare_prepared [OF p(1)] prepare_known [OF p(1)] p show ?thesis by auto
  qed
qed

section \<open>A minted key passes\<close>

lemma minted_prepared:
  assumes "scheme_ok s" "derives_length s" "length buf = lookupBytes + secretBytes + saltLen" "mint s (Some buf) = Inr m"
    and "lookup (Lookup m) = Inr (Some (Hash m))"
  obtains ck where "prepare s lookup (reveal (Key m)) = Inr ck" "ck_known ck" "ck_refused ck = None"
    "pk_lookup (ck_key ck) = Lookup m" "run_derive s (derive_call_of ck) = sh_tag (ck_hash ck)"
    "sh_params (ck_hash ck) = s_mint s"
proof -
  let ?salt = "drop (lookupBytes + secretBytes) buf"
  obtain k where k: "parse_key s (reveal (Key m)) = Inr k" "pk_lookup k = Lookup m"
      "decodeStored s (Hash m) = Inr \<lparr>sh_params = s_mint s, sh_salt = ?salt,
          sh_tag = derive s (pk_secret k) ?salt (s_mint s) tagLen\<rparr>" (is "_ = Inr ?st")
    using minted_read_back [OF assms(1-3)] assms(4) by auto
  have "length (sh_tag ?st) = tagLen" using assms(2) by (simp add: derives_length_def)
  with k assms(5) show ?thesis
    by (intro that [of "\<lparr>ck_key = k, ck_secret = pk_secret k, ck_stored = Hash m, ck_hash = ?st, ck_known = True, ck_refused = None\<rparr>"])
       (simp_all add: prepare_def run_derive_def derive_call_of_def tagLen_def)
qed

text \<open>
  C19: a key that was minted passes every check of a verifier of its scheme while the store
  holds its string, its caller is allowed and a slot is free: the check answers its lookup
  part and asks for no rehash.
\<close>

theorem minted_key_passes:
  assumes "scheme_ok s" "derives_length s" "length buf = lookupBytes + secretBytes + saltLen" "mint s (Some buf) = Inr m"
    and "lookup (Lookup m) = Inr (Some (Hash m))" "v_scheme vf = s" "int (v_used vf) < v_cap vf"
    and "caller \<noteq> ''''" "allows (v_limiter vf) now caller = ((True, after), l)"
  shows "fst (fst (verify allows sha256 order lookup None rand vf now caller (reveal (Key m))))
     = Inr \<lparr>res_Lookup = Lookup m, res_Rehash = '''', res_Replaces = ''''\<rparr>"
proof -
  obtain ck where ck: "prepare s lookup (reveal (Key m)) = Inr ck" "ck_known ck" "ck_refused ck = None"
    "pk_lookup (ck_key ck) = Lookup m" "run_derive s (derive_call_of ck) = sh_tag (ck_hash ck)"
    "sh_params (ck_hash ck) = s_mint s"
    using minted_prepared [where lookup = lookup, OF assms(1-5)] by blast
  have "rehashTo s (s_mint s) = (s_mint s, False)"
    by (simp add: rehashTo_def higher_eq_iff)
  with ck assms(6-9) show ?thesis
    by (simp add: verify_def verify_enter_def verify_finish_def Let_def passed_def split: option.splits)
qed

definition demo_entropy :: bytes where "demo_entropy = replicate 45 (CHR ''r'')"

definition demo_minted :: minted where
  "demo_minted = (case mint demo_scheme (Some demo_entropy) of
     Inr m \<Rightarrow> m | Inl _ \<Rightarrow> \<lparr>Key = \<lparr>secret_v = ''''\<rparr>, Lookup = '''', Hash = ''''\<rparr>)"

definition demo_store :: "string \<Rightarrow> (store_error, string option) result" where
  "demo_store l = (if l = Lookup demo_minted then Inr (Some (Hash demo_minted)) else Inr None)"

definition demo_allows :: "unit \<Rightarrow> gotime \<Rightarrow> string \<Rightarrow> (bool \<times> duration) \<times> unit" where
  "demo_allows l now caller = ((True, 0), l)"

definition demo_verifier :: "unit verifier" where
  "demo_verifier = \<lparr>v_scheme = demo_scheme, v_limiter = (), v_cap = 1, v_used = 0, v_busyAfter = second, v_cache = None\<rparr>"

lemma demo_minted: "mint demo_scheme (Some demo_entropy) = Inr demo_minted"
  by (simp add: demo_minted_def mint_def Let_def)

lemma demo_entropy: "length demo_entropy = lookupBytes + secretBytes + saltLen"
  by (simp add: demo_entropy_def key_format)

lemma demo_verifier_made:
  "newVerifier (Inl LimitNeeds) demo_scheme True
     \<lparr>vc_limiter = Some (), MaxDerives = 1, BusyRetryAfter = 0, CacheTTL = 0, CacheSize = 0\<rparr> = Inr demo_verifier"
  by (simp add: demo_verifier_def newVerifier_def defaultBusyRetryAfter_def)

theorem minted_key_passes_witness:
  "fst (fst (verify demo_allows id mkeys demo_store None None demo_verifier 0 ''10.0.0.1'' (reveal (Key demo_minted))))
     = Inr \<lparr>res_Lookup = Lookup demo_minted, res_Rehash = '''', res_Replaces = ''''\<rparr>"
  by (rule minted_key_passes [OF demo_scheme_ok demo_entropy demo_minted])
     (simp_all add: demo_store_def demo_verifier_def demo_allows_def)

theorem passes_only_matching_witness:
  "\<exists>k stored. parse_key demo_scheme (reveal (Key demo_minted)) = Inr k \<and> demo_store (pk_lookup k) = Inr (Some stored)"
proof -
  obtain ck where ck: "prepare demo_scheme demo_store (reveal (Key demo_minted)) = Inr ck" "ck_known ck" "ck_refused ck = None"
    "pk_lookup (ck_key ck) = Lookup demo_minted" "run_derive demo_scheme (derive_call_of ck) = sh_tag (ck_hash ck)"
    "sh_params (ck_hash ck) = s_mint demo_scheme"
    by (rule minted_prepared [OF demo_scheme_ok demo_entropy demo_minted, of demo_store]) (auto simp: demo_store_def)
  have "rehashTo demo_scheme (s_mint demo_scheme) = (s_mint demo_scheme, False)"
    by (simp add: rehashTo_def higher_eq_iff)
  then have "\<exists>res ds vf'. verify demo_allows id mkeys demo_store None None demo_verifier 0 ''10.0.0.1'' (reveal (Key demo_minted)) = ((Inr res, ds), vf')"
    using ck by (simp add: verify_def verify_enter_def verify_finish_def Let_def demo_verifier_def demo_allows_def)
  then obtain res ds vf' where
      v: "verify demo_allows id mkeys demo_store None None demo_verifier 0 ''10.0.0.1'' (reveal (Key demo_minted)) = ((Inr res, ds), vf')"
    by blast
  from passes_only_matching [OF demo_verifier_made demo_scheme_ok(1) _ v] show ?thesis by blast
qed

theorem derives_in_flight_bounded_witness:
  "\<exists>vf ck. flight_step demo_allows id (demo_verifier, []) (vf, [ck]) \<and> v_used vf = 1 \<and> (1::int) \<le> v_cap demo_verifier"
proof -
  have "parse_key demo_scheme ''no key'' = Inl ErrInvalid"
    by (simp add: parse_key_def demo_scheme_def key_format)
  then have "\<exists>ck vf. verify_enter demo_allows id demo_store demo_verifier 0 ''10.0.0.1'' ''no key'' = (Deriving ck, vf)"
    by (simp add: verify_enter_def Let_def demo_verifier_def demo_allows_def prepare_def)
  then obtain ck vf where "verify_enter demo_allows id demo_store demo_verifier 0 ''10.0.0.1'' ''no key'' = (Deriving ck, vf)"
    by blast
  then have st: "flight_step demo_allows id (demo_verifier, []) (vf, [ck])" by (rule flight_step.start)
  from derives_in_flight_bounded [OF demo_verifier_made demo_scheme_ok(1) r_into_rtranclp [where r = "flight_step demo_allows id", OF st]]
  have "v_used vf = 1 \<and> (1::int) \<le> v_cap demo_verifier" by simp
  with st show ?thesis by blast
qed

section \<open>What a check costs\<close>

lemma prepare_cost:
  assumes "prepare s lookup key = Inr ck" "scheme_ok s"
  shows "length (ck_secret ck) = secretLen \<and> length (sh_tag (ck_hash ck)) = tagLen
    \<and> (\<not> ck_known ck \<longrightarrow> ck_hash ck = s_dummy s \<and> sh_params (ck_hash ck) = s_mint s)
    \<and> (ck_known ck \<longrightarrow> atLeast_params (sh_params (ck_hash ck)) (s_floor s) \<and> atLeast_params (s_ceiling s) (sh_params (ck_hash ck)))"
proof -
  have k: "length (pk_secret k) = secretLen" if "parse_key s key = Inr k" for k
    using that by (simp only: key_shape_iff)
  have t: "length (sh_tag st) = tagLen \<and> atLeast_params (sh_params st) (s_floor s) \<and> atLeast_params (s_ceiling s) (sh_params st)"
    if "decodeStored s h = Inr st" for h st
    using that by (simp only: decodeStored_iff)
  have d: "sh_params (s_dummy s) = s_mint s" "length (sh_tag (s_dummy s)) = tagLen"
    using assms(2) by (simp_all add: scheme_ok_def)
  show ?thesis
    using assms(1) k t d by (auto simp: prepare_def split: sum.splits option.splits)
qed

lemma finish_derives:
  assumes "verify_finish sha256 order ctx rand vf now ck = ((r, ds), vf')"
  shows "case r of Inl e \<Rightarrow> ds = (if ctx = None then [derive_call_of ck] else [])
    | Inr res \<Rightarrow> ctx = None \<and> (ds = [derive_call_of ck]
        \<or> (\<exists>salt to. rehashTo (v_scheme vf) (sh_params (ck_hash ck)) = (to, True)
             \<and> res_Rehash res = hashWith (v_scheme vf) (ck_key ck) salt to
             \<and> ds = [derive_call_of ck, (pk_secret (ck_key ck), salt, to, tagLen)]))"
  using assms
  by (auto simp: verify_finish_def Let_def split: sum.splits if_splits prod.splits bool.splits option.splits)

text \<open>
  C18: past the limit and the slot, and unless its context has ended, a check that is refused
  has run exactly one derive, of a 32-byte secret to a 32-byte tag: at the parameters of the
  stored string, inside the scheme's bounds, when the key was known, and at the minted
  parameters against the dummy hash when it was unknown, malformed or its stored string was
  refused. A check that passes runs that one derive, and one more only where it hands back a
  rehash.
\<close>

theorem one_derive_per_check:
  assumes "scheme_ok (v_scheme vf)"
    and "verify_enter allows sha256 lookup vf now caller key = (Deriving ck, vf1)"
    and "verify_finish sha256 order None rand vf1 now ck = ((r, ds), vf')"
  shows "ds \<noteq> [] \<and> hd ds = (ck_secret ck, sh_salt (ck_hash ck), sh_params (ck_hash ck), tagLen)
    \<and> length (ck_secret ck) = secretLen
    \<and> (if ck_known ck then atLeast_params (sh_params (ck_hash ck)) (s_floor (v_scheme vf))
                              \<and> atLeast_params (s_ceiling (v_scheme vf)) (sh_params (ck_hash ck))
       else ck_hash ck = s_dummy (v_scheme vf) \<and> sh_params (ck_hash ck) = s_mint (v_scheme vf) \<and> \<not> is_ok r)
    \<and> (case r of Inl _ \<Rightarrow> length ds = 1
       | Inr res \<Rightarrow> length ds = (if rehashTo (v_scheme vf) (sh_params (ck_hash ck)) = (sh_params (ck_hash ck), False) \<or> rand = None then 1 else 2))"
proof -
  let ?s = "v_scheme vf"
  have s: "v_scheme vf1 = ?s" and p: "prepare ?s lookup key = Inr ck"
    using enter_effect [OF assms(2)] by simp_all
  note c = prepare_cost [OF p assms(1)]
  have d: "derive_call_of ck = (ck_secret ck, sh_salt (ck_hash ck), sh_params (ck_hash ck), tagLen)"
    using c by (simp add: derive_call_of_def tagLen_def)
  have hd: "ds \<noteq> [] \<and> hd ds = derive_call_of ck"
    using finish_derives [OF assms(3)] by (auto split: sum.splits)
  have nok: "\<not> is_ok r" if "\<not> ck_known ck"
    using that assms(3) by (auto simp: verify_finish_def Let_def split: option.splits)
  have "case r of Inl _ \<Rightarrow> length ds = 1
       | Inr res \<Rightarrow> length ds = (if rehashTo ?s (sh_params (ck_hash ck)) = (sh_params (ck_hash ck), False) \<or> rand = None then 1 else 2)"
    using assms(3) s
    by (auto simp: verify_finish_def Let_def rehashTo_def split: if_splits prod.splits bool.splits option.splits)
  with c d hd nok show ?thesis by auto
qed

theorem one_derive_per_check_witness:
  "\<exists>r ds vf'. verify demo_allows id mkeys demo_store None None demo_verifier 0 ''10.0.0.1'' ''no key'' = ((r, ds), vf')
     \<and> \<not> is_ok r \<and> length ds = 1"
proof -
  have "parse_key demo_scheme ''no key'' = Inl ErrInvalid"
    by (simp add: parse_key_def demo_scheme_def key_format)
  then have "\<exists>ck vf. \<not> ck_known ck \<and> verify_enter demo_allows id demo_store demo_verifier 0 ''10.0.0.1'' ''no key'' = (Deriving ck, vf)"
    by (simp add: verify_enter_def Let_def demo_verifier_def demo_allows_def prepare_def)
  then obtain ck vf where e: "verify_enter demo_allows id demo_store demo_verifier 0 ''10.0.0.1'' ''no key'' = (Deriving ck, vf)"
    and k: "\<not> ck_known ck" by blast
  obtain r ds vf' where f: "verify_finish id mkeys None None vf 0 ck = ((r, ds), vf')" by (metis prod.exhaust)
  have "scheme_ok (v_scheme demo_verifier)" using demo_scheme_ok by (simp add: demo_verifier_def)
  from one_derive_per_check [OF this e f] k e f show ?thesis
    by (cases r) (auto simp: verify_def)
qed

section \<open>Refusals for load carry a delay\<close>

lemma decodeStored_error: "decodeStored s h = Inl e \<Longrightarrow> \<exists>x. e = ErrStoredHash x"
  by (auto simp: decodeStored_def Let_def split: if_splits option.splits)

lemma prepare_errors:
  "prepare s lookup key = Inl e \<Longrightarrow> \<exists>m wr. e = ErrUnavailable m wr"
  "prepare s lookup key = Inr ck \<Longrightarrow> ck_refused ck = Some e \<Longrightarrow> \<exists>x. e = ErrStoredHash x"
  by (auto simp: prepare_def dest: decodeStored_error split: sum.splits option.splits)

lemma finish_refuses:
  "verify_finish sha256 order ctx rand vf now ck = ((Inl e, ds), vf') \<Longrightarrow>
     (\<exists>m. e = ErrContext m \<and> ds = []) \<or> ck_refused ck = Some e \<and> length ds = 1 \<or> e = ErrInvalid \<and> length ds = 1"
  by (auto simp: verify_finish_def Let_def split: if_splits prod.splits bool.splits option.splits)

lemma enter_refuses:
  "verify_enter allows sha256 lookup vf now caller key = (Answered (Inl e), vf') \<Longrightarrow>
     e = ErrNoCaller \<or> (\<exists>d l. allows (v_limiter vf) now caller = ((False, d), l) \<and> e = ErrLimited d)
     \<or> (\<exists>m wr. e = ErrUnavailable m wr) \<or> e = ErrBusy (v_busyAfter vf) \<and> v_cap vf \<le> int (v_used vf)"
  by (auto simp: verify_enter_def Let_def dest: prepare_errors split: if_splits prod.splits bool.splits sum.splits)

lemma enter_limiter:
  "verify_enter allows sha256 lookup vf now caller key = (r, vf') \<Longrightarrow>
     v_limiter vf' = (if caller = '''' then v_limiter vf else snd (allows (v_limiter vf) now caller))"
  by (auto simp: verify_enter_def Let_def split: if_splits prod.splits bool.splits sum.splits)

lemma finish_limiter: "verify_finish sha256 order ctx rand vf now ck = (r, vf') \<Longrightarrow> v_limiter vf' = v_limiter vf"
  by (auto simp: verify_finish_def Let_def split: if_splits prod.splits bool.splits option.splits)

text \<open>What each refusal says: its delay, its status, and how many derives it ran.\<close>

definition refusal :: "key_error \<Rightarrow> derive_call list \<Rightarrow> duration option \<Rightarrow> nat \<Rightarrow> nat \<Rightarrow> bool" where
  "refusal e ds after status n \<longleftrightarrow> retryAfter e = after \<and> httpStatus (Some e) = status \<and> length ds = n"

lemma refusal_simps:
  "refusal ErrInvalid ds None 401 n \<longleftrightarrow> length ds = n" "refusal (ErrLimited d) ds (Some d) 429 n \<longleftrightarrow> length ds = n"
  "refusal (ErrBusy d) ds (Some d) 503 n \<longleftrightarrow> length ds = n" "refusal (ErrStoredHash x) ds None 500 n \<longleftrightarrow> length ds = n"
  "refusal (ErrUnavailable m None) ds None 503 n \<longleftrightarrow> length ds = n" "refusal ErrNoCaller ds None 500 n \<longleftrightarrow> length ds = n"
  "refusal (ErrContext m) ds None 503 n \<longleftrightarrow> length ds = n"
  by (simp_all add: refusal_def retryAfter_def httpStatus_def map_filter_simps)

lemma unavailable_wraps:
  "retryAfter (ErrUnavailable m (Some e)) = retryAfter e"
  "httpStatus (Some (ErrUnavailable m (Some e))) = (if httpStatus (Some e) \<in> {401, 429} then httpStatus (Some e) else 503)"
  by (auto simp: retryAfter_def httpStatus_def map_filter_simps)

context attempt_limiter
begin

lemma verify_retry:
  assumes inv: "limiter_inv (v_limiter vf)" and busy: "0 < v_busyAfter vf"
    and v: "verify allow_attempt sha256 order lookup ctx rand vf now caller key = ((Inl e, ds), vf')"
  shows "limiter_inv (v_limiter vf') \<and> (case e of
       ErrLimited d \<Rightarrow> fst (allow_attempt (v_limiter vf) now caller) = (False, d) \<and> 0 < d \<and> refusal e ds (Some d) 429 0
     | ErrBusy d \<Rightarrow> v_cap vf \<le> int (v_used vf) \<and> d = v_busyAfter vf \<and> 0 < d \<and> refusal e ds (Some d) 503 0
     | ErrInvalid \<Rightarrow> refusal e ds None 401 1
     | ErrStoredHash x \<Rightarrow> refusal e ds None 500 1
     | ErrContext m \<Rightarrow> refusal e ds None 503 0
     | ErrNoCaller \<Rightarrow> refusal e ds None 500 0
     | ErrUnavailable m None \<Rightarrow> refusal e ds None 503 0
     | ErrUnavailable m (Some e') \<Rightarrow> refusal e ds (retryAfter e') (if httpStatus (Some e') \<in> {401, 429} then httpStatus (Some e') else 503) 0
     | _ \<Rightarrow> False)"
proof -
  obtain en vf1 where en: "verify_enter allow_attempt sha256 lookup vf now caller key = (en, vf1)" by (metis prod.exhaust)
  have l1: "limiter_inv (v_limiter vf1)"
    using enter_limiter [OF en] inv inv_allow [OF inv] by (auto simp: prod_eq_iff)
  show ?thesis
  proof (cases en)
    case (Answered r)
    with v en have r: "r = Inl e" "ds = []" "vf' = vf1" by (auto simp: verify_def)
    from enter_refuses [OF en [unfolded Answered r]] allow_delay [OF inv] busy l1 r show ?thesis
      by (auto simp: refusal_simps split: option.split) (simp_all add: refusal_def unavailable_wraps)
  next
    case (Deriving ck)
    have f: "verify_finish sha256 order ctx rand vf1 now ck = ((Inl e, ds), vf')"
      using v en Deriving by (simp add: verify_def)
    have p: "prepare (v_scheme vf) lookup key = Inr ck" using enter_effect [OF en] Deriving by simp
    from finish_refuses [OF f] prepare_errors(2) [OF p] finish_limiter [OF f] l1 show ?thesis
      by (auto simp: refusal_simps)
  qed
qed

end





section \<open>A rehash replaces the stored string it passed against\<close>

text \<open>
  C20: when a check hands back a rehash, the key passed against the string it replaces, which
  is the one the store answered; the new string is accepted by the scheme, the same secret
  passes against it, no parameter of it is below the old string's or the minted ones, and it
  needs no further rehash.
\<close>

theorem rehash_is_stronger:
  assumes "scheme_ok s" "derives_length s" "length salt = saltLen" "prepare s lookup key = Inr ck"
    and "verify_finish sha256 order ctx (Some salt) vf now ck = ((Inr res, ds), vf')" "v_scheme vf = s"
    and "\<not> atLeast_params (sh_params (ck_hash ck)) (s_mint s)"
  shows "lookup (res_Lookup res) = Inr (Some (res_Replaces res)) \<and> key_matches s (res_Replaces res) (pk_secret (ck_key ck))
    \<and> key_matches s (res_Rehash res) (pk_secret (ck_key ck))
    \<and> (\<exists>st. decodeStored s (res_Rehash res) = Inr st \<and> atLeast_params (sh_params st) (sh_params (ck_hash ck))
         \<and> atLeast_params (sh_params st) (s_mint s) \<and> snd (rehashTo s (sh_params st)) = False)"
proof -
  let ?p = "sh_params (ck_hash ck)" let ?to = "higher ?p (s_mint s)"
  let ?tag = "derive s (pk_secret (ck_key ck)) salt ?to tagLen"
  have due: "rehashTo s ?p = (?to, True)"
    using assms(7) by (simp add: rehashTo_def higher_eq_iff)
  have pr: "prepared (v_scheme vf) ck" using prepare_prepared assms(4,6) by simp
  note acc = finish_accepts [OF assms(5) pr]
  have res: "res_Rehash res = encodeStored ?to salt ?tag" "res_Replaces res = ck_stored ck"
    using assms(5,6) due by (auto simp: verify_finish_def Let_def hashWith_def split: if_splits option.splits)
  have b: "atLeast_params ?p (s_floor s)" "atLeast_params (s_ceiling s) ?p"
    using prepare_cost [OF assms(4,1)] acc by auto
  have len: "length ?tag = tagLen" using assms(2) by (simp add: derives_length_def)
  have dec: "decodeStored s (res_Rehash res) = Inr \<lparr>sh_params = ?to, sh_salt = salt, sh_tag = ?tag\<rparr>"
    unfolding res
  proof (rule decodeStored_encodeStored)
    show "atLeast_params ?to (s_floor s)" using b(1) higher_upper(1) atLeast_params_trans by blast
    show "atLeast_params (s_ceiling s) ?to" using b(2) assms(1) by (simp add: higher_lub scheme_ok_def)
  qed (use assms(3) len in \<open>simp_all add: saltLen_def maxSaltLen_def\<close>)
  have "snd (rehashTo s ?to) = False"
    by (simp add: rehashTo_def higher_eq_iff higher_upper)
  with dec acc res prepare_known [OF assms(4)] assms(6) len higher_upper show ?thesis
    by (auto simp: key_matches_def)
qed

definition old_params :: params where
  "old_params = \<lparr>Memory = 19456, Iterations = 2, Parallelism = 1\<rparr>"

definition raised_scheme :: scheme where
  "raised_scheme = demo_scheme\<lparr>s_mint := \<lparr>Memory = 32768, Iterations = 3, Parallelism = 1\<rparr>,
     s_dummy := \<lparr>sh_params = \<lparr>Memory = 32768, Iterations = 3, Parallelism = 1\<rparr>, sh_salt = demo_salt, sh_tag = demo_tag\<rparr>\<rparr>"

definition old_key :: parsed_key where
  "old_key = \<lparr>pk_lookup = ''00000000'', pk_secret = replicate 32 (CHR ''A'')\<rparr>"

definition old_stored :: string where
  "old_stored = encodeStored old_params demo_salt (derive demo_scheme (pk_secret old_key) demo_salt old_params tagLen)"

definition old_presented :: string where
  "old_presented = ''gmb'' @ [separator] @ pk_lookup old_key @ [separator] @ pk_secret old_key"

theorem rehash_is_stronger_witness:
  "\<exists>res. fst (fst (verify demo_allows id mkeys (\<lambda>_. Inr (Some old_stored)) None (Some demo_salt)
       (demo_verifier\<lparr>v_scheme := raised_scheme\<rparr>) 0 ''10.0.0.1'' old_presented)) = Inr res
     \<and> res_Replaces res = old_stored \<and> key_matches raised_scheme (res_Rehash res) (pk_secret old_key)"
proof -
  let ?lookup = "\<lambda>_::string. Inr (Some old_stored) :: (store_error, string option) result"
  let ?st = "\<lparr>sh_params = old_params, sh_salt = demo_salt, sh_tag = derive demo_scheme (pk_secret old_key) demo_salt old_params tagLen\<rparr>"
  let ?ck = "\<lparr>ck_key = old_key, ck_secret = pk_secret old_key, ck_stored = old_stored, ck_hash = ?st, ck_known = True, ck_refused = None\<rparr>"
  let ?vf = "demo_verifier\<lparr>v_scheme := raised_scheme\<rparr>"
  have s: "scheme_ok raised_scheme" "derives_length raised_scheme"
    using demo_scheme_ok by (simp_all add: raised_scheme_def scheme_ok_def derives_length_def demo_scheme_def demo_salt_def
        demo_tag_def key_format atLeast_params_def defaultParams_def defaultCeiling_def)
  have tag: "length (derive demo_scheme (pk_secret old_key) demo_salt old_params tagLen) = tagLen"
    using demo_scheme_ok(2) by (simp add: derives_length_def)
  have pk: "parse_key raised_scheme old_presented = Inr old_key"
    unfolding key_shape_iff
    by (simp add: raised_scheme_def demo_scheme_def old_presented_def old_key_def key_format lookupAlphabet_def base64_url_def)
  have "decodeStored raised_scheme old_stored = Inr ?st"
    unfolding old_stored_def
    by (rule decodeStored_encodeStored) (use tag in \<open>simp_all add: raised_scheme_def demo_scheme_def old_params_def
        demo_salt_def key_format atLeast_params_def defaultParams_def defaultCeiling_def\<close>)
  with pk have p: "prepare raised_scheme ?lookup old_presented = Inr ?ck" by (simp add: prepare_def)
  have low: "\<not> atLeast_params (sh_params (ck_hash ?ck)) (s_mint raised_scheme)"
    by (simp add: atLeast_params_def old_params_def raised_scheme_def)
  have m: "run_derive raised_scheme (derive_call_of ?ck) = sh_tag (ck_hash ?ck)"
    using tag by (simp add: run_derive_def derive_call_of_def raised_scheme_def tagLen_def)
  have e: "verify_enter demo_allows id ?lookup ?vf 0 ''10.0.0.1'' old_presented = (Deriving ?ck, ?vf\<lparr>v_used := 1\<rparr>)"
    using p by (simp add: verify_enter_def Let_def demo_verifier_def demo_allows_def)
  have "\<exists>res ds vf'. verify_finish id mkeys None (Some demo_salt) (?vf\<lparr>v_used := 1\<rparr>) 0 ?ck = ((Inr res, ds), vf')"
    using m low by (simp add: verify_finish_def Let_def rehashTo_def higher_eq_iff)
  then obtain res ds vf' where f: "verify_finish id mkeys None (Some demo_salt) (?vf\<lparr>v_used := 1\<rparr>) 0 ?ck = ((Inr res, ds), vf')"
    by blast
  have sl: "length demo_salt = saltLen" "v_scheme (?vf\<lparr>v_used := 1\<rparr>) = raised_scheme"
    by (simp_all add: demo_salt_def saltLen_def)
  from rehash_is_stronger [OF s sl(1) p f sl(2) low] e f show ?thesis by (simp add: verify_def)
qed

end
