(* ===== verification/Dpop_Proof.thy ===== *)
theory Dpop_Proof
  imports Encodings
begin

text \<open>
  DPoP proofs of package \<open>dpop\<close> (\<open>src/dpop/dpop.go\<close>): making a proof for one request and
  verifying one. The libraries it calls are arguments: the JWT parser and signer, the JWK
  library (with the JSON rendering of a header), \<open>net/url\<close> and SHA-256. A JWT parser runs the
  caller's key function on the token's header; the key function's captured variable is its
  explicit state. What the code relies on of the parser and the signer is the predicate
  \<open>jwt_contract\<close>.
\<close>

section \<open>Data\<close>

definition headerType :: string where "headerType = ''dpop+jwt''"

datatype dpop_error =
    ErrMalformed | ErrType | ErrKey | ErrSignature | ErrMethod | ErrURL | ErrATH | ErrExpired | ErrMissingNonce
  | ErrRandomID | ErrThumbprint | ErrSign

record proof_claims =
  pc_ID :: string
  pc_IssuedAt :: "gotime option"
  pc_HTM :: string
  pc_HTU :: string
  pc_ATH :: string
  pc_Nonce :: string

record proof_header =
  ph_typ :: "string option"
  ph_jwk :: "string option"

text \<open>
  The JWK library: reading the value of a \<open>jwk\<close> header (its JSON rendering included), asking
  whether it is public and an ECDSA key, its thumbprint, and rendering a public key.
\<close>

record 'k jwk_lib =
  jl_read :: "string \<Rightarrow> 'k option"
  jl_isPublic :: "'k \<Rightarrow> bool"
  jl_isECDSA :: "'k \<Rightarrow> bool"
  jl_thumbprint :: "'k \<Rightarrow> bytes option"
  jl_render :: "'k \<Rightarrow> string option"

text \<open>\<open>net/url\<close>, as far as the source uses it: a parsed URL and how it is written.\<close>

record url =
  u_base :: string
  u_ForceQuery :: bool
  u_RawQuery :: string
  u_Fragment :: string

definition url_String :: "url \<Rightarrow> string" where
  "url_String u = u_base u
     @ (if u_ForceQuery u \<or> u_RawQuery u \<noteq> '''' then ''?'' @ u_RawQuery u else '''')
     @ (if u_Fragment u \<noteq> '''' then ''#'' @ u_Fragment u else '''')"

datatype 'e jwt_failure = KeyFunc 'e | OtherFailure

section \<open>Helpers\<close>

definition accessTokenHash :: "(bytes \<Rightarrow> bytes) \<Rightarrow> string \<Rightarrow> string" where
  "accessTokenHash sha256 accessToken = base64_encode base64_url (sha256 accessToken)"

definition thumbprintOf :: "'k jwk_lib \<Rightarrow> 'k \<Rightarrow> (dpop_error, string) result" where
  "thumbprintOf jl pub = (case jl_thumbprint jl pub of
       None \<Rightarrow> Inl ErrThumbprint | Some tp \<Rightarrow> Inr (base64_encode base64_url tp))"

definition normalizeHTU :: "(string \<Rightarrow> url option) \<Rightarrow> string \<Rightarrow> (dpop_error, string) result" where
  "normalizeHTU url_parse raw = (case url_parse raw of
       None \<Rightarrow> Inl ErrMalformed
     | Some u \<Rightarrow> Inr (url_String (u\<lparr>u_RawQuery := '''', u_Fragment := ''''\<rparr>)))"

definition randomID :: "bytes option \<Rightarrow> (dpop_error, string) result" where
  "randomID rand = (case rand of None \<Rightarrow> Inl ErrRandomID | Some b \<Rightarrow> Inr (base64_encode base64_url b))"

definition keyFromHeader :: "'k jwk_lib \<Rightarrow> proof_header \<Rightarrow> (dpop_error, 'k \<times> string) result" where
  "keyFromHeader jl h = (case ph_jwk h of
       None \<Rightarrow> Inl ErrKey
     | Some raw \<Rightarrow> (case jl_read jl raw of
         None \<Rightarrow> Inl ErrKey
       | Some jwk \<Rightarrow>
           if \<not> jl_isPublic jl jwk then Inl ErrKey
           else if \<not> jl_isECDSA jl jwk then Inl ErrKey
           else (case jl_thumbprint jl jwk of
             None \<Rightarrow> Inl ErrKey
           | Some tp \<Rightarrow> Inr (jwk, base64_encode base64_url tp))))"

definition publicJWKHeader :: "'k jwk_lib \<Rightarrow> 'k \<Rightarrow> (dpop_error, string) result" where
  "publicJWKHeader jl pub = (case jl_render jl pub of None \<Rightarrow> Inl ErrKey | Some d \<Rightarrow> Inr d)"

text \<open>
  \<open>strings.EqualFold\<close>, rune by rune: ASCII letters, and the two runes outside ASCII that fold
  into it (the long s and the Kelvin sign). Exact when one of the strings is ASCII, as a
  request method is.
\<close>

definition fold_rune :: "nat \<Rightarrow> nat" where
  "fold_rune r = (if 65 \<le> r \<and> r \<le> 90 then r + 32 else if r = 0x17F then 115 else if r = 0x212A then 107 else r)"

definition equal_fold :: "string \<Rightarrow> string \<Rightarrow> bool" where
  "equal_fold s t \<longleftrightarrow> map fold_rune (runes s) = map fold_rune (runes t)"

section \<open>Making a proof\<close>

text \<open>
  \<open>GenerateProof\<close>. \<open>pub\<close> is the key's public half, \<open>sign\<close> the ES256 signer with the private
  one; \<open>strings.ToUpper\<close> is \<open>ascii_upper\<close>, exact on the ASCII of a request method; a numeric
  date keeps whole seconds.
\<close>

definition numeric_date :: "gotime \<Rightarrow> gotime" where
  "numeric_date t = t - t mod second"

definition generateProof :: "'k jwk_lib \<Rightarrow> (string \<Rightarrow> url option) \<Rightarrow> (bytes \<Rightarrow> bytes) \<Rightarrow>
    ('k \<Rightarrow> proof_header \<Rightarrow> proof_claims \<Rightarrow> string option) \<Rightarrow> 'k \<Rightarrow> bytes option \<Rightarrow> gotime
    \<Rightarrow> string \<Rightarrow> string \<Rightarrow> string \<Rightarrow> string \<Rightarrow> (dpop_error, string) result" where
  "generateProof jl url_parse sha256 sign pub rand now meth requestURL accessToken nonce =
     (case normalizeHTU url_parse requestURL of Inl e \<Rightarrow> Inl e | Inr htu \<Rightarrow>
      case randomID rand of Inl e \<Rightarrow> Inl e | Inr jti \<Rightarrow>
      let c = \<lparr>pc_ID = jti, pc_IssuedAt = Some (numeric_date now), pc_HTM = ascii_upper meth, pc_HTU = htu,
               pc_ATH = (if accessToken \<noteq> '''' then accessTokenHash sha256 accessToken else ''''), pc_Nonce = nonce\<rparr> in
      case publicJWKHeader jl pub of Inl e \<Rightarrow> Inl e | Inr jwk \<Rightarrow>
      case sign pub \<lparr>ph_typ = Some headerType, ph_jwk = Some jwk\<rparr> c of None \<Rightarrow> Inl ErrSign | Some p \<Rightarrow> Inr p)"

section \<open>Verifying a proof\<close>

record proof_result =
  pr_Thumbprint :: string
  pr_JTI :: string
  pr_Nonce :: string

record verify_options =
  vo_Method :: string
  vo_URL :: string
  vo_AccessToken :: string
  vo_MaxAge :: duration
  vo_Leeway :: duration
  vo_RequireNonce :: bool

text \<open>The key function of \<open>Verify\<close>, with the captured thumbprint as its state.\<close>

definition proof_keyfunc :: "'k jwk_lib \<Rightarrow> proof_header \<Rightarrow> string \<Rightarrow> (dpop_error, 'k) result \<times> string" where
  "proof_keyfunc jl h tp =
     (if (case ph_typ h of None \<Rightarrow> '''' | Some t \<Rightarrow> t) \<noteq> headerType then (Inl ErrType, tp)
      else case keyFromHeader jl h of
        Inl e \<Rightarrow> (Inl e, tp)
      | Inr (pub, tp') \<Rightarrow> (Inr pub, tp'))"

type_synonym ('k, 'e, 's, 'h, 'c) jwt_parser =
  "('h \<Rightarrow> 's \<Rightarrow> ('e, 'k) result \<times> 's) \<Rightarrow> string \<Rightarrow> 's \<Rightarrow> ('e jwt_failure, 'c) result \<times> 's"

definition dpop_verify :: "'k jwk_lib \<Rightarrow> (string \<Rightarrow> url option) \<Rightarrow> (bytes \<Rightarrow> bytes) \<Rightarrow>
    ('k, dpop_error, string, proof_header, proof_claims) jwt_parser \<Rightarrow> gotime \<Rightarrow> string \<Rightarrow> verify_options
    \<Rightarrow> (dpop_error, proof_result) result" where
  "dpop_verify jl url_parse sha256 parse now proof opt =
     (case parse (proof_keyfunc jl) proof '''' of
        (Inl (KeyFunc e), _) \<Rightarrow> Inl (if e = ErrType \<or> e = ErrKey then e else ErrSignature)
      | (Inl OtherFailure, _) \<Rightarrow> Inl ErrSignature
      | (Inr c, tp) \<Rightarrow>
          if \<not> equal_fold (pc_HTM c) (vo_Method opt) then Inl ErrMethod
          else case normalizeHTU url_parse (vo_URL opt) of
            Inl e \<Rightarrow> Inl e
          | Inr wantHTU \<Rightarrow>
              if pc_HTU c \<noteq> wantHTU then Inl ErrURL
              else if vo_AccessToken opt \<noteq> '''' \<and> pc_ATH c \<noteq> accessTokenHash sha256 (vo_AccessToken opt) then Inl ErrATH
              else case pc_IssuedAt c of
                None \<Rightarrow> Inl ErrExpired
              | Some iat \<Rightarrow>
                  if time_sub now iat > wrap64 (vo_MaxAge opt + vo_Leeway opt) \<or> time_sub iat now > vo_Leeway opt
                  then Inl ErrExpired
                  else if vo_RequireNonce opt \<and> pc_Nonce c = '''' then Inl ErrMissingNonce
                  else Inr \<lparr>pr_Thumbprint = tp, pr_JTI = pc_ID c, pr_Nonce = pc_Nonce c\<rparr>)"

lemmas dpop_eval [eval_simps] = headerType_def url_String_def accessTokenHash_def thumbprintOf_def normalizeHTU_def
  randomID_def keyFromHeader_def publicJWKHeader_def fold_rune_def equal_fold_def numeric_date_def generateProof_def
  proof_keyfunc_def dpop_verify_def

section \<open>What an accepted proof proves\<close>

text \<open>
  The parser reads a header, asks the key function for a key, and answers the claims only of a
  token that verifies under it; it fails otherwise, with the key function's error if there is
  one.
\<close>

definition jwt_contract :: "('k, 'e, 's, 'h, 'c) jwt_parser \<Rightarrow> (string \<Rightarrow> 'h option) \<Rightarrow> ('k \<Rightarrow> string \<Rightarrow> 'c option) \<Rightarrow> bool" where
  "jwt_contract parse header_of checked \<longleftrightarrow> (\<forall>kf s st. parse kf s st =
     (case header_of s of None \<Rightarrow> (Inl OtherFailure, st)
      | Some h \<Rightarrow> (case kf h st of
          (Inl e, st') \<Rightarrow> (Inl (KeyFunc e), st')
        | (Inr k, st') \<Rightarrow> (case checked k s of None \<Rightarrow> (Inl OtherFailure, st') | Some c \<Rightarrow> (Inr c, st')))))"

definition window_ok :: "verify_options \<Rightarrow> bool" where
  "window_ok opt \<longleftrightarrow> 0 \<le> vo_MaxAge opt \<and> 0 \<le> vo_Leeway opt \<and> vo_MaxAge opt + vo_Leeway opt < max_duration"

lemma window_iff:
  assumes "window_ok opt"
  shows "\<not> (time_sub now iat > wrap64 (vo_MaxAge opt + vo_Leeway opt) \<or> time_sub iat now > vo_Leeway opt) \<longleftrightarrow>
    now \<le> iat + vo_MaxAge opt + vo_Leeway opt \<and> iat \<le> now + vo_Leeway opt"
proof -
  have w: "in_int64 (vo_MaxAge opt + vo_Leeway opt)" "in_int64 (vo_Leeway opt)"
    using assms by (auto simp: window_ok_def in_int64_def min_duration_def)
  show ?thesis using assms
    by (auto simp: time_sub_gr_iff [OF w(1)] time_sub_gr_iff [OF w(2)] w(1) window_ok_def)
qed

lemma dpop_verify_accepts:
  "dpop_verify jl url_parse sha256 parse now proof opt = Inr r \<longleftrightarrow>
     (\<exists>c tp iat. parse (proof_keyfunc jl) proof '''' = (Inr c, tp)
        \<and> equal_fold (pc_HTM c) (vo_Method opt) \<and> normalizeHTU url_parse (vo_URL opt) = Inr (pc_HTU c)
        \<and> (vo_AccessToken opt = '''' \<or> pc_ATH c = accessTokenHash sha256 (vo_AccessToken opt))
        \<and> pc_IssuedAt c = Some iat
        \<and> \<not> (time_sub now iat > wrap64 (vo_MaxAge opt + vo_Leeway opt) \<or> time_sub iat now > vo_Leeway opt)
        \<and> (vo_RequireNonce opt \<longrightarrow> pc_Nonce c \<noteq> '''')
        \<and> r = \<lparr>pr_Thumbprint = tp, pr_JTI = pc_ID c, pr_Nonce = pc_Nonce c\<rparr>)"
  by (auto simp: dpop_verify_def split: prod.splits sum.splits jwt_failure.splits option.splits)

lemma proof_keyfunc_ok:
  "proof_keyfunc jl h st = (Inr k, tp) \<longleftrightarrow>
     ph_typ h = Some headerType \<and> (\<exists>raw b. ph_jwk h = Some raw \<and> jl_read jl raw = Some k \<and> jl_isPublic jl k
       \<and> jl_isECDSA jl k \<and> jl_thumbprint jl k = Some b \<and> tp = base64_encode base64_url b)"
  by (auto simp: proof_keyfunc_def keyFromHeader_def headerType_def split: option.splits if_splits)

text \<open>
  C6: an accepted proof is a \<open>dpop+jwt\<close> that verifies under the public ECDSA key in its own
  header, whose thumbprint is the one answered; it names this request's method and its URL
  without query and fragment, the presented access token's hash, and a time of issue no more
  than the leeway ahead and the maximum age and the leeway behind; where a nonce is required
  it carries one.
\<close>

theorem proof_binds_request:
  assumes "jwt_contract parse header_of checked" "window_ok opt"
    and "dpop_verify jl url_parse sha256 parse now proof opt = Inr r"
  shows "\<exists>h raw k b c iat. header_of proof = Some h \<and> ph_typ h = Some headerType \<and> ph_jwk h = Some raw
     \<and> jl_read jl raw = Some k \<and> jl_isPublic jl k \<and> jl_isECDSA jl k \<and> checked k proof = Some c
     \<and> jl_thumbprint jl k = Some b \<and> r = \<lparr>pr_Thumbprint = base64_encode base64_url b, pr_JTI = pc_ID c, pr_Nonce = pc_Nonce c\<rparr>
     \<and> equal_fold (pc_HTM c) (vo_Method opt) \<and> normalizeHTU url_parse (vo_URL opt) = Inr (pc_HTU c)
     \<and> (vo_AccessToken opt = '''' \<or> pc_ATH c = accessTokenHash sha256 (vo_AccessToken opt))
     \<and> pc_IssuedAt c = Some iat \<and> iat - vo_Leeway opt \<le> now \<and> now \<le> iat + vo_MaxAge opt + vo_Leeway opt
     \<and> (vo_RequireNonce opt \<longrightarrow> pc_Nonce c \<noteq> '''')"
proof -
  obtain c tp iat where p: "parse (proof_keyfunc jl) proof '''' = (Inr c, tp)"
    and o: "equal_fold (pc_HTM c) (vo_Method opt)" "normalizeHTU url_parse (vo_URL opt) = Inr (pc_HTU c)"
        "vo_AccessToken opt = '''' \<or> pc_ATH c = accessTokenHash sha256 (vo_AccessToken opt)" "pc_IssuedAt c = Some iat"
        "vo_RequireNonce opt \<longrightarrow> pc_Nonce c \<noteq> ''''" "r = \<lparr>pr_Thumbprint = tp, pr_JTI = pc_ID c, pr_Nonce = pc_Nonce c\<rparr>"
    and w: "now \<le> iat + vo_MaxAge opt + vo_Leeway opt" "iat \<le> now + vo_Leeway opt"
    using assms(3) window_iff [OF assms(2), of now] unfolding dpop_verify_accepts by metis
  obtain h k where h: "header_of proof = Some h" "proof_keyfunc jl h '''' = (Inr k, tp)" "checked k proof = Some c"
    using p assms(1) [unfolded jwt_contract_def, rule_format, of "proof_keyfunc jl" "proof" "''''"]
    by (auto split: option.splits prod.splits sum.splits)
  from h(2) obtain raw b where "ph_typ h = Some headerType" "ph_jwk h = Some raw" "jl_read jl raw = Some k" "jl_isPublic jl k"
       "jl_isECDSA jl k" "jl_thumbprint jl k = Some b" "tp = base64_encode base64_url b"
    unfolding proof_keyfunc_ok by blast
  with h o w show ?thesis
    by (intro exI [of _ h] exI [of _ raw] exI [of _ k] exI [of _ b] exI [of _ c] exI [of _ iat]) simp
qed

lemma equal_fold_upper:
  assumes "list_all is_ascii s"
  shows "equal_fold (ascii_upper s) s"
proof -
  have a: "is_ascii (upper_char c)" if "is_ascii c" for c
    using that ord_upper_char [of c] by (auto simp: is_ascii_def is_lower_def)
  have f: "fold_rune (ord (upper_char c)) = fold_rune (ord c)" for c
    by (auto simp: ord_upper_char fold_rune_def is_lower_def)
  have u: "list_all is_ascii (ascii_upper s)" using assms a by (simp add: ascii_upper_def list_all_iff)
  show ?thesis using f by (simp add: equal_fold_def runes_ascii [OF assms] runes_ascii [OF u]) (simp add: ascii_upper_def)
qed

text \<open>What is relied on of the signer and the JWK library for a proof to be read back.\<close>

definition signer_contract :: "('k \<Rightarrow> proof_header \<Rightarrow> proof_claims \<Rightarrow> string option) \<Rightarrow> (string \<Rightarrow> proof_header option)
    \<Rightarrow> ('k \<Rightarrow> string \<Rightarrow> proof_claims option) \<Rightarrow> bool" where
  "signer_contract sign header_of checked \<longleftrightarrow>
     (\<forall>k h c p. sign k h c = Some p \<longrightarrow> header_of p = Some h \<and> checked k p = Some c)"

definition jwk_contract :: "'k jwk_lib \<Rightarrow> 'k \<Rightarrow> bool" where
  "jwk_contract jl k \<longleftrightarrow> (\<forall>d. jl_render jl k = Some d \<longrightarrow> jl_read jl d = Some k) \<and> jl_isPublic jl k \<and> jl_isECDSA jl k
     \<and> jl_thumbprint jl k \<noteq> None"

text \<open>What the parser answers on a generated proof.\<close>

lemma generated_proof_parsed:
  assumes "jwt_contract parse header_of checked" "signer_contract sign header_of checked" "jwk_contract jl k"
    and "generateProof jl url_parse sha256 sign k (Some rand) t0 meth requestURL accessToken nonce = Inr pf"
  obtains htu b where "normalizeHTU url_parse requestURL = Inr htu" "jl_thumbprint jl k = Some b"
    "parse (proof_keyfunc jl) pf '''' = (Inr \<lparr>pc_ID = base64_encode base64_url rand, pc_IssuedAt = Some (numeric_date t0),
       pc_HTM = ascii_upper meth, pc_HTU = htu,
       pc_ATH = (if accessToken \<noteq> '''' then accessTokenHash sha256 accessToken else ''''), pc_Nonce = nonce\<rparr>,
       base64_encode base64_url b)"
proof -
  obtain b where b: "jl_thumbprint jl k = Some b" using assms(3) by (auto simp: jwk_contract_def)
  obtain htu d where g: "normalizeHTU url_parse requestURL = Inr htu" "jl_render jl k = Some d"
    "sign k \<lparr>ph_typ = Some headerType, ph_jwk = Some d\<rparr>
       \<lparr>pc_ID = base64_encode base64_url rand, pc_IssuedAt = Some (numeric_date t0),
       pc_HTM = ascii_upper meth, pc_HTU = htu,
       pc_ATH = (if accessToken \<noteq> '''' then accessTokenHash sha256 accessToken else ''''), pc_Nonce = nonce\<rparr> = Some pf"
    using assms(4) by (auto simp: generateProof_def randomID_def publicJWKHeader_def Let_def split: sum.splits option.splits)
  note s = assms(2) [unfolded signer_contract_def, rule_format, OF g(3)]
  have "proof_keyfunc jl \<lparr>ph_typ = Some headerType, ph_jwk = Some d\<rparr> '''' = (Inr k, base64_encode base64_url b)"
    unfolding proof_keyfunc_ok using assms(3) b g(2) by (simp add: jwk_contract_def)
  with s assms(1) [unfolded jwt_contract_def, rule_format, of "proof_keyfunc jl" pf "''''"] g b show ?thesis
    by (intro that) simp_all
qed

text \<open>What \<open>Verify\<close> answers on a generated proof, at any time and with or without a nonce.\<close>

lemma generated_proof_outcome:
  assumes "jwt_contract parse header_of checked" "signer_contract sign header_of checked" "jwk_contract jl k"
    and "generateProof jl url_parse sha256 sign k (Some rand) t0 meth requestURL accessToken nonce = Inr pf"
    and "list_all is_ascii meth" "window_ok opt" "vo_Method opt = meth"
    and "normalizeHTU url_parse (vo_URL opt) = normalizeHTU url_parse requestURL"
    and "vo_AccessToken opt = accessToken" "thumbprintOf jl k = Inr tp"
  shows "dpop_verify jl url_parse sha256 parse now pf opt =
    (if \<not> (numeric_date t0 - vo_Leeway opt \<le> now \<and> now \<le> numeric_date t0 + vo_MaxAge opt + vo_Leeway opt) then Inl ErrExpired
     else if vo_RequireNonce opt \<and> nonce = '''' then Inl ErrMissingNonce
     else Inr \<lparr>pr_Thumbprint = tp, pr_JTI = base64_encode base64_url rand, pr_Nonce = nonce\<rparr>)"
proof -
  obtain htu b where h: "normalizeHTU url_parse requestURL = Inr htu" "jl_thumbprint jl k = Some b"
    and p: "parse (proof_keyfunc jl) pf '''' = (Inr \<lparr>pc_ID = base64_encode base64_url rand, pc_IssuedAt = Some (numeric_date t0),
       pc_HTM = ascii_upper meth, pc_HTU = htu,
       pc_ATH = (if accessToken \<noteq> '''' then accessTokenHash sha256 accessToken else ''''), pc_Nonce = nonce\<rparr>,
       base64_encode base64_url b)"
    using generated_proof_parsed [OF assms(1-4)] by metis
  note w = window_iff [OF assms(6), of now "numeric_date t0"]
  show ?thesis
    using h w equal_fold_upper [OF assms(5)] assms(7-10)
    by (auto simp: dpop_verify_def p thumbprintOf_def simp del: de_Morgan_disj)
qed

text \<open>
  C7: a proof made for a request verifies for that request, answering the thumbprint of its
  key and its own identifier, from the leeway before the second it was made in until the
  maximum age and the leeway after it, and at no other time.
\<close>

theorem generated_proof_verifies:
  assumes "jwt_contract parse header_of checked" "signer_contract sign header_of checked" "jwk_contract jl k"
    and "generateProof jl url_parse sha256 sign k (Some rand) t0 meth requestURL accessToken nonce = Inr pf"
    and "list_all is_ascii meth" "window_ok opt" "vo_Method opt = meth" "vo_URL opt = requestURL"
    and "vo_AccessToken opt = accessToken" "vo_RequireNonce opt \<longrightarrow> nonce \<noteq> ''''"
  shows "if numeric_date t0 - vo_Leeway opt \<le> now \<and> now \<le> numeric_date t0 + vo_MaxAge opt + vo_Leeway opt
     then \<exists>tp. thumbprintOf jl k = Inr tp \<and> dpop_verify jl url_parse sha256 parse now pf opt
            = Inr \<lparr>pr_Thumbprint = tp, pr_JTI = base64_encode base64_url rand, pr_Nonce = nonce\<rparr>
     else dpop_verify jl url_parse sha256 parse now pf opt = Inl ErrExpired"
proof -
  obtain b where "jl_thumbprint jl k = Some b" using assms(3) by (auto simp: jwk_contract_def)
  then have tp: "thumbprintOf jl k = Inr (base64_encode base64_url b)" by (simp add: thumbprintOf_def)
  show ?thesis
    using generated_proof_outcome [OF assms(1-7) _ assms(9) tp, of now] assms(8,10) tp by auto
qed

section \<open>A library that keeps the contracts\<close>

definition run_parser :: "(string \<Rightarrow> 'h option) \<Rightarrow> ('k \<Rightarrow> string \<Rightarrow> 'c option) \<Rightarrow> ('k, 'e, 's, 'h, 'c) jwt_parser" where
  "run_parser header_of checked kf s st =
     (case header_of s of None \<Rightarrow> (Inl OtherFailure, st)
      | Some h \<Rightarrow> (case kf h st of
          (Inl e, st') \<Rightarrow> (Inl (KeyFunc e), st')
        | (Inr k, st') \<Rightarrow> (case checked k s of None \<Rightarrow> (Inl OtherFailure, st') | Some c \<Rightarrow> (Inr c, st'))))"

lemma run_parser_contract: "jwt_contract (run_parser header_of checked) header_of checked"
  by (simp add: jwt_contract_def run_parser_def)

definition demo_jwks :: "nat jwk_lib" where
  "demo_jwks = \<lparr>jl_read = (\<lambda>d. if d = ''jwk'' then Some 7 else None), jl_isPublic = (\<lambda>_. True), jl_isECDSA = (\<lambda>_. True),
     jl_thumbprint = (\<lambda>k. Some ''tp''), jl_render = (\<lambda>k. if k = 7 then Some ''jwk'' else None)\<rparr>"

definition demo_url :: "string \<Rightarrow> url option" where
  "demo_url s = Some \<lparr>u_base = s, u_ForceQuery = False, u_RawQuery = '''', u_Fragment = ''''\<rparr>"

definition demo_proof_header :: proof_header where
  "demo_proof_header = \<lparr>ph_typ = Some headerType, ph_jwk = Some ''jwk''\<rparr>"

text \<open>A proof for \<open>GET http://api/x\<close> with a token \<open>tok\<close>, issued at the given time.\<close>

definition demo_claims :: "gotime \<Rightarrow> proof_claims" where
  "demo_claims iat = \<lparr>pc_ID = base64_encode base64_url ''id'', pc_IssuedAt = Some iat, pc_HTM = ''GET'',
     pc_HTU = ''http://api/x'', pc_ATH = accessTokenHash id ''tok'', pc_Nonce = ''''\<rparr>"

definition demo_header_of :: "string \<Rightarrow> proof_header option" where
  "demo_header_of p = (if p = ''proof'' then Some demo_proof_header else None)"

definition demo_checked :: "gotime \<Rightarrow> nat \<Rightarrow> string \<Rightarrow> proof_claims option" where
  "demo_checked iat k p = (if k = 7 \<and> p = ''proof'' then Some (demo_claims iat) else None)"

definition demo_sign :: "gotime \<Rightarrow> nat \<Rightarrow> proof_header \<Rightarrow> proof_claims \<Rightarrow> string option" where
  "demo_sign iat k h c = (if k = 7 \<and> h = demo_proof_header \<and> c = demo_claims iat then Some ''proof'' else None)"

lemma demo_contracts:
  "signer_contract (demo_sign iat) demo_header_of (demo_checked iat)" "jwk_contract demo_jwks 7"
  by (auto simp: signer_contract_def demo_sign_def demo_header_of_def demo_checked_def jwk_contract_def demo_jwks_def)

definition demo_options :: verify_options where
  "demo_options = \<lparr>vo_Method = ''GET'', vo_URL = ''http://api/x'', vo_AccessToken = ''tok'', vo_MaxAge = minute,
     vo_Leeway = 5 * second, vo_RequireNonce = False\<rparr>"

lemma demo_window: "window_ok demo_options"
  by (simp add: window_ok_def demo_options_def eval_simps)

lemma demo_generated: "generateProof demo_jwks demo_url id (demo_sign 0) 7 (Some ''id'') 5 ''GET'' ''http://api/x'' ''tok'' ''''
    = Inr ''proof''"
  by (simp add: generateProof_def normalizeHTU_def demo_url_def url_String_def randomID_def publicJWKHeader_def demo_jwks_def
      demo_sign_def demo_proof_header_def demo_claims_def numeric_date_def second_def ascii_upper_def upper_char_def is_lower_def ord_def)

lemma demo_method_ascii: "list_all is_ascii ''GET''"
  by (simp add: is_ascii_def ord_def)

theorem generated_proof_verifies_witness:
  "is_ok (dpop_verify demo_jwks demo_url id (run_parser demo_header_of (demo_checked 0)) second ''proof'' demo_options)"
  using generated_proof_verifies [OF run_parser_contract demo_contracts demo_generated demo_method_ascii demo_window, of second]
  by (auto simp: demo_options_def numeric_date_def second_def minute_def)

theorem proof_binds_request_witness:
  "\<exists>r c. dpop_verify demo_jwks demo_url id (run_parser demo_header_of (demo_checked 0)) second ''proof'' demo_options = Inr r
     \<and> demo_checked 0 7 ''proof'' = Some c \<and> pr_JTI r = pc_ID c"
proof -
  obtain c tp where "run_parser demo_header_of (demo_checked 0) (proof_keyfunc demo_jwks) ''proof'' '''' = (Inr c, tp)" "c = demo_claims 0"
    by (simp add: run_parser_def demo_header_of_def demo_proof_header_def proof_keyfunc_def keyFromHeader_def demo_jwks_def demo_checked_def)
  moreover have "\<not> (time_sub second 0 > wrap64 (vo_MaxAge demo_options + vo_Leeway demo_options) \<or> time_sub 0 second > vo_Leeway demo_options)"
    using window_iff [OF demo_window, of second 0] by (simp add: demo_options_def second_def minute_def)
  ultimately have "\<exists>r. dpop_verify demo_jwks demo_url id (run_parser demo_header_of (demo_checked 0)) second ''proof'' demo_options = Inr r"
    by (simp add: dpop_verify_def demo_claims_def demo_options_def equal_fold_def normalizeHTU_def demo_url_def url_String_def)
  then obtain r where r: "dpop_verify demo_jwks demo_url id (run_parser demo_header_of (demo_checked 0)) second ''proof'' demo_options = Inr r"
    by blast
  from proof_binds_request [OF run_parser_contract demo_window r] r show ?thesis
    by (fastforce simp: demo_header_of_def demo_proof_header_def demo_jwks_def split: if_splits)
qed

end
