(* ===== verification/Nonce_Issuer.thy ===== *)
theory Nonce_Issuer
  imports Encodings
begin

text \<open>
  The server nonce of package \<open>nonce\<close> (\<open>src/nonce/nonce.go\<close>): eight bytes of issue time and
  an HMAC over them, in base64url. HMAC-SHA-256 is an argument, of which only the length of
  its output is relied on; the 64-bit time stamps are converted as the source converts them.
\<close>

record issuer =
  n_key :: bytes
  n_ttl :: duration

datatype nonce_error = NonceInvalid | NonceRandom

text \<open>\<open>New\<close>: the key is what the system's randomness answers.\<close>

definition newIssuer :: "bytes option \<Rightarrow> duration \<Rightarrow> (nonce_error, issuer) result" where
  "newIssuer rand ttl = (case rand of None \<Rightarrow> Inl NonceRandom | Some k \<Rightarrow> Inr \<lparr>n_key = k, n_ttl = ttl\<rparr>)"

definition nonce_mac :: "(bytes \<Rightarrow> bytes \<Rightarrow> bytes) \<Rightarrow> issuer \<Rightarrow> bytes \<Rightarrow> bytes" where
  "nonce_mac hmac i payload = hmac (n_key i) payload"

text \<open>\<open>Time.Unix\<close> and its inverse: whole seconds, rounded towards the past.\<close>

definition unix_seconds :: "gotime \<Rightarrow> int" where
  "unix_seconds t = t div second"

definition time_unix :: "int \<Rightarrow> gotime" where
  "time_unix s = s * second"

definition uint64 :: "int \<Rightarrow> nat" where
  "uint64 x = nat (x mod 2 ^ 64)"

definition issue :: "(bytes \<Rightarrow> bytes \<Rightarrow> bytes) \<Rightarrow> issuer \<Rightarrow> gotime \<Rightarrow> string" where
  "issue hmac i now =
     (let payload = be_bytes 8 (uint64 (unix_seconds now))
      in base64_encode base64_url (payload @ nonce_mac hmac i payload))"

definition sha256_size :: nat where "sha256_size = 32"

definition nonce_verify :: "(bytes \<Rightarrow> bytes \<Rightarrow> bytes) \<Rightarrow> issuer \<Rightarrow> gotime \<Rightarrow> string \<Rightarrow> duration \<Rightarrow> (nonce_error, unit) result" where
  "nonce_verify hmac i now nonce leeway =
     (if nonce = '''' then Inl NonceInvalid
      else case base64_decode False base64_url nonce of
        None \<Rightarrow> Inl NonceInvalid
      | Some raw \<Rightarrow>
          if length raw \<noteq> 8 + sha256_size then Inl NonceInvalid
          else let payload = take 8 raw; mac = drop 8 raw in
            if mac \<noteq> nonce_mac hmac i payload then Inl NonceInvalid
            else let issued = time_unix (wrap64 (int (be_value payload))) in
              if time_sub now issued > wrap64 (n_ttl i + leeway) then Inl NonceInvalid
              else Inr ())"

lemmas nonce_eval [eval_simps] = nonce_mac_def unix_seconds_def time_unix_def uint64_def issue_def sha256_size_def
  nonce_verify_def be_bytes.simps

lemma stamp_roundtrip:
  assumes "in_int64 x"
  shows "wrap64 (int (be_value (be_bytes 8 (uint64 x)))) = x"
proof -
  have "uint64 x < 256 ^ 8"
    by (simp add: uint64_def nat_less_iff)
  then have "int (be_value (be_bytes 8 (uint64 x))) = x mod 2 ^ 64"
    by (simp add: be_value_bytes uint64_def)
  moreover have "wrap64 (x mod 2 ^ 64) = wrap64 x"
    unfolding wrap64_def by (simp add: mod_add_left_eq)
  ultimately show ?thesis using assms by simp
qed

lemma nonce_verify_issued:
  assumes "\<And>k m. length (hmac k m) = sha256_size" "in_int64 (unix_seconds t0)"
  shows "nonce_verify hmac i now (issue hmac i t0) leeway =
    (if time_sub now (time_unix (unix_seconds t0)) > wrap64 (n_ttl i + leeway) then Inl NonceInvalid else Inr ())"
proof -
  let ?p = "be_bytes 8 (uint64 (unix_seconds t0))"
  have d: "base64_decode False base64_url (issue hmac i t0) = Some (?p @ nonce_mac hmac i ?p)"
    by (simp add: issue_def Let_def codec_simps)
  have "?p \<noteq> []" by (metis length_be_bytes list.size(3) zero_neq_numeral)
  then have ne: "issue hmac i t0 \<noteq> ''''"
    using d by (auto simp: base64_decode_def)
  have l: "length (?p @ nonce_mac hmac i ?p) = 8 + sha256_size" "take 8 (?p @ nonce_mac hmac i ?p) = ?p"
      "drop 8 (?p @ nonce_mac hmac i ?p) = nonce_mac hmac i ?p"
    using assms(1) by (simp_all add: nonce_mac_def)
  show ?thesis
    unfolding nonce_verify_def d option.case Let_def l stamp_roundtrip [OF assms(2)] using ne by simp
qed

lemma issued_window:
  assumes "\<And>k m. length (hmac k m) = sha256_size" "in_int64 (unix_seconds t0)"
    and "0 \<le> n_ttl i" "0 \<le> leeway" "n_ttl i + leeway < max_duration"
  shows "nonce_verify hmac i now (issue hmac i t0) leeway = Inr () \<longleftrightarrow>
       now \<le> t0 - t0 mod second + n_ttl i + leeway"
proof -
  have e: "time_unix (unix_seconds t0) = t0 - t0 mod second"
    by (simp add: time_unix_def unix_seconds_def minus_mod_eq_div_mult)
  have w: "wrap64 (n_ttl i + leeway) = n_ttl i + leeway" "in_int64 (n_ttl i + leeway)"
    using assms(3-5) by (auto simp: in_int64_def min_duration_def)
  show ?thesis
    using assms(3-5)
    by (auto simp: nonce_verify_issued [OF assms(1,2)] e w(1) time_sub_gr_iff [OF w(2)])
qed

text \<open>
  a nonce is accepted by its issuer exactly until its time to live and the leeway have
  passed since the beginning of the second it was issued in; the 64-bit conversions of the
  stamp lose nothing.
\<close>

theorem nonce_window:
  assumes "\<And>k m. length (hmac k m) = sha256_size" "in_int64 (unix_seconds t0)"
    and "0 \<le> n_ttl i" "0 \<le> leeway" "n_ttl i + leeway < max_duration"
  shows "nonce_verify hmac i now (issue hmac i t0) leeway = Inr () \<longleftrightarrow>
       now \<le> t0 - t0 mod second + n_ttl i + leeway"
  using assms by (rule issued_window)

definition demo_hmac :: "bytes \<Rightarrow> bytes \<Rightarrow> bytes" where
  "demo_hmac k m = take 32 (k @ m @ replicate 32 (CHR ''m''))"

lemma length_demo_hmac: "length (demo_hmac k m) = sha256_size"
  by (auto simp: demo_hmac_def sha256_size_def)

definition demo_issuer :: issuer where
  "demo_issuer = \<lparr>n_key = ''key'', n_ttl = minute\<rparr>"

theorem nonce_window_witness:
  "nonce_verify demo_hmac demo_issuer (65 * second) (issue demo_hmac demo_issuer (second + 5)) (5 * second) = Inr ()
   \<and> nonce_verify demo_hmac demo_issuer (67 * second) (issue demo_hmac demo_issuer (second + 5)) (5 * second) \<noteq> Inr ()"
proof -
  have u: "in_int64 (unix_seconds (second + 5))"
    by (simp add: unix_seconds_def second_def eval_simps)
  have t: "0 \<le> n_ttl demo_issuer" "0 \<le> 5 * second" "n_ttl demo_issuer + 5 * second < max_duration"
    by (simp_all add: demo_issuer_def eval_simps)
  have m: "(second + 5) mod second = 5" by (simp add: second_def)
  from nonce_window [of demo_hmac, OF length_demo_hmac u t, of "65 * second"]
    nonce_window [of demo_hmac, OF length_demo_hmac u t, of "67 * second"] m show ?thesis
    by (simp add: demo_issuer_def minute_def second_def)
qed

text \<open>
  a nonce that is accepted is one the key authenticates: it carries the MAC of its own
  time stamp, under this issuer's key, and the stamp is no older than the time to live and the
  leeway. So only a holder of the key can make one, unless MACs can be forged.
\<close>

theorem nonce_authentic:
  assumes "nonce_verify hmac i now nonce leeway = Inr ()"
  shows "\<exists>stamp. stamp < 2 ^ 64
     \<and> base64_decode False base64_url nonce = Some (be_bytes 8 stamp @ nonce_mac hmac i (be_bytes 8 stamp))
     \<and> time_sub now (time_unix (wrap64 (int stamp))) \<le> wrap64 (n_ttl i + leeway)"
proof -
  obtain raw where raw: "base64_decode False base64_url nonce = Some raw" "length raw = 8 + sha256_size"
      "drop 8 raw = nonce_mac hmac i (take 8 raw)"
      "time_sub now (time_unix (wrap64 (int (be_value (take 8 raw))))) \<le> wrap64 (n_ttl i + leeway)"
    using assms by (auto simp: nonce_verify_def Let_def split: if_splits option.splits)
  have len: "length (take 8 raw) = 8" using raw(2) by simp
  have "be_bytes 8 (be_value (take 8 raw)) = take 8 raw"
    using be_bytes_value [of "take 8 raw"] len by simp
  moreover have "be_value (take 8 raw) < 2 ^ 64"
    using be_value_bound [of "take 8 raw"] len by simp
  ultimately show ?thesis using raw by (metis append_take_drop_id)
qed

theorem nonce_authentic_witness:
  "\<exists>stamp. stamp < 2 ^ 64 \<and> base64_decode False base64_url (issue demo_hmac demo_issuer 0)
     = Some (be_bytes 8 stamp @ nonce_mac demo_hmac demo_issuer (be_bytes 8 stamp))"
proof -
  have u: "in_int64 (unix_seconds 0)" by (simp add: unix_seconds_def eval_simps)
  have "nonce_verify demo_hmac demo_issuer 0 (issue demo_hmac demo_issuer 0) 0 = Inr ()"
    unfolding nonce_verify_issued [of demo_hmac, OF length_demo_hmac u]
    by (simp add: demo_issuer_def eval_simps)
  from nonce_authentic [OF this] show ?thesis by blast
qed

end
