(* ===== verification/Replay_Store.thy ===== *)
theory Replay_Store
  imports Go_Prelude
begin

text \<open>
  The replay cache of package \<open>replay\<close> (\<open>src/replay/replay.go\<close>): the interface \<open>Store\<close> as a
  locale (\<open>once_store\<close>, and \<open>replay_store\<close> and \<open>punctual_store\<close> for stores that are exact), the in-memory store with
  its lazy expiry and periodic sweep, the store backed by Redis, whose \<open>SETNX\<close> is an argument,
  and the choice between the two. All are shown to keep the interface's contract.
\<close>

section \<open>The interface Store\<close>

text \<open>
  \<open>live s jti t\<close> says that the store would still refuse \<open>jti\<close> at the time \<open>t\<close>. What a client
  needs of a store: it says "first seen" of nothing that is live, what it says it of is live for
  its lifetime, and no question makes it forget what is live. Lifetimes are whole milliseconds,
  the unit Redis keeps them in. A question that fails may have recorded its identifier or not.
\<close>

locale once_store =
  fixes check_and_set :: "'s \<Rightarrow> gotime \<Rightarrow> string \<Rightarrow> duration \<Rightarrow> (string, bool) result \<times> 's"
    and live :: "'s \<Rightarrow> string \<Rightarrow> gotime \<Rightarrow> bool"
    and store_ok :: "'s \<Rightarrow> bool"
  assumes ok_kept: "store_ok s \<Longrightarrow> check_and_set s now jti ttl = (r, s') \<Longrightarrow> store_ok s'"
    and live_refused: "store_ok s \<Longrightarrow> live s jti now \<Longrightarrow> check_and_set s now jti ttl \<noteq> (Inr True, s')"
    and new_live: "store_ok s \<Longrightarrow> check_and_set s now jti ttl = (Inr True, s') \<Longrightarrow> ttl mod millisecond = 0 \<Longrightarrow>
      now \<le> t \<Longrightarrow> t < now + ttl \<Longrightarrow> live s' jti t"
    and live_kept: "store_ok s \<Longrightarrow> live s k now \<Longrightarrow> live s k t \<Longrightarrow> now \<le> t \<Longrightarrow> check_and_set s now jti ttl = (r, s') \<Longrightarrow> live s' k t"
begin

text \<open>From \<open>t\<close> on, the identifier is refused until \<open>u\<close>.\<close>

definition held :: "'s \<Rightarrow> string \<Rightarrow> gotime \<Rightarrow> gotime \<Rightarrow> bool" where
  "held s jti t u \<longleftrightarrow> (\<forall>x. t \<le> x \<and> x < u \<longrightarrow> live s jti x)"

lemma held_new:
  "store_ok s \<Longrightarrow> check_and_set s now jti ttl = (Inr True, s') \<Longrightarrow> ttl mod millisecond = 0 \<Longrightarrow> held s' jti now (now + ttl)"
  using new_live by (simp add: held_def)

lemma held_refused: "store_ok s \<Longrightarrow> held s jti t u \<Longrightarrow> t \<le> now \<Longrightarrow> now < u \<Longrightarrow> check_and_set s now jti ttl \<noteq> (Inr True, s')"
  using live_refused by (simp add: held_def)

lemma held_later: "held s jti t u \<Longrightarrow> t \<le> now \<Longrightarrow> held s jti now u"
  by (simp add: held_def)

lemma held_keeps:
  assumes "store_ok s" "held s jti t u" "t \<le> now" "check_and_set s now k ttl = (r, s')"
  shows "held s' jti now u"
  using assms(2,3) live_kept [OF assms(1) _ _ _ assms(4)] unfolding held_def by force

end

text \<open>
  A store that knows exactly what is live: asked at \<open>now\<close> with a lifetime, it answers whether
  the identifier was not live, records it if so, and forgets nothing before its time.
\<close>

locale replay_store =
  fixes check_and_set :: "'s \<Rightarrow> gotime \<Rightarrow> string \<Rightarrow> duration \<Rightarrow> (string, bool) result \<times> 's"
    and live :: "'s \<Rightarrow> string \<Rightarrow> gotime \<Rightarrow> bool"
    and store_ok :: "'s \<Rightarrow> bool"
  assumes ok_set: "store_ok s \<Longrightarrow> check_and_set s now jti ttl = (r, s') \<Longrightarrow> store_ok s'"
    and set_answer: "store_ok s \<Longrightarrow> check_and_set s now jti ttl = (Inr b, s') \<Longrightarrow> b \<longleftrightarrow> \<not> live s jti now"
    and set_records: "store_ok s \<Longrightarrow> check_and_set s now jti ttl = (Inr True, s') \<Longrightarrow> now \<le> t \<Longrightarrow>
      live s' jti t \<longleftrightarrow> t < now + ttl"
    and set_keeps: "store_ok s \<Longrightarrow> check_and_set s now jti ttl = (r, s') \<Longrightarrow> now \<le> t \<Longrightarrow> k \<noteq> jti \<or> r \<noteq> Inr True \<Longrightarrow>
      live s' k t \<longleftrightarrow> live s k t"

sublocale replay_store \<subseteq> once_store check_and_set live store_ok
proof
  show "store_ok s \<Longrightarrow> check_and_set s now jti ttl = (r, s') \<Longrightarrow> store_ok s'" for s now jti ttl r s' by (rule ok_set)
  show "store_ok s \<Longrightarrow> live s jti now \<Longrightarrow> check_and_set s now jti ttl \<noteq> (Inr True, s')" for s jti now ttl s'
    using set_answer by blast
  show "store_ok s \<Longrightarrow> check_and_set s now jti ttl = (Inr True, s') \<Longrightarrow> ttl mod millisecond = 0 \<Longrightarrow> now \<le> t \<Longrightarrow> t < now + ttl \<Longrightarrow>
      live s' jti t" for s now jti ttl s' t using set_records by blast
  show "store_ok s \<Longrightarrow> live s k now \<Longrightarrow> live s k t \<Longrightarrow> now \<le> t \<Longrightarrow> check_and_set s now jti ttl = (r, s') \<Longrightarrow> live s' k t"
    for s k now t jti ttl r s' using set_answer [of s now jti ttl True s'] set_keeps [of s now jti ttl r s' t k] by blast
qed

text \<open>
  A store that is there and forgets on time: what is not live is recorded, for its lifetime
  and no longer.
\<close>

locale punctual_store = once_store +
  assumes new_recorded: "store_ok s \<Longrightarrow> \<not> live s jti now \<Longrightarrow> \<exists>s'. check_and_set s now jti ttl = (Inr True, s')"
    and new_ends: "store_ok s \<Longrightarrow> check_and_set s now jti ttl = (Inr True, s') \<Longrightarrow> 0 \<le> ttl \<Longrightarrow> ttl mod millisecond = 0 \<Longrightarrow> now + ttl \<le> t \<Longrightarrow>
      \<not> live s' jti t"
begin

text \<open>Asked again later, nothing having come between, it says "first seen" exactly after the lifetime.\<close>

lemma seen_again:
  assumes "store_ok s" "check_and_set s now jti ttl = (Inr True, s')" "0 \<le> ttl" "ttl mod millisecond = 0" "now \<le> t"
  shows "(\<exists>s''. check_and_set s' t jti ttl' = (Inr True, s'')) \<longleftrightarrow> now + ttl \<le> t"
proof (cases "now + ttl \<le> t")
  case True
  with new_ends [OF assms(1-4)] new_recorded [OF ok_kept [OF assms(1,2)]] show ?thesis by blast
next
  case False
  with new_live [OF assms(1,2,4,5)] live_refused [OF ok_kept [OF assms(1,2)]] show ?thesis by auto
qed

end

section \<open>Memory\<close>

record memory =
  seen :: "(string, gotime) gomap"
  lastGC :: gotime

definition newMemory :: memory where
  "newMemory = \<lparr>seen = [], lastGC = zero_time\<rparr>"

definition gc :: "memory \<Rightarrow> gotime \<Rightarrow> memory" where
  "gc m now =
     (if time_sub now (lastGC m) < second then m
      else m\<lparr>seen := mkeep (\<lambda>_ exp. now < exp) (seen m), lastGC := now\<rparr>)"

definition checkAndSet :: "memory \<Rightarrow> gotime \<Rightarrow> string \<Rightarrow> duration \<Rightarrow> (string, bool) result \<times> memory" where
  "checkAndSet m now jti ttl =
     (case mget (seen m) jti of
        Some exp \<Rightarrow> if now < exp then (Inr False, m)
                    else (Inr True, gc (m\<lparr>seen := mput (seen m) jti (now + ttl)\<rparr>) now)
      | None \<Rightarrow> (Inr True, gc (m\<lparr>seen := mput (seen m) jti (now + ttl)\<rparr>) now))"

definition refuses :: "memory \<Rightarrow> string \<Rightarrow> gotime \<Rightarrow> bool" where
  "refuses m jti t \<longleftrightarrow> (case mget (seen m) jti of None \<Rightarrow> False | Some exp \<Rightarrow> t < exp)"

definition memory_ok :: "memory \<Rightarrow> bool" where
  "memory_ok m \<longleftrightarrow> gomap_ok (seen m)"

lemma memory_ok_new [simp]: "memory_ok newMemory"
  by (simp add: memory_ok_def newMemory_def)

lemma memory_ok_gc [simp]: "memory_ok m \<Longrightarrow> memory_ok (gc m now)"
  by (simp add: memory_ok_def gc_def)

text \<open>The sweep changes no answer from its time on.\<close>

lemma refuses_gc: "memory_ok m \<Longrightarrow> now \<le> t \<Longrightarrow> refuses (gc m now) k t \<longleftrightarrow> refuses m k t"
  by (auto simp: refuses_def gc_def memory_ok_def gomap_simps split: option.splits)

lemma checkAndSet_unfold:
  "checkAndSet m now jti ttl =
     (if refuses m jti now then (Inr False, m)
      else (Inr True, gc (m\<lparr>seen := mput (seen m) jti (now + ttl)\<rparr>) now))"
  by (auto simp: checkAndSet_def refuses_def split: option.splits)

lemma refuses_put: "refuses (m\<lparr>seen := mput (seen m) jti e\<rparr>) k t \<longleftrightarrow> (if k = jti then t < e else refuses m k t)"
  by (simp add: refuses_def gomap_simps)

interpretation in_memory: replay_store checkAndSet refuses memory_ok
proof
  have put: "memory_ok m \<Longrightarrow> memory_ok (m\<lparr>seen := mput (seen m) jti e\<rparr>)" for m jti e
    by (simp add: memory_ok_def)
  show "memory_ok s \<Longrightarrow> checkAndSet s now jti ttl = (r, s') \<Longrightarrow> memory_ok s'" for s now jti ttl r s'
    using put by (auto simp: checkAndSet_unfold split: if_splits)
  show "memory_ok s \<Longrightarrow> checkAndSet s now jti ttl = (Inr b, s') \<Longrightarrow> b \<longleftrightarrow> \<not> refuses s jti now" for s now jti ttl b s'
    by (auto simp: checkAndSet_unfold split: if_splits)
  show "memory_ok s \<Longrightarrow> checkAndSet s now jti ttl = (Inr True, s') \<Longrightarrow> now \<le> t \<Longrightarrow> refuses s' jti t \<longleftrightarrow> t < now + ttl"
    for s now jti ttl s' t
    by (auto simp: checkAndSet_unfold refuses_gc put refuses_put split: if_splits)
  show "memory_ok s \<Longrightarrow> checkAndSet s now jti ttl = (r, s') \<Longrightarrow> now \<le> t \<Longrightarrow> k \<noteq> jti \<or> r \<noteq> Inr True \<Longrightarrow>
      refuses s' k t \<longleftrightarrow> refuses s k t" for s now jti ttl r s' t k
    by (auto simp: checkAndSet_unfold refuses_gc put refuses_put split: if_splits)
qed

interpretation punctual_memory: punctual_store checkAndSet refuses memory_ok
proof
  show "memory_ok s \<Longrightarrow> \<not> refuses s jti now \<Longrightarrow> \<exists>s'. checkAndSet s now jti ttl = (Inr True, s')" for s jti now ttl
    by (simp add: checkAndSet_unfold)
  show "memory_ok s \<Longrightarrow> checkAndSet s now jti ttl = (Inr True, s') \<Longrightarrow> 0 \<le> ttl \<Longrightarrow> ttl mod millisecond = 0 \<Longrightarrow> now + ttl \<le> t \<Longrightarrow>
      \<not> refuses s' jti t" for s now jti ttl s' t
    using in_memory.set_records [of s now jti ttl s' t] by simp
qed

text \<open>
  The store holds nothing that is past its time by more than a second at the last question
  that was new: the sweep runs at most once a second, and keeps what is still live only.
\<close>

lemma gc_forgets:
  assumes "second \<le> time_sub now (lastGC m)" "memory_ok m"
  shows "mget (seen (gc m now)) k = Some e \<Longrightarrow> now < e"
  using assms by (auto simp: gc_def gomap_simps memory_ok_def split: option.splits if_splits)

section \<open>Redis\<close>

text \<open>
  \<open>Redis.CheckAndSet\<close>: \<open>setnx\<close> is the client's \<open>SetNX\<close> with its result, on whatever state
  the server has.
\<close>

record redis_store =
  prefix :: string

definition newRedis :: redis_store where
  "newRedis = \<lparr>prefix = ''dpop:jti:''\<rparr>"

definition redis_checkAndSet :: "('d \<Rightarrow> gotime \<Rightarrow> string \<Rightarrow> duration \<Rightarrow> (string, bool) result \<times> 'd) \<Rightarrow> redis_store \<Rightarrow>
    'd \<Rightarrow> gotime \<Rightarrow> string \<Rightarrow> duration \<Rightarrow> (string, bool) result \<times> 'd" where
  "redis_checkAndSet setnx r d now jti ttl =
     (case setnx d now (prefix r @ jti) ttl of
        (Inl err, d') \<Rightarrow> (Inl err, d')
      | (Inr ok, d') \<Rightarrow> (Inr ok, d'))"

text \<open>A server whose \<open>SETNX\<close> keeps the contract gives a store that does, under the prefix.\<close>

lemma redis_checkAndSet_eq: "redis_checkAndSet setnx r d now jti ttl = setnx d now (prefix r @ jti) ttl"
  by (auto simp: redis_checkAndSet_def split: prod.splits sum.splits)

lemma redis_is_store:
  assumes "once_store setnx db_live db_ok"
  shows "once_store (redis_checkAndSet setnx r) (\<lambda>d jti t. db_live d (prefix r @ jti) t) db_ok"
proof (unfold_locales, unfold redis_checkAndSet_eq)
  show "db_ok s \<Longrightarrow> setnx s now (prefix r @ jti) ttl = (q, s') \<Longrightarrow> db_ok s'" for s now jti ttl q s'
    by (rule once_store.ok_kept [OF assms])
  show "db_ok s \<Longrightarrow> db_live s (prefix r @ jti) now \<Longrightarrow> setnx s now (prefix r @ jti) ttl \<noteq> (Inr True, s')" for s jti now ttl s'
    by (rule once_store.live_refused [OF assms])
  show "db_ok s \<Longrightarrow> setnx s now (prefix r @ jti) ttl = (Inr True, s') \<Longrightarrow> ttl mod millisecond = 0 \<Longrightarrow> now \<le> t \<Longrightarrow> t < now + ttl \<Longrightarrow>
      db_live s' (prefix r @ jti) t" for s now jti ttl s' t
    by (rule once_store.new_live [OF assms])
  show "db_ok s \<Longrightarrow> db_live s (prefix r @ k) now \<Longrightarrow> db_live s (prefix r @ k) t \<Longrightarrow> now \<le> t \<Longrightarrow>
      setnx s now (prefix r @ jti) ttl = (q, s') \<Longrightarrow> db_live s' (prefix r @ k) t" for s k now t jti ttl q s'
    by (rule once_store.live_kept [OF assms])
qed

lemmas replay_eval [eval_simps] = newMemory_def gc_def checkAndSet_def refuses_def newRedis_def redis_checkAndSet_def

section \<open>Either store\<close>

text \<open>What a gate was built with: memory of its own, or a Redis server others may share.\<close>

datatype ('m, 'r) store_choice = UseMemory 'm | UseRedis 'r

fun choice_checkAndSet :: "('d \<Rightarrow> gotime \<Rightarrow> string \<Rightarrow> duration \<Rightarrow> (string, bool) result \<times> 'd) \<Rightarrow> (memory, 'd) store_choice
    \<Rightarrow> gotime \<Rightarrow> string \<Rightarrow> duration \<Rightarrow> (string, bool) result \<times> (memory, 'd) store_choice" where
  "choice_checkAndSet setnx (UseMemory m) now jti ttl = apsnd UseMemory (checkAndSet m now jti ttl)"
| "choice_checkAndSet setnx (UseRedis d) now jti ttl = apsnd UseRedis (redis_checkAndSet setnx newRedis d now jti ttl)"

fun choice_live :: "('d \<Rightarrow> string \<Rightarrow> gotime \<Rightarrow> bool) \<Rightarrow> (memory, 'd) store_choice \<Rightarrow> string \<Rightarrow> gotime \<Rightarrow> bool" where
  "choice_live db_live (UseMemory m) jti t = refuses m jti t"
| "choice_live db_live (UseRedis d) jti t = db_live d (prefix newRedis @ jti) t"

fun choice_ok :: "('d \<Rightarrow> bool) \<Rightarrow> (memory, 'd) store_choice \<Rightarrow> bool" where
  "choice_ok db_ok (UseMemory m) = memory_ok m"
| "choice_ok db_ok (UseRedis d) = db_ok d"

lemma choice_memory_iff:
  "choice_checkAndSet setnx (UseMemory m) now jti ttl = (r, s') \<longleftrightarrow> (\<exists>m'. s' = UseMemory m' \<and> checkAndSet m now jti ttl = (r, m'))"
  by (cases "checkAndSet m now jti ttl") auto

lemma choice_redis_iff:
  "choice_checkAndSet setnx (UseRedis d) now jti ttl = (r, s') \<longleftrightarrow> (\<exists>d'. s' = UseRedis d' \<and> redis_checkAndSet setnx newRedis d now jti ttl = (r, d'))"
  by (cases "redis_checkAndSet setnx newRedis d now jti ttl") auto

lemma choice_is_store:
  assumes "once_store setnx db_live db_ok"
  shows "once_store (choice_checkAndSet setnx) (choice_live db_live) (choice_ok db_ok)"
proof
  note redis = redis_is_store [OF assms, of newRedis]
  note iffs = choice_memory_iff choice_redis_iff
  show "choice_ok db_ok s \<Longrightarrow> choice_checkAndSet setnx s now jti ttl = (r, s') \<Longrightarrow> choice_ok db_ok s'" for s now jti ttl r s'
    by (cases s) (auto simp: iffs simp del: choice_checkAndSet.simps dest: in_memory.ok_kept once_store.ok_kept [OF redis])
  show "choice_ok db_ok s \<Longrightarrow> choice_live db_live s jti now \<Longrightarrow> choice_checkAndSet setnx s now jti ttl \<noteq> (Inr True, s')"
    for s jti now ttl s'
    by (cases s) (auto simp: iffs simp del: choice_checkAndSet.simps dest: in_memory.live_refused once_store.live_refused [OF redis])
  show "choice_ok db_ok s \<Longrightarrow> choice_checkAndSet setnx s now jti ttl = (Inr True, s') \<Longrightarrow> ttl mod millisecond = 0 \<Longrightarrow> now \<le> t \<Longrightarrow>
      t < now + ttl \<Longrightarrow> choice_live db_live s' jti t" for s now jti ttl s' t
    by (cases s) (auto simp: iffs simp del: choice_checkAndSet.simps dest: in_memory.new_live once_store.new_live [OF redis])
  show "choice_ok db_ok s \<Longrightarrow> choice_live db_live s k now \<Longrightarrow> choice_live db_live s k t \<Longrightarrow> now \<le> t \<Longrightarrow>
      choice_checkAndSet setnx s now jti ttl = (r, s') \<Longrightarrow> choice_live db_live s' k t" for s k now t jti ttl r s'
    by (cases s) (auto simp: iffs simp del: choice_checkAndSet.simps dest: in_memory.live_kept once_store.live_kept [OF redis])
qed

lemma choice_is_punctual:
  assumes "punctual_store setnx db_live db_ok"
  shows "punctual_store (choice_checkAndSet setnx) (choice_live db_live) (choice_ok db_ok)"
proof (intro punctual_store.intro punctual_store_axioms.intro)
  show "once_store (choice_checkAndSet setnx) (choice_live db_live) (choice_ok db_ok)"
    by (rule choice_is_store) (rule punctual_store.axioms(1) [OF assms])
  show "\<exists>s'. choice_checkAndSet setnx s now jti ttl = (Inr True, s')" if "choice_ok db_ok s" "\<not> choice_live db_live s jti now" for s jti now ttl
  proof (cases s)
    case (UseMemory m)
    with that punctual_memory.new_recorded [of m jti now ttl] show ?thesis by auto
  next
    case (UseRedis d)
    with that punctual_store.new_recorded [OF assms, of d "prefix newRedis @ jti" now ttl] show ?thesis by (auto simp: redis_checkAndSet_eq)
  qed
  show "choice_ok db_ok s \<Longrightarrow> choice_checkAndSet setnx s now jti ttl = (Inr True, s') \<Longrightarrow> 0 \<le> ttl \<Longrightarrow> ttl mod millisecond = 0 \<Longrightarrow> now + ttl \<le> t \<Longrightarrow>
      \<not> choice_live db_live s' jti t" for s now jti ttl s' t
    by (cases s) (auto simp: choice_memory_iff choice_redis_iff redis_checkAndSet_eq simp del: choice_checkAndSet.simps
        dest: punctual_memory.new_ends punctual_store.new_ends [OF assms])
qed

section \<open>A server to try\<close>

text \<open>Redis as a list of keys with the time each expires at, kept in whole milliseconds.\<close>

definition listed_live :: "(string \<times> gotime) list \<Rightarrow> string \<Rightarrow> gotime \<Rightarrow> bool" where
  "listed_live d k t \<longleftrightarrow> list_ex (\<lambda>(x, e). x = k \<and> t < e) d"

definition listed_setnx :: "(string \<times> gotime) list \<Rightarrow> gotime \<Rightarrow> string \<Rightarrow> duration \<Rightarrow> (string, bool) result \<times> (string \<times> gotime) list" where
  "listed_setnx d now k ttl = (if listed_live d k now then (Inr False, d) else (Inr True, (k, now + ttl - ttl mod millisecond) # d))"

interpretation listed: punctual_store listed_setnx listed_live "\<lambda>_. True"
proof
  show "listed_setnx s now jti ttl = (Inr True, s') \<Longrightarrow> 0 \<le> ttl \<Longrightarrow> ttl mod millisecond = 0 \<Longrightarrow> now + ttl \<le> t \<Longrightarrow>
      \<not> listed_live s' jti t" for s now jti ttl s' t
    by (force simp: listed_setnx_def listed_live_def list_ex_iff split: if_splits)
qed (auto simp: listed_setnx_def listed_live_def split: if_splits)

end
