(* ===== verification/Jwks_Cache.thy ===== *)
theory Jwks_Cache
  imports Go_Prelude
begin

text \<open>
  The caching client of package \<open>jwks\<close> (\<open>src/jwks/jwks.go\<close>): keys cached for a time to live,
  refreshed when a key id is unknown, at most one attempt per interval, with the
  de-duplication of concurrent refreshes by the cache's stamp. The HTTP exchange and the
  parsing of the key set are arguments. The lemmas show that attempts are spaced under every
  interleaving of requests, that no key is served past the time to live, and that a rotated
  key is picked up.
\<close>

datatype jwks_error =
    UnknownKey string
  | RequestFailed string
  | FetchFailed string
  | UnexpectedStatus nat
  | BodyFailed string
  | ParseFailed

definition defaultMinRefreshInterval :: duration where
  "defaultMinRefreshInterval = 30 * second"

record 'k jwks =
  jw_ttl :: duration
  jw_minInterval :: duration
  jw_keys :: "(string, 'k) gomap"
  jw_fetchedAt :: gotime
  jw_lastAttempt :: gotime

definition withMinRefreshInterval :: "duration \<Rightarrow> 'k jwks \<Rightarrow> 'k jwks" where
  "withMinRefreshInterval d c = c\<lparr>jw_minInterval := d\<rparr>"

definition newJwks :: "duration \<Rightarrow> ('k jwks \<Rightarrow> 'k jwks) list \<Rightarrow> 'k jwks" where
  "newJwks ttl opts = foldl (\<lambda>c opt. opt c)
     \<lparr>jw_ttl = ttl, jw_minInterval = defaultMinRefreshInterval, jw_keys = [], jw_fetchedAt = zero_time,
      jw_lastAttempt = zero_time\<rparr> opts"

definition cached_key :: "'k jwks \<Rightarrow> gotime \<Rightarrow> string \<Rightarrow> 'k option" where
  "cached_key c now kid = (if time_sub now (jw_fetchedAt c) > jw_ttl c then None else mget (jw_keys c) kid)"

text \<open>What the HTTP exchange can answer; the body is read up to one mebibyte.\<close>

datatype http_reply = NoRequest string | NoReply string | Reply nat "(string, bytes) result"

definition key_map :: "(string \<times> 'k) list \<Rightarrow> (string, 'k) gomap" where
  "key_map ks = foldl (\<lambda>m (kid, k). mput m kid k) [] ks"

text \<open>
  \<open>refresh\<close>: \<open>now\<close> is the clock when the lock is held, \<open>fin\<close> when the reply has been read.
  Beside the error, the answer says whether a request was sent or tried.
\<close>

definition refresh :: "(bytes \<Rightarrow> (string \<times> 'k) list option) \<Rightarrow> 'k jwks \<Rightarrow> gotime \<Rightarrow> gotime \<Rightarrow> gotime \<Rightarrow> http_reply
    \<Rightarrow> ((jwks_error, unit) result \<times> bool) \<times> 'k jwks" where
  "refresh unmarshal c seenAt now fin reply =
     (if jw_fetchedAt c \<noteq> seenAt then ((Inr (), False), c)
      else if jw_lastAttempt c \<noteq> zero_time \<and> time_sub now (jw_lastAttempt c) < jw_minInterval c
      then ((Inr (), False), c)
      else let c1 = c\<lparr>jw_lastAttempt := now\<rparr> in
        case reply of
          NoRequest e \<Rightarrow> ((Inl (RequestFailed e), True), c1)
        | NoReply e \<Rightarrow> ((Inl (FetchFailed e), True), c1)
        | Reply status body \<Rightarrow>
            if status \<noteq> 200 then ((Inl (UnexpectedStatus status), True), c1)
            else case body of
              Inl e \<Rightarrow> ((Inl (BodyFailed e), True), c1)
            | Inr b \<Rightarrow> (case unmarshal (take (2 ^ 20) b) of
                None \<Rightarrow> ((Inl ParseFailed, True), c1)
              | Some ks \<Rightarrow> ((Inr (), True), c1\<lparr>jw_keys := key_map ks, jw_fetchedAt := fin\<rparr>)))"

text \<open>
  \<open>Key\<close>, one request on its own: the clock is read at the first look, under the lock, when
  the reply has been read, and at the second look.
\<close>

definition key_for :: "(bytes \<Rightarrow> (string \<times> 'k) list option) \<Rightarrow> 'k jwks \<Rightarrow> gotime \<times> gotime \<times> gotime \<times> gotime \<Rightarrow> http_reply
    \<Rightarrow> string \<Rightarrow> (jwks_error, 'k) result \<times> 'k jwks" where
  "key_for unmarshal c ts reply kid =
     (case ts of (t1, t2, t3, t4) \<Rightarrow>
      case cached_key c t1 kid of
        Some k \<Rightarrow> (Inr k, c)
      | None \<Rightarrow> (case refresh unmarshal c (jw_fetchedAt c) t2 t3 reply of
          ((Inl e, _), c1) \<Rightarrow> (Inl e, c1)
        | ((Inr _, _), c1) \<Rightarrow> (case cached_key c1 t4 kid of
            Some k \<Rightarrow> (Inr k, c1)
          | None \<Rightarrow> (Inl (UnknownKey kid), c1))))"

lemmas jwks_eval [eval_simps] = defaultMinRefreshInterval_def withMinRefreshInterval_def newJwks_def cached_key_def
  key_map_def refresh_def key_for_def

section \<open>Every interleaving spaces its attempts\<close>

text \<open>
  Requests in flight: a request that missed waits for the lock with the stamp it saw; the
  ghost list holds the times of the attempts, the latest first, and the clock does not go
  back.
\<close>

record 'k jwks_flight =
  jf_client :: "'k jwks"
  jf_waiting :: "gotime list"
  jf_attempts :: "gotime list"
  jf_clock :: gotime

inductive jwks_step :: "(bytes \<Rightarrow> (string \<times> 'k) list option) \<Rightarrow> 'k jwks_flight \<Rightarrow> 'k jwks_flight \<Rightarrow> bool"
  for unmarshal where
  tick: "jf_clock f \<le> t \<Longrightarrow> jwks_step unmarshal f (f\<lparr>jf_clock := t\<rparr>)"
| miss: "cached_key (jf_client f) (jf_clock f) kid = None \<Longrightarrow>
     jwks_step unmarshal f (f\<lparr>jf_waiting := jw_fetchedAt (jf_client f) # jf_waiting f\<rparr>)"
| locked: "seenAt \<in> set (jf_waiting f) \<Longrightarrow> jf_clock f \<le> fin \<Longrightarrow>
     refresh unmarshal (jf_client f) seenAt (jf_clock f) fin reply = ((r, asked), c') \<Longrightarrow>
     jwks_step unmarshal f (f\<lparr>jf_client := c', jf_waiting := remove1 seenAt (jf_waiting f), jf_clock := fin,
        jf_attempts := (if asked then [jf_clock f] else []) @ jf_attempts f\<rparr>)"

fun spaced :: "duration \<Rightarrow> gotime list \<Rightarrow> bool" where
  "spaced d [] \<longleftrightarrow> True"
| "spaced d [t] \<longleftrightarrow> True"
| "spaced d (t # u # ts) \<longleftrightarrow> d \<le> t - u \<and> spaced d (u # ts)"

definition jwks_inv :: "duration \<Rightarrow> 'k jwks_flight \<Rightarrow> bool" where
  "jwks_inv d f \<longleftrightarrow> jw_minInterval (jf_client f) = d \<and> zero_time < jf_clock f \<and> spaced d (jf_attempts f)
     \<and> (case jf_attempts f of [] \<Rightarrow> jw_lastAttempt (jf_client f) = zero_time
        | a # _ \<Rightarrow> jw_lastAttempt (jf_client f) = a \<and> zero_time < a \<and> a \<le> jf_clock f)"

lemma refresh_attempt:
  assumes "refresh unmarshal c seenAt now fin reply = ((r, asked), c')"
  shows "jw_minInterval c' = jw_minInterval c \<and> jw_ttl c' = jw_ttl c
    \<and> jw_lastAttempt c' = (if asked then now else jw_lastAttempt c)
    \<and> (asked \<longrightarrow> jw_lastAttempt c = zero_time \<or> jw_minInterval c \<le> time_sub now (jw_lastAttempt c))"
  using assms by (auto simp: refresh_def Let_def split: if_splits http_reply.splits sum.splits option.splits)

lemma jwks_inv_step:
  assumes "jwks_step unmarshal f f'" "jwks_inv d f" "0 \<le> d"
  shows "jwks_inv d f'"
  using assms(1)
proof cases
  case (locked seenAt fin reply r asked c')
  note a = refresh_attempt [OF locked(4)]
  show ?thesis
  proof (cases asked)
    case False
    with assms(2) a locked show ?thesis by (auto simp: jwks_inv_def split: list.splits)
  next
    case True
    have "d \<le> jf_clock f - jw_lastAttempt (jf_client f)" if "jw_lastAttempt (jf_client f) \<noteq> zero_time"
    proof -
      have "jw_lastAttempt (jf_client f) \<le> jf_clock f"
        using assms(2) that by (auto simp: jwks_inv_def split: list.splits)
      moreover have "d \<le> time_sub (jf_clock f) (jw_lastAttempt (jf_client f))"
        using a True that assms(2) by (auto simp: jwks_inv_def)
      ultimately show ?thesis by (auto simp: time_sub_def min_duration_def max_duration_def split: if_splits)
    qed
    with True assms(2) a locked show ?thesis
      by (cases "jf_attempts f") (auto simp: jwks_inv_def)
  qed
qed (use assms(2) in \<open>auto simp: jwks_inv_def split: list.splits\<close>)

lemma spaced_nth:
  "spaced d ts \<Longrightarrow> 0 \<le> d \<Longrightarrow> i < j \<Longrightarrow> j < length ts \<Longrightarrow> d \<le> ts ! i - ts ! j"
proof (induction d ts arbitrary: i j rule: spaced.induct)
  case (3 d t u ts)
  obtain j' where j: "j = Suc j'" using "3.prems"(3) by (cases j) simp_all
  have "0 \<le> u - (u # ts) ! j'"
    using "3.IH" [of 0 j'] "3.prems" j by (cases j') auto
  then show ?case using "3.IH" [of "i - 1" j'] "3.prems" j by (cases i) auto
qed auto

text \<open>
  C8: whatever requests with unknown key ids arrive, however they are interleaved and whatever
  the issuer answers, any two attempts to fetch its keys are at least the minimum interval
  apart.
\<close>

theorem attempts_spaced:
  assumes "(jwks_step unmarshal)\<^sup>*\<^sup>* f0 f" "jwks_inv d f0" "0 \<le> d" "i < j" "j < length (jf_attempts f)"
  shows "d \<le> jf_attempts f ! i - jf_attempts f ! j"
proof -
  have "jwks_inv d f" using assms(1,2)
    by (induction rule: rtranclp_induct) (auto intro: jwks_inv_step [OF _ _ assms(3)])
  then show ?thesis using spaced_nth [of d "jf_attempts f" i j] assms(3-5) by (simp add: jwks_inv_def)
qed

definition started :: "duration \<Rightarrow> gotime \<Rightarrow> nat jwks_flight" where
  "started ttl t = \<lparr>jf_client = newJwks ttl [], jf_waiting = [], jf_attempts = [], jf_clock = t\<rparr>"

lemma started_inv: "zero_time < t \<Longrightarrow> jwks_inv defaultMinRefreshInterval (started ttl t)"
  by (simp add: jwks_inv_def started_def newJwks_def)

theorem attempts_spaced_witness:
  "\<exists>f. (jwks_step (\<lambda>_. None))\<^sup>*\<^sup>* (started minute 0) f \<and> length (jf_attempts f) = 2
     \<and> defaultMinRefreshInterval \<le> jf_attempts f ! 0 - jf_attempts f ! 1"
proof -
  let ?u = "\<lambda>_::bytes. None :: (string \<times> nat) list option"
  let ?c = "newJwks minute [] :: nat jwks"
  let ?f = "\<lambda>c w a t. \<lparr>jf_client = c, jf_waiting = w, jf_attempts = a, jf_clock = t\<rparr> :: nat jwks_flight"
  let ?T = "31 * second"
  have s1: "jwks_step ?u (started minute 0) (?f ?c [zero_time] [] 0)"
    using jwks_step.miss [of "started minute 0" "''k''" ?u] by (simp add: started_def newJwks_def cached_key_def)
  have s2: "jwks_step ?u (?f ?c [zero_time] [] 0) (?f (?c\<lparr>jw_lastAttempt := 0\<rparr>) [] [0] 0)"
    using jwks_step.locked [of zero_time "?f ?c [zero_time] [] 0" 0 ?u "NoReply ''down''"]
    by (simp add: refresh_def newJwks_def)
  have s3: "jwks_step ?u (?f (?c\<lparr>jw_lastAttempt := 0\<rparr>) [] [0] 0) (?f (?c\<lparr>jw_lastAttempt := 0\<rparr>) [] [0] ?T)"
    using jwks_step.tick [of "?f (?c\<lparr>jw_lastAttempt := 0\<rparr>) [] [0] 0" ?T ?u] by (simp add: second_def)
  have s4: "jwks_step ?u (?f (?c\<lparr>jw_lastAttempt := 0\<rparr>) [] [0] ?T) (?f (?c\<lparr>jw_lastAttempt := 0\<rparr>) [zero_time] [0] ?T)"
    using jwks_step.miss [of "?f (?c\<lparr>jw_lastAttempt := 0\<rparr>) [] [0] ?T" "''k''" ?u] by (simp add: newJwks_def cached_key_def)
  have s5: "jwks_step ?u (?f (?c\<lparr>jw_lastAttempt := 0\<rparr>) [zero_time] [0] ?T) (?f (?c\<lparr>jw_lastAttempt := ?T\<rparr>) [] [?T, 0] ?T)"
    using jwks_step.locked [of zero_time "?f (?c\<lparr>jw_lastAttempt := 0\<rparr>) [zero_time] [0] ?T" ?T ?u "NoReply ''down''"]
    by (simp add: refresh_def newJwks_def eval_simps)
  have r: "(jwks_step ?u)\<^sup>*\<^sup>* (started minute 0) (?f (?c\<lparr>jw_lastAttempt := ?T\<rparr>) [] [?T, 0] ?T)"
    using s1 s2 s3 s4 s5 by (meson converse_rtranclp_into_rtranclp rtranclp.rtrancl_refl)
  have d: "0 \<le> defaultMinRefreshInterval" "zero_time < 0" by (simp_all add: defaultMinRefreshInterval_def eval_simps)
  from attempts_spaced [OF r started_inv [OF d(2)] d(1), of 0 1] r show ?thesis
    by (intro exI [of _ "?f (?c\<lparr>jw_lastAttempt := ?T\<rparr>) [] [?T, 0] ?T"]) simp
qed

section \<open>Keys are fresh, and a rotated one is found\<close>

lemma mget_key_map: "mget (key_map ks) kid = map_of (rev ks) kid"
proof -
  have "mget (foldl (\<lambda>m (kid, k). mput m kid k) m ks) kid = (case map_of (rev ks) kid of None \<Rightarrow> mget m kid | Some k \<Rightarrow> Some k)" for m
    by (induction ks arbitrary: m) (auto simp: gomap_simps map_add_def split: option.splits)
  then show ?thesis by (simp add: key_map_def split: option.splits)
qed

lemma key_for_cases:
  assumes "refresh unmarshal c (jw_fetchedAt c) t2 t3 reply = ((r, asked), c1)"
  shows "key_for unmarshal c (t1, t2, t3, t4) reply kid =
    (case cached_key c t1 kid of Some k \<Rightarrow> (Inr k, c)
     | None \<Rightarrow> (case r of Inl e \<Rightarrow> (Inl e, c1)
         | Inr _ \<Rightarrow> (case cached_key c1 t4 kid of Some k \<Rightarrow> (Inr k, c1) | None \<Rightarrow> (Inl (UnknownKey kid), c1))))"
  using assms by (simp add: key_for_def split: option.splits sum.splits)

lemma cached_key_Some: "cached_key c now kid = Some k \<longleftrightarrow> time_sub now (jw_fetchedAt c) \<le> jw_ttl c \<and> mget (jw_keys c) kid = Some k"
  by (auto simp: cached_key_def)

lemma key_served:
  assumes "key_for unmarshal c (t1, t2, t3, t4) reply kid = (Inr k, c')"
  shows "mget (jw_keys c') kid = Some k
     \<and> (c' = c \<and> time_sub t1 (jw_fetchedAt c') \<le> jw_ttl c' \<or> time_sub t4 (jw_fetchedAt c') \<le> jw_ttl c')
     \<and> jw_ttl c' = jw_ttl c"
proof -
  obtain r asked c1 where rf: "refresh unmarshal c (jw_fetchedAt c) t2 t3 reply = ((r, asked), c1)"
    by (metis prod.exhaust)
  have "jw_ttl c1 = jw_ttl c" using refresh_attempt [OF rf] by simp
  with assms show ?thesis
    unfolding key_for_cases [OF rf] by (auto simp: cached_key_Some split: option.splits sum.splits)
qed

text \<open>
  Where a served key comes from: the keys held, looked up within their time to live, or the
  keys of the reply to this request's own fetch, looked up within it.
\<close>

definition key_source :: "(bytes \<Rightarrow> (string \<times> 'k) list option) \<Rightarrow> 'k jwks \<Rightarrow> gotime \<times> gotime \<times> gotime \<times> gotime \<Rightarrow> http_reply
    \<Rightarrow> string \<Rightarrow> 'k \<Rightarrow> bool" where
  "key_source unmarshal c ts reply kid k \<longleftrightarrow>
     (case ts of (t1, t2, t3, t4) \<Rightarrow>
        mget (jw_keys c) kid = Some k \<and> (time_sub t1 (jw_fetchedAt c) \<le> jw_ttl c \<or> time_sub t4 (jw_fetchedAt c) \<le> jw_ttl c)
        \<or> (\<exists>body ks. reply = Reply 200 (Inr body) \<and> unmarshal (take (2 ^ 20) body) = Some ks \<and> map_of (rev ks) kid = Some k
             \<and> time_sub t4 t3 \<le> jw_ttl c))"

lemma refresh_source:
  assumes "refresh unmarshal c seenAt now fin reply = ((Inr (), asked), c')"
  shows "jw_ttl c' = jw_ttl c \<and> (jw_keys c' = jw_keys c \<and> jw_fetchedAt c' = jw_fetchedAt c
    \<or> (\<exists>body ks. reply = Reply 200 (Inr body) \<and> unmarshal (take (2 ^ 20) body) = Some ks \<and> jw_keys c' = key_map ks \<and> jw_fetchedAt c' = fin))"
  using assms by (auto simp: refresh_def Let_def split: if_splits http_reply.splits sum.splits option.splits)

lemma key_served_from:
  assumes "key_for unmarshal c ts reply kid = (Inr k, c')"
  shows "key_source unmarshal c ts reply kid k"
proof -
  obtain t1 t2 t3 t4 where ts: "ts = (t1, t2, t3, t4)" by (metis prod.exhaust)
  obtain r asked c1 where rf: "refresh unmarshal c (jw_fetchedAt c) t2 t3 reply = ((r, asked), c1)" by (metis prod.exhaust)
  show ?thesis
  proof (cases "cached_key c t1 kid")
    case (Some x)
    with assms ts have "x = k" by (simp add: key_for_cases [OF rf])
    with Some ts show ?thesis by (simp add: key_source_def cached_key_Some)
  next
    case None
    with assms ts have "r = Inr ()" "cached_key c1 t4 kid = Some k"
      by (auto simp: key_for_cases [OF rf] split: sum.splits option.splits)
    with refresh_source [of unmarshal c "jw_fetchedAt c" t2 t3 reply asked c1] rf ts show ?thesis
      by (auto simp: key_source_def cached_key_Some mget_key_map)
  qed
qed

text \<open>
  a key is served only from a key set that was fetched no longer than the time to live
  before it was looked up, fail closed: a failed or refused refresh never gives one that has
  outlived it.
\<close>

theorem key_served_fresh:
  assumes "key_for unmarshal c (t1, t2, t3, t4) reply kid = (Inr k, c')"
  shows "mget (jw_keys c') kid = Some k
     \<and> (c' = c \<and> time_sub t1 (jw_fetchedAt c') \<le> jw_ttl c' \<or> time_sub t4 (jw_fetchedAt c') \<le> jw_ttl c')
     \<and> jw_ttl c' = jw_ttl c"
  using assms by (rule key_served)

text \<open>
  a key id that is not in the cache is found by the same request when the issuer has
  published it, the last attempt is the interval past, and the reply is looked up within the
  time to live; of two keys with one id the later counts.
\<close>

theorem rotated_key_found:
  assumes "cached_key c t1 kid = None"
    and "jw_lastAttempt c = zero_time \<or> jw_minInterval c \<le> time_sub t2 (jw_lastAttempt c)"
    and "unmarshal (take (2 ^ 20) body) = Some ks" "map_of (rev ks) kid = Some k" "time_sub t4 t3 \<le> jw_ttl c"
  shows "fst (key_for unmarshal c (t1, t2, t3, t4) (Reply 200 (Inr body)) kid) = Inr k"
proof -
  have rf: "refresh unmarshal c (jw_fetchedAt c) t2 t3 (Reply 200 (Inr body))
      = ((Inr (), True), c\<lparr>jw_lastAttempt := t2, jw_keys := key_map ks, jw_fetchedAt := t3\<rparr>)"
    using assms(2,3) by (auto simp: refresh_def Let_def)
  show ?thesis using assms(1,4,5) by (simp add: key_for_cases [OF rf] cached_key_def mget_key_map)
qed

definition demo_key_set :: "bytes \<Rightarrow> (string \<times> nat) list option" where
  "demo_key_set b = Some [(''k1'', 1), (''k2'', 2)]"

lemma demo_key_found: "key_for demo_key_set (newJwks minute []) (0, 0, 1, 2) (Reply 200 (Inr '''')) ''k2''
    = (Inr 2, \<lparr>jw_ttl = minute, jw_minInterval = defaultMinRefreshInterval, jw_keys = [(''k1'', 1), (''k2'', 2)],
        jw_fetchedAt = 1, jw_lastAttempt = 0\<rparr>)"
  by (simp add: demo_key_set_def eval_simps)

theorem key_served_fresh_witness: "time_sub 2 1 \<le> minute"
  using key_served_fresh [OF demo_key_found] by (auto simp: eval_simps)

theorem rotated_key_found_witness:
  "fst (key_for demo_key_set (newJwks minute []) (0, 0, 1, 2) (Reply 200 (Inr '''')) ''k2'') = Inr 2"
  by (rule rotated_key_found [where ks = "[(''k1'', 1), (''k2'', 2)]"]) (simp_all add: demo_key_set_def eval_simps)

end
