(* ===== verification/Claim_Model.thy ===== *)
theory Claim_Model
  imports Go_Strings
begin

text \<open>
  The claim model of package \<open>claims\<close> (\<open>src/claims/claims.go\<close>): the claims of user and
  service tokens, the delegation chain, and the conversion to the claim map a request's user
  is built from. The embedded registered claims are represented by the fields the sources
  read.
\<close>

definition claimScope :: string where "claimScope = ''scope''"
definition claimLoA :: string where "claimLoA = ''loa''"
definition claimLoginMethod :: string where "claimLoginMethod = ''login_method''"
definition claimName :: string where "claimName = ''name''"
definition claimGivenName :: string where "claimGivenName = ''given_name''"
definition claimFamilyName :: string where "claimFamilyName = ''family_name''"
definition claimSerialNumber :: string where "claimSerialNumber = ''serial_number''"
definition claimClientID :: string where "claimClientID = ''client_id''"
definition claimAct :: string where "claimAct = ''act''"
definition claimTenant :: string where "claimTenant = ''tenant''"
definition serviceSubjectPrefix :: string where "serviceSubjectPrefix = ''svc:''"

lemmas claim_names = claimScope_def claimLoA_def claimLoginMethod_def claimName_def claimGivenName_def
  claimFamilyName_def claimSerialNumber_def claimClientID_def claimAct_def claimTenant_def

record confirmation =
  JKT :: string

datatype actor = Actor (act_Subject: string) (act_Act: "actor option")

text \<open>\<open>Chain\<close>, on a pointer that may be nil.\<close>

fun chain_of :: "actor \<Rightarrow> string list" where
  "chain_of (Actor sub prior) =
     (if sub = '''' then [] else sub # (case prior of None \<Rightarrow> [] | Some a \<Rightarrow> chain_of a))"

definition chain :: "actor option \<Rightarrow> string list" where
  "chain a = (case a of None \<Rightarrow> [] | Some x \<Rightarrow> chain_of x)"

record claims =
  Subject :: string
  Scope :: string
  LoA :: string
  LoginMethod :: string
  Name :: string
  GivenName :: string
  FamilyName :: string
  SerialNumber :: string
  Tenant :: string
  ClientID :: string
  Confirmation :: "confirmation option"
  Act :: "actor option"

definition delegated :: "claims \<Rightarrow> bool" where
  "delegated c \<longleftrightarrow> Act c \<noteq> None"

definition isService :: "claims \<Rightarrow> bool" where
  "isService c \<longleftrightarrow> has_prefix (Subject c) serviceSubjectPrefix"

definition thumbprint :: "claims \<Rightarrow> string" where
  "thumbprint c = (case Confirmation c of None \<Rightarrow> '''' | Some cnf \<Rightarrow> JKT cnf)"

definition scopes :: "claims \<Rightarrow> string list" where
  "scopes c = Go_Strings.fields (Scope c)"

definition set_claim :: "string \<Rightarrow> string \<Rightarrow> (string, string list) gomap \<Rightarrow> (string, string list) gomap" where
  "set_claim k x m = (if x \<noteq> '''' then mput m k [x] else m)"

definition toUserClaims :: "claims \<Rightarrow> (string, string list) gomap" where
  "toUserClaims c =
     (let m0 = [(''sub'', [Subject c])];
          m1 = (if scopes c \<noteq> [] then mput m0 claimScope (scopes c) else m0);
          m2 = set_claim claimLoA (LoA c) m1;
          m3 = set_claim claimLoginMethod (LoginMethod c) m2;
          m4 = set_claim claimName (Name c) m3;
          m5 = set_claim claimGivenName (GivenName c) m4;
          m6 = set_claim claimFamilyName (FamilyName c) m5;
          m7 = set_claim claimSerialNumber (SerialNumber c) m6;
          m8 = set_claim claimTenant (Tenant c) m7;
          m9 = set_claim claimClientID (ClientID c) m8
      in if chain (Act c) \<noteq> [] then mput m9 claimAct (chain (Act c)) else m9)"

text \<open>
  \<open>ActingClient\<close>: a user reads one claim by its name (azugo's \<open>ClaimValue\<close>, an argument);
  \<open>None\<close> is the nil user.
\<close>

definition actingClient :: "(string \<Rightarrow> string) option \<Rightarrow> string" where
  "actingClient u = (case u of
       None \<Rightarrow> ''''
     | Some claimValue \<Rightarrow>
         (let a = trim_space (claimValue claimAct) in
          if a \<noteq> '''' then a else trim_space (claimValue claimClientID)))"

lemmas claims_eval [eval_simps] = claim_names serviceSubjectPrefix_def chain_def delegated_def isService_def
  thumbprint_def scopes_def set_claim_def toUserClaims_def actingClient_def

section \<open>Reading the claim map back\<close>

lemma mget_set_claim: "mget (set_claim k x m) j = (if j = k \<and> x \<noteq> '''' then Some [x] else mget m j)"
  by (simp add: set_claim_def gomap_simps)

text \<open>One value of a claim, the first; the empty string where there is none.\<close>

definition first_claim :: "(string, string list) gomap \<Rightarrow> string \<Rightarrow> string" where
  "first_claim m name = (case mget m name of Some (x # _) \<Rightarrow> x | _ \<Rightarrow> '''')"

lemma toUserClaims_fields:
  "mget (toUserClaims c) ''sub'' = Some [Subject c]"
  "mget (toUserClaims c) claimScope = (if scopes c = [] then None else Some (scopes c))"
  "mget (toUserClaims c) claimLoA = (if LoA c = '''' then None else Some [LoA c])"
  "mget (toUserClaims c) claimLoginMethod = (if LoginMethod c = '''' then None else Some [LoginMethod c])"
  "mget (toUserClaims c) claimName = (if Name c = '''' then None else Some [Name c])"
  "mget (toUserClaims c) claimGivenName = (if GivenName c = '''' then None else Some [GivenName c])"
  "mget (toUserClaims c) claimFamilyName = (if FamilyName c = '''' then None else Some [FamilyName c])"
  "mget (toUserClaims c) claimSerialNumber = (if SerialNumber c = '''' then None else Some [SerialNumber c])"
  "mget (toUserClaims c) claimTenant = (if Tenant c = '''' then None else Some [Tenant c])"
  "mget (toUserClaims c) claimClientID = (if ClientID c = '''' then None else Some [ClientID c])"
  "mget (toUserClaims c) claimAct = (if chain (Act c) = [] then None else Some (chain (Act c)))"
proof -
  have sub: "mget [(''sub'', [Subject c])] n = (if n = ''sub'' then Some [Subject c] else None)" for n
    by (simp add: mget_def)
  note look = toUserClaims_def Let_def mget_set_claim mget_mput sub claim_names
  show "mget (toUserClaims c) ''sub'' = Some [Subject c]" by (simp add: look)
  show "mget (toUserClaims c) claimScope = (if scopes c = [] then None else Some (scopes c))" by (simp add: look)
  show "mget (toUserClaims c) claimLoA = (if LoA c = '''' then None else Some [LoA c])" by (simp add: look)
  show "mget (toUserClaims c) claimLoginMethod = (if LoginMethod c = '''' then None else Some [LoginMethod c])" by (simp add: look)
  show "mget (toUserClaims c) claimName = (if Name c = '''' then None else Some [Name c])" by (simp add: look)
  show "mget (toUserClaims c) claimGivenName = (if GivenName c = '''' then None else Some [GivenName c])" by (simp add: look)
  show "mget (toUserClaims c) claimFamilyName = (if FamilyName c = '''' then None else Some [FamilyName c])" by (simp add: look)
  show "mget (toUserClaims c) claimSerialNumber = (if SerialNumber c = '''' then None else Some [SerialNumber c])" by (simp add: look)
  show "mget (toUserClaims c) claimTenant = (if Tenant c = '''' then None else Some [Tenant c])" by (simp add: look)
  show "mget (toUserClaims c) claimClientID = (if ClientID c = '''' then None else Some [ClientID c])" by (simp add: look)
  show "mget (toUserClaims c) claimAct = (if chain (Act c) = [] then None else Some (chain (Act c)))" by (simp add: look)
qed

lemma chain_nonempty: "list_all (\<lambda>s. s \<noteq> '''') (chain a)"
proof -
  have "list_all (\<lambda>s. s \<noteq> '''') (chain_of x)" for x
    by (induction x rule: chain_of.induct) (auto split: option.splits)
  then show ?thesis by (cases a) (simp_all add: chain_def)
qed

text \<open>
  who brought a request can be told from the user its token was made into: the first of
  the delegation chain when the token is delegated to somebody who is named, else the token's
  own client, else nobody; a person's claim values never stand in for it.
\<close>

theorem acting_client_of_token:
  "actingClient (Some (first_claim (toUserClaims c))) =
     (let a = (case Act c of None \<Rightarrow> '''' | Some x \<Rightarrow> trim_space (act_Subject x))
      in if a \<noteq> '''' then a else trim_space (ClientID c))"
proof -
  have "first_claim (toUserClaims c) claimAct = (case Act c of None \<Rightarrow> '''' | Some x \<Rightarrow> act_Subject x)"
    by (cases "Act c") (auto simp: first_claim_def toUserClaims_fields chain_def elim: chain_of.elims split: list.splits if_splits)
  moreover have "first_claim (toUserClaims c) claimClientID = ClientID c"
    by (auto simp: first_claim_def toUserClaims_fields)
  ultimately show ?thesis by (auto simp: actingClient_def Let_def split: option.splits)
qed

section \<open>The type of a user's claims\<close>

text \<open>Scopes and the delegation chain are lists; every other claim has one value; only the subject may be empty.\<close>

definition claim_ok :: "string \<Rightarrow> string list \<Rightarrow> bool" where
  "claim_ok k vs \<longleftrightarrow> vs \<noteq> [] \<and>
     (if k = ''sub'' then length vs = 1
      else list_all (\<lambda>v. v \<noteq> '''') vs \<and> (k = claimScope \<or> k = claimAct \<or> length vs = 1 \<and> k \<in> set [claimLoA, claimLoginMethod, claimName,
        claimGivenName, claimFamilyName, claimSerialNumber, claimTenant, claimClientID]))"

definition user_claims_ok :: "(string, string list) gomap \<Rightarrow> bool" where
  "user_claims_ok m \<longleftrightarrow> gomap_ok m \<and> list_all (\<lambda>(k, vs). claim_ok k vs) m"

lemma rune_chunks_nonempty: "list_all (\<lambda>(r, b). b \<noteq> []) (rune_chunks s)"
proof (induction s rule: rune_chunks.induct)
  case (2 c s)
  obtain r n where d: "decode_rune (c # s) = (r, n)" by (metis prod.exhaust)
  with decode_rune_width [of c s] have "0 < n" by simp
  with 2 d show ?case by (simp add: Let_def)
qed simp

lemma fields_nonempty: "list_all (\<lambda>w. w \<noteq> []) (Go_Strings.fields s)"
proof -
  have "list_all (\<lambda>(r, b). b \<noteq> []) cs \<Longrightarrow> list_all (\<lambda>w. w \<noteq> []) (fields_acc acc cs)" for acc cs
    by (induction acc cs rule: fields_acc.induct) auto
  with rune_chunks_nonempty show ?thesis by (simp add: Go_Strings.fields_def)
qed

lemma mput_claims_ok: "user_claims_ok m \<Longrightarrow> claim_ok k vs \<Longrightarrow> user_claims_ok (mput m k vs)"
proof -
  assume m: "user_claims_ok m" "claim_ok k vs"
  have "claim_ok j ws" if "(j, ws) \<in> set (mput m k vs)" for j ws
  proof -
    have "gomap_ok (mput m k vs)" using m(1) by (simp add: user_claims_ok_def)
    with that have "mget (mput m k vs) j = Some ws" by (simp add: mget_def gomap_ok_def)
    then have "j = k \<and> ws = vs \<or> mget m j = Some ws" by (auto simp: gomap_simps split: if_splits)
    with m show ?thesis by (auto simp: user_claims_ok_def list_all_iff mget_def dest: map_of_SomeD)
  qed
  with m(1) show ?thesis by (auto simp: user_claims_ok_def list_all_iff)
qed

text \<open>
  C34: whatever a token claims, the claim map its user is made of is well typed: no name twice,
  only names of the claim model, every claim with a value, one value but for scopes and the
  delegation chain, and no empty value but for the subject, which is always there.
\<close>

theorem user_claims_typed: "user_claims_ok (toUserClaims c) \<and> mget (toUserClaims c) ''sub'' = Some [Subject c]"
proof -
  have set_ok: "user_claims_ok m \<Longrightarrow> x = '''' \<or> claim_ok k [x] \<Longrightarrow> user_claims_ok (set_claim k x m)" for k x m
    by (auto simp: set_claim_def mput_claims_ok)
  have sub: "user_claims_ok [(''sub'', [Subject c])]" by (simp add: user_claims_ok_def claim_ok_def gomap_ok_def)
  have sc: "scopes c \<noteq> [] \<Longrightarrow> claim_ok claimScope (scopes c)"
    using fields_nonempty [of "Scope c"] by (simp add: claim_ok_def scopes_def claim_names)
  have ac: "chain (Act c) \<noteq> [] \<Longrightarrow> claim_ok claimAct (chain (Act c))"
    using chain_nonempty [of "Act c"] by (simp add: claim_ok_def claim_names)
  have one: "x = '''' \<or> claim_ok k [x]" if "k \<in> set [claimLoA, claimLoginMethod, claimName, claimGivenName, claimFamilyName, claimSerialNumber,
      claimTenant, claimClientID]" for x k
    using that by (auto simp: claim_ok_def)
  show ?thesis
    unfolding toUserClaims_def Let_def
    by (auto intro!: set_ok mput_claims_ok sub sc ac one simp: toUserClaims_fields [unfolded toUserClaims_def Let_def])
qed

end
