(* ===== verification/Auth_Gate.thy ===== *)
theory Auth_Gate
  imports Dpop_Proof Nonce_Issuer Replay_Store Jwks_Cache Claim_Model
begin

text \<open>
  The inbound gate of package \<open>authclient\<close> (\<open>src/authclient/client.go\<close>, \<open>middleware.go\<close>,
  \<open>errors.go\<close>, \<open>config.go\<close>): construction, the validation of one request's token and DPoP
  proof against the key cache, the nonce issuer and the replay store, and the middleware that
  answers a refusal or a challenge. The libraries are bundled in one record of arguments; each
  clock reading of a request is its own argument.
\<close>

section \<open>Configuration and construction\<close>

record configuration =
  IssuerURL :: string
  JWKSURL :: string
  JWKSCacheTTL :: duration
  ServiceAudience :: string
  AlsoAcceptedAudiences :: "string list"
  ServiceClientID :: string
  ServiceClientSecret :: string
  ServiceTokenEarlyRefresh :: duration
  DPoPProofMaxAge :: duration
  TokenClockSkewLeeway :: duration
  DPoPReplayBackend :: string
  RedisURL :: string
  DPoPNonceEnabled :: bool
  DPoPNonceTTL :: duration
  RequireDPoP :: bool

definition replayBackendMemory :: string where "replayBackendMemory = ''memory''"
definition replayBackendRedis :: string where "replayBackendRedis = ''redis''"

datatype new_error = BadRedisURL string | UnknownBackend string | NonceKey | KeyGeneration string | KeyThumbprint

text \<open>\<open>newReplayStore\<close>: the given Redis client, or one made from the configured URL.\<close>

definition newReplayStore :: "(string \<Rightarrow> (string, 'r) result) \<Rightarrow> configuration \<Rightarrow> 'r option \<Rightarrow> (new_error, (memory, 'r) store_choice) result" where
  "newReplayStore redis_parse cfg rc =
     (if DPoPReplayBackend cfg = replayBackendRedis then
        (case rc of
           Some r \<Rightarrow> Inr (UseRedis r)
         | None \<Rightarrow> (case redis_parse (RedisURL cfg) of Inl e \<Rightarrow> Inl (BadRedisURL e) | Inr r \<Rightarrow> Inr (UseRedis r)))
      else if DPoPReplayBackend cfg = replayBackendMemory \<or> DPoPReplayBackend cfg = '''' then Inr (UseMemory newMemory)
      else Inl (UnknownBackend (DPoPReplayBackend cfg)))"

definition jwks_url :: "configuration \<Rightarrow> string" where
  "jwks_url cfg = (if JWKSURL cfg = '''' then trim_suffix (IssuerURL cfg) ''/'' @ ''/.well-known/jwks.json'' else JWKSURL cfg)"

definition token_url :: "configuration \<Rightarrow> string" where
  "token_url cfg = trim_suffix (IssuerURL cfg) ''/'' @ ''/token''"

record ('k, 's) gate =
  g_cfg :: configuration
  g_jwks_url :: string
  g_jwks :: "'k jwks"
  g_replay :: 's
  g_nonce :: "issuer option"
  g_dpopKey :: 'k
  g_jkt :: string
  g_tokenURL :: string

definition newGate :: "'k jwk_lib \<Rightarrow> (string \<Rightarrow> (string, 'r) result) \<Rightarrow> bytes option \<Rightarrow> (string, 'k) result \<Rightarrow> configuration
    \<Rightarrow> 'r option \<Rightarrow> (new_error, ('k, (memory, 'r) store_choice) gate) result" where
  "newGate jl redis_parse nonce_rand generated cfg rc =
     (case newReplayStore redis_parse cfg rc of
        Inl e \<Rightarrow> Inl e
      | Inr store \<Rightarrow>
          (case (if DPoPNonceEnabled cfg
                 then (case newIssuer nonce_rand (DPoPNonceTTL cfg) of Inl _ \<Rightarrow> Inl NonceKey | Inr i \<Rightarrow> Inr (Some i))
                 else Inr None) of
             Inl e \<Rightarrow> Inl e
           | Inr ni \<Rightarrow> (case generated of
               Inl e \<Rightarrow> Inl (KeyGeneration e)
             | Inr key \<Rightarrow> (case thumbprintOf jl key of
                 Inl _ \<Rightarrow> Inl KeyThumbprint
               | Inr jkt \<Rightarrow> Inr \<lparr>g_cfg = cfg, g_jwks_url = jwks_url cfg, g_jwks = newJwks (JWKSCacheTTL cfg) [],
                    g_replay = store, g_nonce = ni, g_dpopKey = key, g_jkt = jkt, g_tokenURL = token_url cfg\<rparr>))))"

section \<open>Requests and their URLs\<close>

record request =
  rq_method :: string
  rq_isTLS :: bool
  rq_host :: string
  rq_path :: string
  rq_header :: "string \<Rightarrow> string"

definition firstForwardedValue :: "string \<Rightarrow> string" where
  "firstForwardedValue h = (if h = '''' then '''' else trim_space (fst (cut_at (CHR '','') h)))"

definition requestURL :: "request \<Rightarrow> string" where
  "requestURL rq =
     (let p = firstForwardedValue (rq_header rq ''X-Forwarded-Proto'');
          h = firstForwardedValue (rq_header rq ''X-Forwarded-Host'');
          scheme = (if p \<noteq> '''' then p else if rq_isTLS rq then ''https'' else ''http'');
          host = (if h \<noteq> '''' then h else rq_host rq)
      in scheme @ ''://'' @ host @ rq_path rq)"

definition bearerToken :: "string \<Rightarrow> string" where
  "bearerToken header =
     (let h = trim_space header in
      if h = '''' then ''''
      else case cut_at (CHR '' '') h of
        (scheme, tok, ok) \<Rightarrow>
          if ok \<and> (ascii_lower scheme = ''dpop'' \<or> ascii_lower scheme = ''bearer'') then trim_space tok else h)"

section \<open>Validation\<close>

datatype public_error = Unauthorized | InvalidDPoP
datatype gate_error = Refused public_error string | ReplayStoreFailed string | NilNonceIssuer

datatype auth_result = Authenticated "(string, string list) gomap" | Challenge string

text \<open>What the access token parser is given beside its key function and the clock.\<close>

record parser_options =
  po_issuer :: string
  po_audiences :: "string list"
  po_leeway :: duration

record ('k, 's) gate_lib =
  gl_jwk :: "'k jwk_lib"
  gl_url :: "string \<Rightarrow> url option"
  gl_sha256 :: "bytes \<Rightarrow> bytes"
  gl_hmac :: "bytes \<Rightarrow> bytes \<Rightarrow> bytes"
  gl_proof_parse :: "('k, dpop_error, string, proof_header, proof_claims) jwt_parser"
  gl_access_parse :: "parser_options \<Rightarrow> gotime \<Rightarrow> ('k, jwks_error, 'k jwks, string option, claims) jwt_parser"
  gl_unmarshal :: "bytes \<Rightarrow> (string \<times> 'k) list option"
  gl_check_and_set :: "'s \<Rightarrow> gotime \<Rightarrow> string \<Rightarrow> duration \<Rightarrow> (string, bool) result \<times> 's"

text \<open>The clock readings of one request, and the reply of the issuer should its keys be fetched.\<close>

record gate_times =
  t_jwks :: "gotime \<times> gotime \<times> gotime \<times> gotime"
  t_reply :: http_reply
  t_access :: gotime
  t_proof :: gotime
  t_nonce :: gotime
  t_replay :: gotime
  t_issue :: gotime

definition audiences :: "configuration \<Rightarrow> string list" where
  "audiences cfg = ServiceAudience cfg # filter (\<lambda>a. a \<noteq> '''') (AlsoAcceptedAudiences cfg)"

definition parseToken :: "('k, 's) gate_lib \<Rightarrow> ('k, 's) gate \<Rightarrow> gate_times \<Rightarrow> string \<Rightarrow> (gate_error, claims) result \<times> ('k, 's) gate" where
  "parseToken lib g ts tokenStr =
     (if tokenStr = '''' then (Inl (Refused Unauthorized ''no token on the request''), g)
      else let opts = \<lparr>po_issuer = IssuerURL (g_cfg g), po_audiences = audiences (g_cfg g), po_leeway = TokenClockSkewLeeway (g_cfg g)\<rparr>;
               keyfunc = (\<lambda>kid jw. key_for (gl_unmarshal lib) jw (t_jwks ts) (t_reply ts) (case kid of None \<Rightarrow> '''' | Some k \<Rightarrow> k))
        in case gl_access_parse lib opts (t_access ts) keyfunc tokenStr (g_jwks g) of
             (Inl _, jw) \<Rightarrow> (Inl (Refused Unauthorized ''token rejected''), g\<lparr>g_jwks := jw\<rparr>)
           | (Inr cl, jw) \<Rightarrow> (Inr cl, g\<lparr>g_jwks := jw\<rparr>))"

definition challenge :: "('k, 's) gate_lib \<Rightarrow> ('k, 's) gate \<Rightarrow> gate_times \<Rightarrow> (gate_error, auth_result) result" where
  "challenge lib g ts = (case g_nonce g of
       None \<Rightarrow> Inl NilNonceIssuer
     | Some i \<Rightarrow> Inr (Challenge (issue (gl_hmac lib) i (t_issue ts))))"

definition proof_options :: "configuration \<Rightarrow> request \<Rightarrow> string \<Rightarrow> verify_options" where
  "proof_options cfg rq tokenStr =
     \<lparr>vo_Method = rq_method rq, vo_URL = requestURL rq, vo_AccessToken = tokenStr, vo_MaxAge = DPoPProofMaxAge cfg,
      vo_Leeway = TokenClockSkewLeeway cfg, vo_RequireNonce = DPoPNonceEnabled cfg\<rparr>"

text \<open>The part of \<open>validate\<close> for a token bound to a key.\<close>

definition validate_bound :: "('k, 's) gate_lib \<Rightarrow> ('k, 's) gate \<Rightarrow> gate_times \<Rightarrow> request \<Rightarrow> string \<Rightarrow> claims
    \<Rightarrow> (gate_error, auth_result) result \<times> ('k, 's) gate" where
  "validate_bound lib g ts rq tokenStr cl =
     (let cfg = g_cfg g in
      case dpop_verify (gl_jwk lib) (gl_url lib) (gl_sha256 lib) (gl_proof_parse lib) (t_proof ts) (rq_header rq ''DPoP'')
             (proof_options cfg rq tokenStr) of
        Inl e \<Rightarrow>
          if DPoPNonceEnabled cfg \<and> e = ErrMissingNonce then (challenge lib g ts, g)
          else (Inl (Refused InvalidDPoP ''DPoP proof did not verify''), g)
      | Inr res \<Rightarrow>
          if pr_Thumbprint res \<noteq> thumbprint cl
          then (Inl (Refused InvalidDPoP ''DPoP proof key is not the key the token is bound to''), g)
          else if DPoPNonceEnabled cfg \<and> (case g_nonce g of None \<Rightarrow> True
                 | Some i \<Rightarrow> nonce_verify (gl_hmac lib) i (t_nonce ts) (pr_Nonce res) (TokenClockSkewLeeway cfg) \<noteq> Inr ())
          then (challenge lib g ts, g)
          else case gl_check_and_set lib (g_replay g) (t_replay ts) (pr_JTI res)
                      (wrap64 (DPoPProofMaxAge cfg + TokenClockSkewLeeway cfg)) of
            (Inl e, s) \<Rightarrow> (Inl (ReplayStoreFailed e), g\<lparr>g_replay := s\<rparr>)
          | (Inr False, s) \<Rightarrow> (Inl (Refused InvalidDPoP ''DPoP proof jti already seen''), g\<lparr>g_replay := s\<rparr>)
          | (Inr True, s) \<Rightarrow> (Inr (Authenticated (toUserClaims cl)), g\<lparr>g_replay := s\<rparr>))"

definition validate :: "('k, 's) gate_lib \<Rightarrow> ('k, 's) gate \<Rightarrow> gate_times \<Rightarrow> request \<Rightarrow> string \<Rightarrow> (gate_error, auth_result) result \<times> ('k, 's) gate" where
  "validate lib g ts rq tokenStr =
     (case parseToken lib g ts tokenStr of
        (Inl e, g1) \<Rightarrow> (Inl e, g1)
      | (Inr cl, g1) \<Rightarrow>
          let bound = (thumbprint cl \<noteq> '''') in
          if \<not> bound \<and> RequireDPoP (g_cfg g1)
          then (Inl (Refused InvalidDPoP ''token is not sender-constrained and this service requires DPoP''), g1)
          else if bound then validate_bound lib g1 ts rq tokenStr cl
          else (Inr (Authenticated (toUserClaims cl)), g1))"

section \<open>Middleware\<close>

text \<open>What is answered when the request does not proceed: the error, headers set, and the reason logged.\<close>

datatype answered_error = PublicError public_error | InternalError string

record gate_response =
  gr_error :: answered_error
  gr_headers :: "(string \<times> string) list"
  gr_logged :: "string option"

definition www_dpop :: "string \<Rightarrow> string \<times> string" where
  "www_dpop code = (''WWW-Authenticate'', ''DPoP error='' @ [CHR 0x22] @ code @ [CHR 0x22])"

definition handle :: "('k, 's) gate_lib \<Rightarrow> ('k, 's) gate \<Rightarrow> gate_times \<Rightarrow> request
    \<Rightarrow> (gate_response, (string, string list) gomap) result \<times> ('k, 's) gate" where
  "handle lib g ts rq =
     (case validate lib g ts rq (bearerToken (rq_header rq ''Authorization'')) of
        (Inl (Refused p reason), g1) \<Rightarrow>
          (Inl \<lparr>gr_error = PublicError p,
                gr_headers = (case p of InvalidDPoP \<Rightarrow> [www_dpop ''invalid_dpop_proof''] | Unauthorized \<Rightarrow> []),
                gr_logged = Some reason\<rparr>, g1)
      | (Inl (ReplayStoreFailed e), g1) \<Rightarrow>
          (Inl \<lparr>gr_error = InternalError e, gr_headers = [], gr_logged = None\<rparr>, g1)
      | (Inl NilNonceIssuer, g1) \<Rightarrow>
          (Inl \<lparr>gr_error = InternalError ''nil pointer dereference'', gr_headers = [], gr_logged = None\<rparr>, g1)
      | (Inr (Challenge n), g1) \<Rightarrow>
          (Inl \<lparr>gr_error = PublicError Unauthorized,
                gr_headers = [(''DPoP-Nonce'', n), www_dpop ''use_dpop_nonce''], gr_logged = None\<rparr>, g1)
      | (Inr (Authenticated user), g1) \<Rightarrow> (Inr user, g1))"

text \<open>The middleware around the next handler, which sees the user, or none.\<close>

definition authenticate :: "('k, 's) gate_lib \<Rightarrow> ((string, string list) gomap option \<Rightarrow> 'a) \<Rightarrow> ('k, 's) gate \<Rightarrow> gate_times \<Rightarrow> request
    \<Rightarrow> (gate_response, 'a) result \<times> ('k, 's) gate" where
  "authenticate lib nxt g ts rq = (case handle lib g ts rq of
       (Inl resp, g1) \<Rightarrow> (Inl resp, g1) | (Inr user, g1) \<Rightarrow> (Inr (nxt (Some user)), g1))"

definition tryAuthenticate :: "('k, 's) gate_lib \<Rightarrow> ((string, string list) gomap option \<Rightarrow> 'a) \<Rightarrow> ('k, 's) gate \<Rightarrow> gate_times \<Rightarrow> request
    \<Rightarrow> (gate_response, 'a) result \<times> ('k, 's) gate" where
  "tryAuthenticate lib nxt g ts rq =
     (if rq_header rq ''Authorization'' = '''' then (Inr (nxt None), g)
      else case handle lib g ts rq of
        (Inl resp, g1) \<Rightarrow> (Inl resp, g1) | (Inr user, g1) \<Rightarrow> (Inr (nxt (Some user)), g1))"

lemmas gate_eval [eval_simps] = replayBackendMemory_def replayBackendRedis_def newReplayStore_def jwks_url_def token_url_def
  newGate_def firstForwardedValue_def requestURL_def bearerToken_def audiences_def parseToken_def challenge_def
  proof_options_def validate_bound_def validate_def www_dpop_def handle_def authenticate_def tryAuthenticate_def

section \<open>What the gate lets through\<close>

lemma parseToken_keeps:
  "parseToken lib g ts tok = (r, g1) \<Longrightarrow>
     g_cfg g1 = g_cfg g \<and> g_replay g1 = g_replay g \<and> g_nonce g1 = g_nonce g"
  by (auto simp: parseToken_def Let_def split: if_splits prod.splits sum.splits)

definition replay_ttl :: "configuration \<Rightarrow> duration" where
  "replay_ttl cfg = wrap64 (DPoPProofMaxAge cfg + TokenClockSkewLeeway cfg)"

definition proof_of :: "('k, 's) gate_lib \<Rightarrow> configuration \<Rightarrow> gate_times \<Rightarrow> request \<Rightarrow> (dpop_error, proof_result) result" where
  "proof_of lib cfg ts rq = dpop_verify (gl_jwk lib) (gl_url lib) (gl_sha256 lib) (gl_proof_parse lib) (t_proof ts)
     (rq_header rq ''DPoP'') (proof_options cfg rq (bearerToken (rq_header rq ''Authorization'')))"

text \<open>Every path of a request either leaves the replay store alone or asks it once.\<close>

lemma handle_effect:
  assumes "handle lib g ts rq = (r, g')"
  shows "g_cfg g' = g_cfg g \<and> g_nonce g' = g_nonce g \<and>
    (g_replay g' = g_replay g \<and> (is_ok r \<longrightarrow> \<not> RequireDPoP (g_cfg g))
     \<or> (\<exists>res a. proof_of lib (g_cfg g) ts rq = Inr res
          \<and> gl_check_and_set lib (g_replay g) (t_replay ts) (pr_JTI res) (replay_ttl (g_cfg g)) = (a, g_replay g')
          \<and> (is_ok r \<longrightarrow> a = Inr True)))"
proof -
  let ?tok = "bearerToken (rq_header rq ''Authorization'')"
  obtain p g1 where p: "parseToken lib g ts ?tok = (p, g1)" by (metis prod.exhaust)
  note k = parseToken_keeps [OF p]
  show ?thesis
  proof (cases p)
    case (Inl e)
    with assms p k show ?thesis
      by (auto simp: handle_def validate_def split: gate_error.splits)
  next
    case (Inr cl)
    then have v: "validate lib g ts rq ?tok = (if thumbprint cl = '''' \<and> RequireDPoP (g_cfg g1)
          then (Inl (Refused InvalidDPoP ''token is not sender-constrained and this service requires DPoP''), g1)
          else if thumbprint cl \<noteq> '''' then validate_bound lib g1 ts rq ?tok cl else (Inr (Authenticated (toUserClaims cl)), g1))"
      using p by (simp add: validate_def)
    show ?thesis
    proof (cases "thumbprint cl = ''''")
      case True
      with v assms k show ?thesis by (auto simp: handle_def split: if_splits)
    next
      case False
      obtain b g2 where b: "validate_bound lib g1 ts rq ?tok cl = (b, g2)" by (metis prod.exhaust)
      have "g_cfg g2 = g_cfg g \<and> g_nonce g2 = g_nonce g \<and>
        (g_replay g2 = g_replay g \<and> (\<forall>u. b \<noteq> Inr (Authenticated u))
         \<or> (\<exists>res a. proof_of lib (g_cfg g) ts rq = Inr res
              \<and> gl_check_and_set lib (g_replay g) (t_replay ts) (pr_JTI res) (replay_ttl (g_cfg g)) = (a, g_replay g2)
              \<and> ((\<exists>u. b = Inr (Authenticated u)) \<longrightarrow> a = Inr True)))"
        using b k unfolding validate_bound_def Let_def proof_of_def replay_ttl_def
        by (auto simp: challenge_def split: sum.splits if_splits option.splits prod.splits bool.splits)
      with assms v False b show ?thesis
        by (auto simp: handle_def split: sum.splits gate_error.splits auth_result.splits)
    qed
  qed
qed

lemma handle_accepts:
  assumes "handle lib g ts rq = (Inr u, g')" "RequireDPoP (g_cfg g)"
  obtains cl g1 res where "parseToken lib g ts (bearerToken (rq_header rq ''Authorization'')) = (Inr cl, g1)"
    "u = toUserClaims cl" "thumbprint cl \<noteq> ''''" "proof_of lib (g_cfg g) ts rq = Inr res" "pr_Thumbprint res = thumbprint cl"
    "DPoPNonceEnabled (g_cfg g) \<longrightarrow> (\<exists>i. g_nonce g = Some i \<and>
       nonce_verify (gl_hmac lib) i (t_nonce ts) (pr_Nonce res) (TokenClockSkewLeeway (g_cfg g)) = Inr ())"
    "gl_check_and_set lib (g_replay g) (t_replay ts) (pr_JTI res) (replay_ttl (g_cfg g)) = (Inr True, g_replay g')"
proof -
  let ?tok = "bearerToken (rq_header rq ''Authorization'')"
  obtain p g1 where p: "parseToken lib g ts ?tok = (p, g1)" by (metis prod.exhaust)
  note k = parseToken_keeps [OF p]
  from assms p obtain cl where cl: "p = Inr cl"
    by (cases p) (auto simp: handle_def validate_def split: gate_error.splits)
  with assms p k have bound: "thumbprint cl \<noteq> ''''" and b: "validate_bound lib g1 ts rq ?tok cl = (Inr (Authenticated u), g')"
    by (auto simp: handle_def validate_def Let_def split: if_splits prod.splits sum.splits gate_error.splits auth_result.splits)
  show ?thesis
    using b k p cl bound that unfolding validate_bound_def Let_def proof_of_def replay_ttl_def
    by (auto simp: challenge_def split: sum.splits if_splits option.splits prod.splits bool.splits)
qed

definition cfg_ok :: "configuration \<Rightarrow> bool" where
  "cfg_ok cfg \<longleftrightarrow> RequireDPoP cfg \<and> 0 \<le> DPoPProofMaxAge cfg \<and> 0 \<le> TokenClockSkewLeeway cfg
     \<and> DPoPProofMaxAge cfg + TokenClockSkewLeeway cfg < max_duration"

lemma replay_ttl_eq: "cfg_ok cfg \<Longrightarrow> replay_ttl cfg = DPoPProofMaxAge cfg + TokenClockSkewLeeway cfg"
  by (auto simp: cfg_ok_def replay_ttl_def in_int64_def min_duration_def)

text \<open>A proof's identifier and time of issue are its own, whatever request it comes with.\<close>

definition proof_content :: "('k, 's) gate_lib \<Rightarrow> request \<Rightarrow> proof_claims option" where
  "proof_content lib rq = (case fst (gl_proof_parse lib (proof_keyfunc (gl_jwk lib)) (rq_header rq ''DPoP'') '''') of
     Inl _ \<Rightarrow> None | Inr c \<Rightarrow> Some c)"

lemma proof_of_content:
  assumes "proof_of lib cfg ts rq = Inr res" "cfg_ok cfg"
  shows "\<exists>c iat. proof_content lib rq = Some c \<and> pr_JTI res = pc_ID c \<and> pc_IssuedAt c = Some iat
    \<and> iat - TokenClockSkewLeeway cfg \<le> t_proof ts \<and> t_proof ts \<le> iat + DPoPProofMaxAge cfg + TokenClockSkewLeeway cfg"
proof -
  let ?opt = "proof_options cfg rq (bearerToken (rq_header rq ''Authorization''))"
  have w: "window_ok ?opt" using assms(2) by (simp add: cfg_ok_def window_ok_def proof_options_def)
  obtain c tp iat where "gl_proof_parse lib (proof_keyfunc (gl_jwk lib)) (rq_header rq ''DPoP'') '''' = (Inr c, tp)"
      "pc_IssuedAt c = Some iat" "pr_JTI res = pc_ID c"
      "\<not> (time_sub (t_proof ts) iat > wrap64 (vo_MaxAge ?opt + vo_Leeway ?opt) \<or> time_sub iat (t_proof ts) > vo_Leeway ?opt)"
    using assms(1) unfolding proof_of_def dpop_verify_accepts by auto
  moreover from this window_iff [OF w] have "t_proof ts \<le> iat + vo_MaxAge ?opt + vo_Leeway ?opt" "iat \<le> t_proof ts + vo_Leeway ?opt"
    by blast+
  ultimately show ?thesis by (simp add: proof_content_def proof_options_def)
qed

section \<open>A gate to try\<close>

definition demo_user :: claims where
  "demo_user = \<lparr>Subject = ''u1'', Scope = ''projects/task/attachment:delete'', LoA = '''', LoginMethod = '''', Name = '''', GivenName = '''', FamilyName = '''',
     SerialNumber = '''', Tenant = '''', ClientID = '''', Confirmation = Some \<lparr>JKT = base64_encode base64_url ''tp''\<rparr>, Act = None\<rparr>"

definition demo_token_header :: "string \<Rightarrow> string option option" where
  "demo_token_header s = Some (Some ''k1'')"

text \<open>A token that expires after ten minutes.\<close>

definition demo_token_checked :: "gotime \<Rightarrow> nat \<Rightarrow> string \<Rightarrow> claims option" where
  "demo_token_checked now k s = (if k = 1 \<and> s = ''tok'' \<and> now \<le> 10 * minute then Some demo_user else None)"

definition demo_lib_on :: "('s \<Rightarrow> gotime \<Rightarrow> string \<Rightarrow> duration \<Rightarrow> (string, bool) result \<times> 's) \<Rightarrow> gotime \<Rightarrow> (nat, 's) gate_lib" where
  "demo_lib_on cas iat = \<lparr>gl_jwk = demo_jwks, gl_url = demo_url, gl_sha256 = id, gl_hmac = demo_hmac,
     gl_proof_parse = run_parser demo_header_of (demo_checked iat),
     gl_access_parse = (\<lambda>opts now. run_parser demo_token_header (demo_token_checked now)),
     gl_unmarshal = (\<lambda>_. None), gl_check_and_set = cas\<rparr>"

abbreviation demo_lib :: "gotime \<Rightarrow> (nat, memory) gate_lib" where
  "demo_lib \<equiv> demo_lib_on checkAndSet"

definition default_cfg :: configuration where
  "default_cfg = \<lparr>IssuerURL = ''https://auth'', JWKSURL = '''', JWKSCacheTTL = 10 * minute, ServiceAudience = ''svc'',
     AlsoAcceptedAudiences = [], ServiceClientID = '''', ServiceClientSecret = '''', ServiceTokenEarlyRefresh = 30 * second,
     DPoPProofMaxAge = 60 * second, TokenClockSkewLeeway = 30 * second, DPoPReplayBackend = ''memory'', RedisURL = '''',
     DPoPNonceEnabled = False, DPoPNonceTTL = 5 * minute, RequireDPoP = True\<rparr>"

definition demo_gate :: "'s \<Rightarrow> (nat, 's) gate" where
  "demo_gate m = \<lparr>g_cfg = default_cfg, g_jwks_url = '''', g_jwks = \<lparr>jw_ttl = 10 * minute, jw_minInterval = 30 * second,
       jw_keys = [(''k1'', 1)], jw_fetchedAt = 0, jw_lastAttempt = 0\<rparr>,
     g_replay = m, g_nonce = None, g_dpopKey = 9, g_jkt = ''own'', g_tokenURL = ''''\<rparr>"

definition demo_request :: request where
  "demo_request = \<lparr>rq_method = ''GET'', rq_isTLS = False, rq_host = ''api'', rq_path = ''/x'',
     rq_header = (\<lambda>h. if h = ''Authorization'' then ''tok'' else if h = ''DPoP'' then ''proof'' else '''')\<rparr>"

definition all_at :: "gotime \<Rightarrow> gate_times" where
  "all_at t = \<lparr>t_jwks = (t, t, t, t), t_reply = NoReply ''down'', t_access = t, t_proof = t, t_nonce = t, t_replay = t, t_issue = t\<rparr>"

lemma demo_token: "bearerToken (rq_header demo_request ''Authorization'') = ''tok''"
  by (simp add: demo_request_def eval_simps)

lemma demo_parseToken:
  assumes "t \<le> 10 * minute"
  shows "parseToken (demo_lib_on cas iat) (demo_gate m) (all_at t) ''tok'' = (Inr demo_user, demo_gate m)"
proof -
  have "\<not> time_sub t 0 > 10 * minute" using assms by (simp add: eval_simps)
  with assms show ?thesis
    by (simp add: parseToken_def Let_def demo_lib_on_def demo_gate_def all_at_def run_parser_def demo_token_header_def demo_token_checked_def
        key_for_def cached_key_def mget_def)
qed

definition demo_tp :: string where "demo_tp = base64_encode base64_url ''tp''"
definition demo_jti :: string where "demo_jti = base64_encode base64_url ''id''"

lemma demo_proof_of:
  "proof_of (demo_lib_on cas iat) default_cfg (all_at t) demo_request =
     (if t \<le> iat + 60 * second + 30 * second \<and> iat \<le> t + 30 * second
      then Inr \<lparr>pr_Thumbprint = demo_tp, pr_JTI = demo_jti, pr_Nonce = ''''\<rparr>
      else Inl ErrExpired)"
proof -
  let ?opt = "proof_options default_cfg demo_request ''tok''"
  have w: "window_ok ?opt" by (simp add: window_ok_def proof_options_def default_cfg_def eval_simps)
  have url: "requestURL demo_request = ''http://api/x''" by (simp add: requestURL_def Let_def firstForwardedValue_def demo_request_def)
  have p: "run_parser demo_header_of (demo_checked iat) (proof_keyfunc demo_jwks) ''proof'' '''' = (Inr (demo_claims iat), demo_tp)"
    by (simp add: demo_tp_def run_parser_def demo_header_of_def demo_proof_header_def proof_keyfunc_def keyFromHeader_def demo_jwks_def demo_checked_def)
  have h: "rq_header demo_request ''DPoP'' = ''proof''" by (simp add: demo_request_def)
  have o: "vo_Method ?opt = ''GET''" "vo_URL ?opt = ''http://api/x''" "vo_AccessToken ?opt = ''tok''" "vo_RequireNonce ?opt = False"
      "vo_MaxAge ?opt = 60 * second" "vo_Leeway ?opt = 30 * second"
    using url by (simp_all add: proof_options_def demo_request_def default_cfg_def)
  show ?thesis
    using window_iff [OF w, of t iat]
    unfolding proof_of_def demo_token dpop_verify_def h
    by (auto simp: demo_lib_on_def p demo_claims_def demo_jti_def o equal_fold_def normalizeHTU_def demo_url_def url_String_def all_at_def
        simp del: de_Morgan_disj)
qed

lemma demo_replay_ttl: "replay_ttl default_cfg = 90 * second"
  by (simp add: replay_ttl_def default_cfg_def eval_simps)

lemma demo_handle:
  assumes "t \<le> 10 * minute"
  shows "handle (demo_lib_on cas iat) (demo_gate m) (all_at t) demo_request =
    (if t \<le> iat + 60 * second + 30 * second \<and> iat \<le> t + 30 * second
     then (case cas m t demo_jti (90 * second) of
             (Inl e, m') \<Rightarrow> (Inl \<lparr>gr_error = InternalError e, gr_headers = [], gr_logged = None\<rparr>, demo_gate m')
           | (Inr False, m') \<Rightarrow> (Inl \<lparr>gr_error = PublicError InvalidDPoP, gr_headers = [www_dpop ''invalid_dpop_proof''],
                      gr_logged = Some ''DPoP proof jti already seen''\<rparr>, demo_gate m')
           | (Inr True, m') \<Rightarrow> (Inr (toUserClaims demo_user), demo_gate m'))
     else (Inl \<lparr>gr_error = PublicError InvalidDPoP, gr_headers = [www_dpop ''invalid_dpop_proof''],
                gr_logged = Some ''DPoP proof did not verify''\<rparr>, demo_gate m))"
proof -
  have tp: "thumbprint demo_user = demo_tp" "demo_tp \<noteq> ''''"
    by (simp_all add: thumbprint_def demo_user_def demo_tp_def)
  have cfg: "g_cfg (demo_gate m) = default_cfg" "RequireDPoP default_cfg" "\<not> DPoPNonceEnabled default_cfg"
      "g_replay (demo_gate m) = m" "gl_check_and_set (demo_lib_on cas iat) = cas" "t_replay (all_at t) = t"
      "(demo_gate m)\<lparr>g_replay := m'\<rparr> = demo_gate m'" for m'
    by (simp_all add: demo_gate_def default_cfg_def demo_lib_on_def all_at_def)
  note pf = demo_proof_of [of cas iat t, unfolded proof_of_def demo_token]
  note ttl = demo_replay_ttl [unfolded replay_ttl_def]
  show ?thesis
    by (simp add: handle_def validate_def demo_token demo_parseToken [OF assms] validate_bound_def Let_def tp cfg ttl pf
        split: prod.split sum.split bool.split)
qed

section \<open>Whom the gate lets through\<close>

text \<open>
  C1: where DPoP is required, a request proceeds only with a token that verifies now, with this
  service's issuer and audiences, under a key of the issuer: one that the gate's key set holds
  under the token's key id and that was looked up within the set's time to live, or one the
  issuer published under that id in the reply to this request's own fetch, looked up within it;
  the user is that token's; the token is bound to a key, and the request
  carries a verified proof by that key whose nonce, where nonces are on, this service issued
  and has not expired, and whose identifier the store had not seen.
\<close>

theorem gate_lets_through:
  fixes lib :: "('k, (memory, 'd) store_choice) gate_lib"
  assumes "RequireDPoP (g_cfg g)" "handle lib g ts rq = (Inr u, g')"
    and "tok = bearerToken (rq_header rq ''Authorization'')"
    and "opts = \<lparr>po_issuer = IssuerURL (g_cfg g), po_audiences = audiences (g_cfg g), po_leeway = TokenClockSkewLeeway (g_cfg g)\<rparr>"
    and "\<And>now. jwt_contract (gl_access_parse lib opts now) header_of (checked now)"
    and "once_store setnx db_live db_ok" "gl_check_and_set lib = choice_checkAndSet setnx" "choice_ok db_ok (g_replay g)"
    and "t_jwks ts = (t1, t2, t3, t4)"
  shows "\<exists>kid k cl res. tok \<noteq> '''' \<and> header_of tok = Some kid \<and> checked (t_access ts) k tok = Some cl \<and> u = toUserClaims cl
     \<and> (mget (jw_keys (g_jwks g)) (case kid of None \<Rightarrow> '''' | Some x \<Rightarrow> x) = Some k
          \<and> (time_sub t1 (jw_fetchedAt (g_jwks g)) \<le> jw_ttl (g_jwks g) \<or> time_sub t4 (jw_fetchedAt (g_jwks g)) \<le> jw_ttl (g_jwks g))
        \<or> (\<exists>body ks. t_reply ts = Reply 200 (Inr body) \<and> gl_unmarshal lib (take (2 ^ 20) body) = Some ks
             \<and> map_of (rev ks) (case kid of None \<Rightarrow> '''' | Some x \<Rightarrow> x) = Some k \<and> time_sub t4 t3 \<le> jw_ttl (g_jwks g)))
     \<and> thumbprint cl \<noteq> '''' \<and> proof_of lib (g_cfg g) ts rq = Inr res \<and> pr_Thumbprint res = thumbprint cl
     \<and> (DPoPNonceEnabled (g_cfg g) \<longrightarrow> (\<exists>i. g_nonce g = Some i \<and>
          nonce_verify (gl_hmac lib) i (t_nonce ts) (pr_Nonce res) (TokenClockSkewLeeway (g_cfg g)) = Inr ()))
     \<and> \<not> choice_live db_live (g_replay g) (pr_JTI res) (t_replay ts)"
proof -
  obtain cl g1 res where a: "parseToken lib g ts tok = (Inr cl, g1)" "u = toUserClaims cl" "thumbprint cl \<noteq> ''''"
    "proof_of lib (g_cfg g) ts rq = Inr res" "pr_Thumbprint res = thumbprint cl"
    "DPoPNonceEnabled (g_cfg g) \<longrightarrow> (\<exists>i. g_nonce g = Some i \<and>
       nonce_verify (gl_hmac lib) i (t_nonce ts) (pr_Nonce res) (TokenClockSkewLeeway (g_cfg g)) = Inr ())"
    "gl_check_and_set lib (g_replay g) (t_replay ts) (pr_JTI res) (replay_ttl (g_cfg g)) = (Inr True, g_replay g')"
    using handle_accepts [OF assms(2,1)] assms(3) by metis
  let ?kf = "\<lambda>kid jw. key_for (gl_unmarshal lib) jw (t_jwks ts) (t_reply ts) (case kid of None \<Rightarrow> '''' | Some k \<Rightarrow> k)"
  have tok: "tok \<noteq> ''''" using a(1) by (auto simp: parseToken_def)
  then obtain jw where p: "gl_access_parse lib opts (t_access ts) ?kf tok (g_jwks g) = (Inr cl, jw)"
    using a(1) by (auto simp: parseToken_def assms(4) split: prod.splits sum.splits)
  obtain kid k where k: "header_of tok = Some kid" "?kf kid (g_jwks g) = (Inr k, jw)" "checked (t_access ts) k tok = Some cl"
    using p assms(5) [of "t_access ts", unfolded jwt_contract_def, rule_format, of ?kf tok "g_jwks g"]
    by (auto split: option.splits prod.splits sum.splits)
  have key: "key_source (gl_unmarshal lib) (g_jwks g) (t1, t2, t3, t4) (t_reply ts) (case kid of None \<Rightarrow> '''' | Some x \<Rightarrow> x) k"
    using key_served_from [OF k(2)] assms(9) by simp
  have "\<not> choice_live db_live (g_replay g) (pr_JTI res) (t_replay ts)"
    using once_store.live_refused [OF choice_is_store [OF assms(6)] assms(8)] a(7) assms(7) by metis
  then show ?thesis
    using key [unfolded key_source_def prod.case] a(2-6) k(1,3) tok
    by (intro exI [of _ kid] exI [of _ k] exI [of _ cl] exI [of _ res]) simp
qed

theorem gate_lets_through_witness:
  "\<exists>k. demo_token_checked 0 k ''tok'' = Some demo_user \<and> mget (jw_keys (g_jwks (demo_gate (UseRedis []) :: (nat, (memory, (string \<times> gotime) list) store_choice) gate))) ''k1'' = Some k \<and>
     fst (handle (demo_lib_on (choice_checkAndSet listed_setnx) 0) (demo_gate (UseRedis [])) (all_at 0) demo_request) = Inr (toUserClaims demo_user)"
proof -
  let ?lib = "demo_lib_on (choice_checkAndSet listed_setnx) 0" and ?g = "demo_gate (UseRedis [])"
  have w: "0 \<le> 10 * minute" "fst (choice_checkAndSet listed_setnx (UseRedis []) 0 demo_jti (90 * second)) = Inr True"
    by (simp_all add: minute_def second_def redis_checkAndSet_eq listed_setnx_def listed_live_def)
  then obtain s' where "choice_checkAndSet listed_setnx (UseRedis []) 0 demo_jti (90 * second) = (Inr True, s')"
    by (metis prod.collapse)
  then have h: "handle ?lib ?g (all_at 0) demo_request = (Inr (toUserClaims demo_user), demo_gate s')"
    using w by (simp add: demo_handle) (simp add: second_def)
  have c: "RequireDPoP (g_cfg ?g)" "jwt_contract (gl_access_parse ?lib opts now) demo_token_header (demo_token_checked now)"
      "gl_check_and_set ?lib = choice_checkAndSet listed_setnx" "choice_ok (\<lambda>_. True) (g_replay ?g)" "t_jwks (all_at 0) = (0, 0, 0, 0)" for opts now
    by (simp_all add: demo_gate_def default_cfg_def demo_lib_on_def run_parser_contract all_at_def)
  have r: "t_reply (all_at 0) \<noteq> Reply 200 (Inr b)" "t_access (all_at 0) = 0" for b by (simp_all add: all_at_def)
  from gate_lets_through [OF c(1) h demo_token [symmetric] refl c(2) listed.once_store_axioms c(3-5)] h r show ?thesis
    by (fastforce simp: demo_token_checked_def demo_token_header_def split: if_splits)
qed

section \<open>What a refused caller is told\<close>

text \<open>Everything a refused caller sees: the error and the headers. The reason is for the log.\<close>

definition outward :: "gate_response \<Rightarrow> answered_error \<times> (string \<times> string) list" where
  "outward resp = (gr_error resp, gr_headers resp)"

text \<open>
  When a caller whose token verified is asked for a nonce: it left one out of a proof that is
  right otherwise up to there, or its proof by the token's key carries one that is not accepted.
\<close>

definition wants_nonce :: "('k, 's) gate_lib \<Rightarrow> ('k, 's) gate \<Rightarrow> gate_times \<Rightarrow> request \<Rightarrow> claims \<Rightarrow> bool" where
  "wants_nonce lib g ts rq cl \<longleftrightarrow> DPoPNonceEnabled (g_cfg g) \<and> thumbprint cl \<noteq> '''' \<and>
     (case proof_of lib (g_cfg g) ts rq of
        Inl e \<Rightarrow> e = ErrMissingNonce
      | Inr res \<Rightarrow> pr_Thumbprint res = thumbprint cl \<and>
          (case g_nonce g of None \<Rightarrow> True
           | Some i \<Rightarrow> nonce_verify (gl_hmac lib) i (t_nonce ts) (pr_Nonce res) (TokenClockSkewLeeway (g_cfg g)) \<noteq> Inr ()))"

text \<open>The error of the replay store, when a proof by the token's key was to be recorded and was not.\<close>

definition store_failure :: "('k, 's) gate_lib \<Rightarrow> ('k, 's) gate \<Rightarrow> gate_times \<Rightarrow> request \<Rightarrow> claims \<Rightarrow> string option" where
  "store_failure lib g ts rq cl =
     (case proof_of lib (g_cfg g) ts rq of
        Inl _ \<Rightarrow> None
      | Inr res \<Rightarrow>
          if thumbprint cl = '''' \<or> pr_Thumbprint res \<noteq> thumbprint cl then None
          else case gl_check_and_set lib (g_replay g) (t_replay ts) (pr_JTI res) (replay_ttl (g_cfg g)) of
            (Inl e, _) \<Rightarrow> Some e | (Inr _, _) \<Rightarrow> None)"

lemma validate_bound_refuses:
  assumes "validate_bound lib g ts rq (bearerToken (rq_header rq ''Authorization'')) cl = (v, g')" "\<And>u. v \<noteq> Inr (Authenticated u)"
    and "DPoPNonceEnabled (g_cfg g) \<longrightarrow> g_nonce g \<noteq> None" "thumbprint cl \<noteq> ''''"
  shows "if wants_nonce lib g ts rq cl then v = Inr (Challenge (issue (gl_hmac lib) (the (g_nonce g)) (t_issue ts)))
    else case store_failure lib g ts rq cl of Some e \<Rightarrow> v = Inl (ReplayStoreFailed e) | None \<Rightarrow> \<exists>reason. v = Inl (Refused InvalidDPoP reason)"
proof (cases "proof_of lib (g_cfg g) ts rq")
  case (Inl e)
  with assms show ?thesis
    unfolding validate_bound_def Let_def proof_of_def [symmetric]
    by (auto simp: wants_nonce_def store_failure_def challenge_def split: if_splits)
next
  case (Inr res)
  with assms show ?thesis
    unfolding validate_bound_def Let_def proof_of_def [symmetric] replay_ttl_def [symmetric]
    by (auto simp: wants_nonce_def store_failure_def challenge_def split: if_splits option.splits prod.splits sum.splits bool.splits)
qed

text \<open>
  C5: a refused caller is told one of four things, and which of them depends on nothing else than
  this: without a token that verifies, one bare 401, whatever was wrong with the token; with one, the
  challenge with a new nonce exactly when the nonce is what is missing or not accepted; the
  replay store's error exactly when the store failed on a proof by the token's key; and for
  every other fault of the token's binding or the proof one and the same \<open>invalid_dpop_proof\<close>.
  The reason is logged with the first and the last, and is part of none of the answers.
\<close>

theorem refusals_say_nothing:
  assumes "handle lib g ts rq = (Inl resp, g')" and "DPoPNonceEnabled (g_cfg g) \<longrightarrow> g_nonce g \<noteq> None"
    and "parseToken lib g ts (bearerToken (rq_header rq ''Authorization'')) = (p, g1)"
  shows "(case p of
      Inl _ \<Rightarrow> outward resp = (PublicError Unauthorized, []) \<and> gr_logged resp \<noteq> None
    | Inr cl \<Rightarrow>
        if wants_nonce lib g ts rq cl
        then outward resp = (PublicError Unauthorized, [(''DPoP-Nonce'', issue (gl_hmac lib) (the (g_nonce g)) (t_issue ts)), www_dpop ''use_dpop_nonce''])
          \<and> gr_logged resp = None
        else case store_failure lib g ts rq cl of
          Some e \<Rightarrow> outward resp = (InternalError e, []) \<and> gr_logged resp = None
        | None \<Rightarrow> outward resp = (PublicError InvalidDPoP, [www_dpop ''invalid_dpop_proof'']) \<and> gr_logged resp \<noteq> None)"
proof (cases p)
  case (Inl e)
  then have "\<exists>reason. e = Refused Unauthorized reason"
    using assms(3) by (auto simp: parseToken_def Let_def split: if_splits prod.splits sum.splits)
  with Inl assms(1,3) show ?thesis by (auto simp: handle_def validate_def outward_def)
next
  case (Inr cl)
  note k = parseToken_keeps [OF assms(3)]
  let ?tok = "bearerToken (rq_header rq ''Authorization'')"
  have v: "validate lib g ts rq ?tok = (if thumbprint cl = '''' \<and> RequireDPoP (g_cfg g)
      then (Inl (Refused InvalidDPoP ''token is not sender-constrained and this service requires DPoP''), g1)
      else if thumbprint cl \<noteq> '''' then validate_bound lib g1 ts rq ?tok cl else (Inr (Authenticated (toUserClaims cl)), g1))"
    using Inr assms(3) k by (simp add: validate_def)
  have same: "wants_nonce lib g1 ts rq cl = wants_nonce lib g ts rq cl" "store_failure lib g1 ts rq cl = store_failure lib g ts rq cl"
    using k unfolding wants_nonce_def store_failure_def by (simp_all split: sum.split option.split)
  show ?thesis
  proof (cases "thumbprint cl = ''''")
    case True
    then have "\<not> wants_nonce lib g ts rq cl" "store_failure lib g ts rq cl = None"
      by (simp_all add: wants_nonce_def store_failure_def split: sum.splits)
    with True v assms(1) Inr show ?thesis by (auto simp: handle_def outward_def split: if_splits)
  next
    case False
    obtain b g2 where b: "validate_bound lib g1 ts rq ?tok cl = (b, g2)" by (metis prod.exhaust)
    with v False assms(1) have "b \<noteq> Inr (Authenticated u)" for u by (auto simp: handle_def)
    from validate_bound_refuses [OF b this _ False] k assms(1,2) v b False Inr show ?thesis
      unfolding same by (auto simp: handle_def outward_def split: if_splits option.splits)
  qed
qed

theorem refusals_say_nothing_witness:
  "\<exists>resp g'. handle (demo_lib 0) (demo_gate newMemory) (all_at (100 * second)) demo_request = (Inl resp, g')
     \<and> outward resp = (PublicError InvalidDPoP, [www_dpop ''invalid_dpop_proof'']) \<and> gr_logged resp = Some ''DPoP proof did not verify''"
proof -
  have t: "100 * second \<le> 10 * minute" by (simp add: minute_def second_def)
  have h: "handle (demo_lib 0) (demo_gate newMemory) (all_at (100 * second)) demo_request = (Inl \<lparr>gr_error = PublicError InvalidDPoP,
      gr_headers = [www_dpop ''invalid_dpop_proof''], gr_logged = Some ''DPoP proof did not verify''\<rparr>, demo_gate newMemory)"
    unfolding demo_handle [OF t] by (simp add: second_def)
  have "DPoPNonceEnabled (g_cfg (demo_gate newMemory :: (nat, memory) gate)) \<longrightarrow> g_nonce (demo_gate newMemory :: (nat, memory) gate) \<noteq> None"
    by (simp add: demo_gate_def default_cfg_def)
  from refusals_say_nothing [OF h this, unfolded demo_token, OF demo_parseToken [OF t]] h show ?thesis
    by (simp add: wants_nonce_def outward_def split: option.splits)
qed

text \<open>
  a challenge is a plain 401 that says \<open>use_dpop_nonce\<close> and carries a nonce which this
  service accepts until the nonce's lifetime and the leeway have passed since the second it
  was issued in, so the caller can retry at once.
\<close>

theorem challenge_is_usable:
  assumes "handle lib g ts rq = (Inl resp, g')" "(''DPoP-Nonce'', n) \<in> set (gr_headers resp)"
    and "\<And>k m. length (gl_hmac lib k m) = sha256_size" "in_int64 (unix_seconds (t_issue ts))"
    and "0 \<le> TokenClockSkewLeeway (g_cfg g)"
  shows "gr_error resp = PublicError Unauthorized \<and> www_dpop ''use_dpop_nonce'' \<in> set (gr_headers resp)
     \<and> (\<exists>i. g_nonce g = Some i \<and> (0 \<le> n_ttl i \<and> n_ttl i + TokenClockSkewLeeway (g_cfg g) < max_duration \<longrightarrow>
          (\<forall>t. nonce_verify (gl_hmac lib) i t n (TokenClockSkewLeeway (g_cfg g)) = Inr () \<longleftrightarrow>
               t \<le> t_issue ts - t_issue ts mod second + n_ttl i + TokenClockSkewLeeway (g_cfg g))))"
proof -
  obtain g1 where v: "validate lib g ts rq (bearerToken (rq_header rq ''Authorization'')) = (Inr (Challenge n), g1)"
    and r: "gr_error resp = PublicError Unauthorized" "www_dpop ''use_dpop_nonce'' \<in> set (gr_headers resp)"
    using assms(1,2)
    by (auto simp: handle_def www_dpop_def split: prod.splits sum.splits gate_error.splits public_error.splits auth_result.splits)
  obtain p g0 where p: "parseToken lib g ts (bearerToken (rq_header rq ''Authorization'')) = (p, g0)" by (metis prod.exhaust)
  note k = parseToken_keeps [OF p]
  obtain cl where "p = Inr cl" and b: "validate_bound lib g0 ts rq (bearerToken (rq_header rq ''Authorization'')) cl = (Inr (Challenge n), g1)"
    using v p by (cases p) (auto simp: validate_def Let_def split: if_splits)
  have "challenge lib g0 ts = Inr (Challenge n)"
    using b by (auto simp: validate_bound_def Let_def split: sum.splits if_splits prod.splits bool.splits)
  then obtain i where i: "g_nonce g = Some i" "n = issue (gl_hmac lib) i (t_issue ts)"
    using k by (auto simp: challenge_def split: option.splits)
  with r issued_window [of "gl_hmac lib", OF assms(3,4) _ assms(5)] show ?thesis by auto
qed

definition nonce_gate :: "(nat, memory) gate" where
  "nonce_gate = (demo_gate newMemory)\<lparr>g_cfg := default_cfg\<lparr>DPoPNonceEnabled := True\<rparr>, g_nonce := Some demo_issuer\<rparr>"

theorem challenge_is_usable_witness:
  "\<exists>n. nonce_verify demo_hmac demo_issuer (60 * second) n (30 * second) = Inr ()
     \<and> (\<exists>resp g'. handle (demo_lib 0) nonce_gate (all_at 0) demo_request = (Inl resp, g') \<and> (''DPoP-Nonce'', n) \<in> set (gr_headers resp))"
proof -
  let ?n = "issue demo_hmac demo_issuer 0"
  let ?opt = "proof_options (default_cfg\<lparr>DPoPNonceEnabled := True\<rparr>) demo_request ''tok''"
  have w: "window_ok ?opt" by (simp add: window_ok_def proof_options_def default_cfg_def eval_simps)
  have url: "requestURL demo_request = ''http://api/x''" by (simp add: requestURL_def Let_def firstForwardedValue_def demo_request_def)
  have p: "run_parser demo_header_of (demo_checked 0) (proof_keyfunc demo_jwks) ''proof'' '''' = (Inr (demo_claims 0), demo_tp)"
    by (simp add: demo_tp_def run_parser_def demo_header_of_def demo_proof_header_def proof_keyfunc_def keyFromHeader_def demo_jwks_def demo_checked_def)
  have o: "vo_Method ?opt = ''GET''" "vo_URL ?opt = ''http://api/x''" "vo_AccessToken ?opt = ''tok''" "vo_RequireNonce ?opt"
      "vo_MaxAge ?opt = 60 * second" "vo_Leeway ?opt = 30 * second"
    using url by (simp_all add: proof_options_def demo_request_def default_cfg_def)
  have "\<not> (time_sub 0 0 > wrap64 (vo_MaxAge ?opt + vo_Leeway ?opt) \<or> time_sub 0 0 > vo_Leeway ?opt)"
    using window_iff [OF w, of 0 0] by (simp add: o second_def)
  then have v: "dpop_verify demo_jwks demo_url id (run_parser demo_header_of (demo_checked 0)) 0 ''proof'' ?opt = Inl ErrMissingNonce"
    by (simp add: dpop_verify_def p demo_claims_def o equal_fold_def normalizeHTU_def demo_url_def url_String_def)
  have t: "parseToken (demo_lib 0) nonce_gate (all_at 0) ''tok'' = (Inr demo_user, nonce_gate)"
    by (simp add: parseToken_def Let_def demo_lib_on_def nonce_gate_def demo_gate_def all_at_def run_parser_def demo_token_header_def
        demo_token_checked_def key_for_def cached_key_def mget_def eval_simps)
  have g: "g_cfg nonce_gate = default_cfg\<lparr>DPoPNonceEnabled := True\<rparr>" "g_nonce nonce_gate = Some demo_issuer"
      "RequireDPoP (default_cfg\<lparr>DPoPNonceEnabled := True\<rparr>)" "thumbprint demo_user \<noteq> ''''" "rq_header demo_request ''DPoP'' = ''proof''"
      "TokenClockSkewLeeway (default_cfg\<lparr>DPoPNonceEnabled := True\<rparr>) = 30 * second"
      "gl_jwk (demo_lib 0) = demo_jwks" "gl_url (demo_lib 0) = demo_url" "gl_sha256 (demo_lib 0) = id" "gl_hmac (demo_lib 0) = demo_hmac"
      "gl_proof_parse (demo_lib 0) = run_parser demo_header_of (demo_checked 0)" "t_proof (all_at 0) = 0" "t_issue (all_at 0) = 0"
    by (simp_all add: nonce_gate_def default_cfg_def thumbprint_def demo_user_def demo_request_def demo_lib_on_def all_at_def)
  have h: "handle (demo_lib 0) nonce_gate (all_at 0) demo_request = (Inl \<lparr>gr_error = PublicError Unauthorized,
      gr_headers = [(''DPoP-Nonce'', ?n), www_dpop ''use_dpop_nonce''], gr_logged = None\<rparr>, nonce_gate)"
    by (simp add: handle_def validate_def demo_token t validate_bound_def g v challenge_def)
  have u: "in_int64 (unix_seconds (t_issue (all_at 0)))" by (simp add: all_at_def unix_seconds_def eval_simps)
  have m: "length (gl_hmac (demo_lib 0) k x) = sha256_size" for k x by (simp add: g length_demo_hmac)
  have l: "0 \<le> TokenClockSkewLeeway (g_cfg nonce_gate)" by (simp add: g second_def)
  have n: "n_ttl demo_issuer = 60 * second" by (simp add: demo_issuer_def minute_def)
  have "nonce_verify demo_hmac demo_issuer (60 * second) ?n (30 * second) = Inr ()"
    using challenge_is_usable [OF h _ m u l, of ?n] by (simp add: g n) (simp add: second_def max_duration_def)
  with h show ?thesis by auto
qed

end
