(* ===== verification/Client_Config.thy ===== *)
theory Client_Config
  imports Auth_Gate
begin

text \<open>
  Where the auth client's configuration comes from (\<open>src/authclient/config.go\<close>): the defaults
  and environment bindings \<open>Bind\<close> registers, and the rules of the struct tags that \<open>Validate\<close>
  has checked. The settings themselves are arguments: \<open>env\<close> answers the value of an
  environment variable that is set and not empty, \<open>file\<close> that of a key of the configuration file.
\<close>

section \<open>Binding\<close>

datatype setting = Text string | Span duration | Flag bool | Texts "string list"

record settings =
  vp_defaults :: "(string, setting) gomap"
  vp_env :: "(string, string) gomap"

definition setDefault :: "string \<Rightarrow> setting \<Rightarrow> settings \<Rightarrow> settings" where
  "setDefault k x v = v\<lparr>vp_defaults := mput (vp_defaults v) k x\<rparr>"

definition bindEnv :: "string \<Rightarrow> string \<Rightarrow> settings \<Rightarrow> settings" where
  "bindEnv k var v = v\<lparr>vp_env := mput (vp_env v) k var\<rparr>"

definition config_defaults :: "(string \<times> setting) list" where
  "config_defaults =
     [(''.jwks_cache_ttl'', Span (10 * minute)), (''.service_token_early_refresh'', Span (30 * second)),
      (''.dpop_proof_max_age'', Span (60 * second)), (''.token_clock_skew_leeway'', Span (30 * second)),
      (''.dpop_replay_backend'', Text replayBackendMemory), (''.dpop_nonce_enabled'', Flag True),
      (''.dpop_nonce_ttl'', Span (5 * minute)), (''.require_dpop'', Flag True)]"

definition config_variables :: "(string \<times> string) list" where
  "config_variables =
     [(''.issuer_url'', ''AUTH_ISSUER_URL''), (''.jwks_url'', ''AUTH_JWKS_URL''), (''.jwks_cache_ttl'', ''AUTH_JWKS_CACHE_TTL''),
      (''.service_audience'', ''SERVICE_AUDIENCE''), (''.service_client_id'', ''SERVICE_CLIENT_ID''),
      (''.service_client_secret'', ''SERVICE_CLIENT_SECRET''), (''.service_token_early_refresh'', ''SERVICE_TOKEN_EARLY_REFRESH''),
      (''.dpop_proof_max_age'', ''DPOP_PROOF_MAX_AGE''), (''.token_clock_skew_leeway'', ''TOKEN_CLOCK_SKEW_LEEWAY''),
      (''.dpop_replay_backend'', ''DPOP_REPLAY_BACKEND''), (''.redis_url'', ''REDIS_URL''),
      (''.dpop_nonce_enabled'', ''DPOP_NONCE_ENABLED''), (''.dpop_nonce_ttl'', ''DPOP_NONCE_TTL''), (''.require_dpop'', ''REQUIRE_DPOP'')]"

text \<open>\<open>secret\<close> is the answer of the remote secret store, \<open>None\<close> for an error.\<close>

definition bind_config :: "string \<Rightarrow> string option \<Rightarrow> settings \<Rightarrow> settings" where
  "bind_config pre secret v =
     (let v1 = fold (\<lambda>(k, x). setDefault (pre @ k) x) config_defaults v;
          v2 = (case secret of
                  Some s \<Rightarrow> if s \<noteq> '''' then setDefault (pre @ ''.service_client_secret'') (Text s) v1 else v1
                | None \<Rightarrow> v1)
      in fold (\<lambda>(k, var). bindEnv (pre @ k) var) config_variables v2)"

section \<open>Reading\<close>

text \<open>A key's value: its variable's, else the file's, else the default.\<close>

definition setting_of :: "(string \<Rightarrow> setting option) \<Rightarrow> (string \<Rightarrow> setting option) \<Rightarrow> settings \<Rightarrow> string \<Rightarrow> setting option" where
  "setting_of env file v k =
     (case Option.bind (mget (vp_env v) k) env of
        Some x \<Rightarrow> Some x
      | None \<Rightarrow> (case file k of Some x \<Rightarrow> Some x | None \<Rightarrow> mget (vp_defaults v) k))"

fun text_of :: "setting option \<Rightarrow> string" where
  "text_of (Some (Text s)) = s"
| "text_of _ = ''''"

fun span_of :: "setting option \<Rightarrow> duration" where
  "span_of (Some (Span d)) = d"
| "span_of _ = 0"

fun flag_of :: "setting option \<Rightarrow> bool" where
  "flag_of (Some (Flag b)) = b"
| "flag_of _ = False"

fun texts_of :: "setting option \<Rightarrow> string list" where
  "texts_of (Some (Texts l)) = l"
| "texts_of _ = []"

text \<open>The fields by their \<open>mapstructure\<close> names.\<close>

definition read_config :: "(string \<Rightarrow> setting option) \<Rightarrow> string \<Rightarrow> configuration" where
  "read_config look pre =
     \<lparr>IssuerURL = text_of (look (pre @ ''.issuer_url'')), JWKSURL = text_of (look (pre @ ''.jwks_url'')),
      JWKSCacheTTL = span_of (look (pre @ ''.jwks_cache_ttl'')), ServiceAudience = text_of (look (pre @ ''.service_audience'')),
      AlsoAcceptedAudiences = texts_of (look (pre @ ''.also_accepted_audiences'')),
      ServiceClientID = text_of (look (pre @ ''.service_client_id'')),
      ServiceClientSecret = text_of (look (pre @ ''.service_client_secret'')),
      ServiceTokenEarlyRefresh = span_of (look (pre @ ''.service_token_early_refresh'')),
      DPoPProofMaxAge = span_of (look (pre @ ''.dpop_proof_max_age'')),
      TokenClockSkewLeeway = span_of (look (pre @ ''.token_clock_skew_leeway'')),
      DPoPReplayBackend = text_of (look (pre @ ''.dpop_replay_backend'')), RedisURL = text_of (look (pre @ ''.redis_url'')),
      DPoPNonceEnabled = flag_of (look (pre @ ''.dpop_nonce_enabled'')), DPoPNonceTTL = span_of (look (pre @ ''.dpop_nonce_ttl'')),
      RequireDPoP = flag_of (look (pre @ ''.require_dpop''))\<rparr>"

section \<open>Validation\<close>

text \<open>The \<open>validate\<close> tags, field by field; \<open>is_url\<close> is the validator's rule of that name.\<close>

definition validate_config :: "(string \<Rightarrow> bool) \<Rightarrow> configuration \<Rightarrow> bool" where
  "validate_config is_url cfg \<longleftrightarrow>
     IssuerURL cfg \<noteq> '''' \<and> is_url (IssuerURL cfg) \<and> (JWKSURL cfg = '''' \<or> is_url (JWKSURL cfg))
     \<and> JWKSCacheTTL cfg \<noteq> 0 \<and> JWKSCacheTTL cfg > 0 \<and> ServiceAudience cfg \<noteq> ''''
     \<and> ServiceTokenEarlyRefresh cfg \<noteq> 0 \<and> ServiceTokenEarlyRefresh cfg > 0
     \<and> DPoPProofMaxAge cfg \<noteq> 0 \<and> DPoPProofMaxAge cfg > 0 \<and> TokenClockSkewLeeway cfg \<ge> 0
     \<and> DPoPReplayBackend cfg \<in> {replayBackendMemory, replayBackendRedis}
     \<and> (DPoPReplayBackend cfg = replayBackendRedis \<longrightarrow> RedisURL cfg \<noteq> '''')
     \<and> DPoPNonceTTL cfg \<noteq> 0 \<and> DPoPNonceTTL cfg > 0"

lemmas config_eval [eval_simps] = setDefault_def bindEnv_def config_defaults_def config_variables_def bind_config_def setting_of_def
  read_config_def validate_config_def

section \<open>What a validated configuration gives\<close>

definition no_settings :: settings where "no_settings = \<lparr>vp_defaults = [], vp_env = []\<rparr>"

lemma bound_variable:
  "mget (vp_env (bind_config pre secret no_settings)) (pre @ k) = map_of config_variables k"
  by (auto simp: bind_config_def config_variables_def bindEnv_def gomap_simps setDefault_def config_defaults_def no_settings_def Let_def
      split: option.splits)

lemma bound_default:
  "k \<noteq> ''.service_client_secret'' \<Longrightarrow>
     mget (vp_defaults (bind_config pre secret no_settings)) (pre @ k) = map_of config_defaults k"
  by (auto simp: bind_config_def config_variables_def bindEnv_def gomap_simps setDefault_def config_defaults_def no_settings_def Let_def
      split: option.splits)

text \<open>The store is made of the Redis URL only when the backend is Redis and no client was given.\<close>

definition needs_redis_url :: "configuration \<Rightarrow> 'r option \<Rightarrow> bool" where
  "needs_redis_url cfg rc \<longleftrightarrow> DPoPReplayBackend cfg = replayBackendRedis \<and> rc = None"

lemma validated_store:
  assumes "validate_config is_url cfg"
  shows "case newReplayStore redis_parse cfg rc of
      Inl x \<Rightarrow> needs_redis_url cfg rc \<and> (\<exists>e. redis_parse (RedisURL cfg) = Inl e \<and> x = BadRedisURL e)
    | Inr (UseMemory m) \<Rightarrow> DPoPReplayBackend cfg = replayBackendMemory \<and> m = newMemory
    | Inr (UseRedis r) \<Rightarrow> DPoPReplayBackend cfg = replayBackendRedis \<and> (rc = Some r \<or> rc = None \<and> redis_parse (RedisURL cfg) = Inr r)"
  using assms by (cases rc) (auto simp: newReplayStore_def validate_config_def needs_redis_url_def replayBackendMemory_def replayBackendRedis_def
      split: sum.splits)

lemma newGate_from_store:
  assumes "thumbprintOf jl k = Inr jkt"
  shows "newGate jl redis_parse (Some key_bytes) (Inr k) cfg rc = (case newReplayStore redis_parse cfg rc of
      Inl e \<Rightarrow> Inl e
    | Inr s \<Rightarrow> Inr \<lparr>g_cfg = cfg, g_jwks_url = jwks_url cfg, g_jwks = newJwks (JWKSCacheTTL cfg) [], g_replay = s,
        g_nonce = (if DPoPNonceEnabled cfg then Some \<lparr>n_key = key_bytes, n_ttl = DPoPNonceTTL cfg\<rparr> else None),
        g_dpopKey = k, g_jkt = jkt, g_tokenURL = token_url cfg\<rparr>)"
  using assms by (simp add: newGate_def newIssuer_def split: sum.split)

text \<open>
  C39: A configuration bound under any prefix that passes validation makes a client when the key and
  the nonces' bytes can be made, whichever store it names; it fails only when it names Redis, no
  Redis client is given and the URL does not parse, and with that error. The memory backend is given
  an empty memory of its own, whatever the URL is; the other asks the given client, or the one
  made of the URL. The client issues nonces exactly when they are on, of the configured lifetime. Proofs
  are required and nonces on unless the environment or the file says otherwise, and where
  proofs are required, the ages are such that the record of a proof is kept for the maximum age and
  the leeway, unless those do not fit a duration.
\<close>

theorem validated_config_builds:
  assumes "cfg = read_config (setting_of env file (bind_config pre secret no_settings)) pre" "validate_config is_url cfg"
    and "thumbprintOf jl k = Inr jkt"
  shows "(case newGate jl redis_parse (Some key_bytes) (Inr k) cfg rc of
        Inl x \<Rightarrow> needs_redis_url cfg rc \<and> (\<exists>e. redis_parse (RedisURL cfg) = Inl e \<and> x = BadRedisURL e)
      | Inr g \<Rightarrow> g_cfg g = cfg
        \<and> (case g_replay g of
             UseMemory m \<Rightarrow> DPoPReplayBackend cfg = replayBackendMemory \<and> m = newMemory
           | UseRedis r \<Rightarrow> DPoPReplayBackend cfg = replayBackendRedis \<and> (rc = Some r \<or> rc = None \<and> redis_parse (RedisURL cfg) = Inr r))
        \<and> g_nonce g = (if DPoPNonceEnabled cfg then Some \<lparr>n_key = key_bytes, n_ttl = DPoPNonceTTL cfg\<rparr> else None))
    \<and> (RequireDPoP cfg \<or> env ''REQUIRE_DPOP'' \<noteq> None \<or> file (pre @ ''.require_dpop'') \<noteq> None)
    \<and> (DPoPNonceEnabled cfg \<or> env ''DPOP_NONCE_ENABLED'' \<noteq> None \<or> file (pre @ ''.dpop_nonce_enabled'') \<noteq> None)
    \<and> (RequireDPoP cfg \<and> DPoPProofMaxAge cfg + TokenClockSkewLeeway cfg < max_duration \<longrightarrow> cfg_ok cfg)"
proof (intro conjI)
  show "case newGate jl redis_parse (Some key_bytes) (Inr k) cfg rc of
        Inl x \<Rightarrow> needs_redis_url cfg rc \<and> (\<exists>e. redis_parse (RedisURL cfg) = Inl e \<and> x = BadRedisURL e)
      | Inr g \<Rightarrow> g_cfg g = cfg
        \<and> (case g_replay g of
             UseMemory m \<Rightarrow> DPoPReplayBackend cfg = replayBackendMemory \<and> m = newMemory
           | UseRedis r \<Rightarrow> DPoPReplayBackend cfg = replayBackendRedis \<and> (rc = Some r \<or> rc = None \<and> redis_parse (RedisURL cfg) = Inr r))
        \<and> g_nonce g = (if DPoPNonceEnabled cfg then Some \<lparr>n_key = key_bytes, n_ttl = DPoPNonceTTL cfg\<rparr> else None)"
    unfolding newGate_from_store [OF assms(3)] using validated_store [OF assms(2), where redis_parse = redis_parse and rc = rc] by (simp split: sum.splits)
  have d: "RequireDPoP cfg = flag_of (setting_of env file (bind_config pre secret no_settings) (pre @ ''.require_dpop''))"
      "DPoPNonceEnabled cfg = flag_of (setting_of env file (bind_config pre secret no_settings) (pre @ ''.dpop_nonce_enabled''))"
    unfolding assms(1) read_config_def by simp_all
  show "RequireDPoP cfg \<or> env ''REQUIRE_DPOP'' \<noteq> None \<or> file (pre @ ''.require_dpop'') \<noteq> None"
    unfolding d setting_of_def bound_variable by (simp add: bound_default config_variables_def config_defaults_def split: option.splits)
  show "DPoPNonceEnabled cfg \<or> env ''DPOP_NONCE_ENABLED'' \<noteq> None \<or> file (pre @ ''.dpop_nonce_enabled'') \<noteq> None"
    unfolding d setting_of_def bound_variable by (simp add: bound_default config_variables_def config_defaults_def split: option.splits)
  show "RequireDPoP cfg \<and> DPoPProofMaxAge cfg + TokenClockSkewLeeway cfg < max_duration \<longrightarrow> cfg_ok cfg"
    using assms(2) by (simp add: validate_config_def cfg_ok_def)
qed

definition demo_variables :: "string \<Rightarrow> setting option" where
  "demo_variables var = map_of [(''AUTH_ISSUER_URL'', Text ''https://auth''), (''SERVICE_AUDIENCE'', Text ''svc'')] var"

text \<open>A parser of Redis URLs that, as the library's, takes no empty one.\<close>

definition demo_redis_parse :: "string \<Rightarrow> (string, unit) result" where
  "demo_redis_parse s = (if s = '''' then Inl ''redis: invalid URL scheme: '' else Inr ())"

theorem validated_config_builds_witness:
  "\<exists>cfg g. cfg = read_config (setting_of demo_variables (\<lambda>_. None) (bind_config ''auth'' (Some ''s3'') no_settings)) ''auth''
     \<and> RequireDPoP cfg \<and> ServiceClientSecret cfg = ''s3'' \<and> cfg_ok cfg
     \<and> newGate demo_jwks demo_redis_parse (Some ''nk'') (Inr 7) cfg None = Inr g \<and> g_nonce g = Some \<lparr>n_key = ''nk'', n_ttl = 5 * minute\<rparr>
     \<and> g_replay g = UseMemory newMemory"
proof -
  let ?v = "bind_config ''auth'' (Some ''s3'') no_settings"
  let ?cfg = "read_config (setting_of demo_variables (\<lambda>_. None) ?v) ''auth''"
  have n: "demo_variables ''REQUIRE_DPOP'' = None" "demo_variables ''DPOP_NONCE_ENABLED'' = None" by (simp_all add: demo_variables_def)
  have c: "?cfg = \<lparr>IssuerURL = ''https://auth'', JWKSURL = '''', JWKSCacheTTL = 10 * minute, ServiceAudience = ''svc'',
     AlsoAcceptedAudiences = [], ServiceClientID = '''', ServiceClientSecret = ''s3'', ServiceTokenEarlyRefresh = 30 * second,
     DPoPProofMaxAge = 60 * second, TokenClockSkewLeeway = 30 * second, DPoPReplayBackend = ''memory'', RedisURL = '''',
     DPoPNonceEnabled = True, DPoPNonceTTL = 5 * minute, RequireDPoP = True\<rparr>"
    by (simp add: read_config_def setting_of_def bind_config_def Let_def config_defaults_def config_variables_def setDefault_def bindEnv_def
        no_settings_def gomap_simps demo_variables_def replayBackendMemory_def)
  have v: "validate_config (\<lambda>_. True) ?cfg"
    unfolding c by (simp add: validate_config_def replayBackendMemory_def replayBackendRedis_def minute_def second_def)
  have f: "DPoPNonceEnabled ?cfg" "DPoPNonceTTL ?cfg = 5 * minute" "RequireDPoP ?cfg" "ServiceClientSecret ?cfg = ''s3''"
      "DPoPProofMaxAge ?cfg + TokenClockSkewLeeway ?cfg < max_duration"
    unfolding c by (simp_all add: second_def max_duration_def)
  have tp: "thumbprintOf demo_jwks 7 = Inr demo_tp" by (simp add: thumbprintOf_def demo_jwks_def demo_tp_def)
  have m: "DPoPReplayBackend ?cfg \<noteq> replayBackendRedis" unfolding c by (simp add: replayBackendRedis_def)
  from validated_config_builds [where redis_parse = demo_redis_parse, OF refl v tp, where key_bytes = "''nk''" and rc = None] f m
  show ?thesis
    by (intro exI [of _ ?cfg] exI [of _ "projr (newGate demo_jwks demo_redis_parse (Some ''nk'') (Inr 7) ?cfg None)"])
      (auto simp: needs_redis_url_def split: sum.splits store_choice.splits)
qed

end
