(* ===== verification/Url_Encoding.thy ===== *)
theory Url_Encoding
  imports Encodings "HOL-Library.List_Lexorder" "HOL-Library.Char_ord"
begin

text \<open>
  What the sources use of \<open>net/url\<close> to write requests: \<open>QueryEscape\<close>, \<open>PathEscape\<close> and
  \<open>Values.Encode\<close>, and of \<open>strconv\<close> and \<open>encoding/base64\<close> the signed numbers and the padded
  encoding. Both escapes are codecs whose decoder is the reader's unescape, so a name written
  into an address is read back whole and adds no structure of its own.
\<close>

section \<open>Percent escapes\<close>

definition unreserved :: "char \<Rightarrow> bool" where
  "unreserved c \<longleftrightarrow> is_letter c \<or> is_digit c \<or> c \<in> set ''-_.~''"

definition kept_in_segment :: "char \<Rightarrow> bool" where
  "kept_in_segment c \<longleftrightarrow> unreserved c \<or> c \<in> set ''$&+:=@''"

definition upper_hex :: string where
  "upper_hex = ''0123456789ABCDEF''"

definition percent :: "char \<Rightarrow> string" where
  "percent c = [CHR ''%'', upper_hex ! (ord c div 16), upper_hex ! (ord c mod 16)]"

definition query_char :: "char \<Rightarrow> string" where
  "query_char c = (if unreserved c then [c] else if c = CHR '' '' then ''+'' else percent c)"

definition segment_char :: "char \<Rightarrow> string" where
  "segment_char c = (if kept_in_segment c then [c] else percent c)"

definition query_escape :: "string \<Rightarrow> string" where
  "query_escape s = concat (map query_char s)"

definition path_escape :: "string \<Rightarrow> string" where
  "path_escape s = concat (map segment_char s)"

text \<open>The reader's side; \<open>sp\<close> says that a plus sign is a space.\<close>

fun unescape :: "bool \<Rightarrow> string \<Rightarrow> string option" where
  "unescape sp [] = Some []"
| "unescape sp (c # s) =
     (if c = CHR ''%'' then (case s of
          a # b # t \<Rightarrow> (case (index_of a upper_hex, index_of b upper_hex, unescape sp t) of
             (Some i, Some j, Some r) \<Rightarrow> Some (char_of (i * 16 + j) # r) | _ \<Rightarrow> None)
        | _ \<Rightarrow> None)
      else map_option (\<lambda>r. (if sp \<and> c = CHR ''+'' then CHR '' '' else c) # r) (unescape sp s))"

lemma upper_hex_digit: "i < 16 \<Longrightarrow> index_of (upper_hex ! i) upper_hex = Some i"
  by (rule index_of_nth) (simp_all add: upper_hex_def)

lemma ord_div16 [simp]: "ord b div 16 < 16"
  using ord_less_256 [of b] by linarith

lemma unescape_percent: "unescape sp (percent c @ s) = map_option ((#) c) (unescape sp s)"
  by (simp add: percent_def upper_hex_digit split: option.splits)

lemma unreserved_not: "unreserved c \<Longrightarrow> c \<noteq> CHR ''%'' \<and> c \<noteq> CHR ''+'' \<and> c \<noteq> CHR '' '' \<and> c \<noteq> CHR ''&'' \<and> c \<noteq> CHR ''='' \<and> c \<noteq> CHR ''/''
    \<and> c \<noteq> CHR ''?'' \<and> c \<noteq> CHR ''#'' \<and> c \<noteq> CHR 0x5C"
  by (auto simp: unreserved_def char_class_defs ord_def)

lemma unescape_query_char: "unescape True (query_char c @ s) = map_option ((#) c) (unescape True s)"
  using unreserved_not [of c] by (auto simp: query_char_def unescape_percent option.map_comp comp_def)

lemma unescape_segment_char: "unescape False (segment_char c @ s) = map_option ((#) c) (unescape False s)"
  using unreserved_not [of c] by (auto simp: segment_char_def kept_in_segment_def unescape_percent)

lemma query_unescape [codec_simps]: "unescape True (query_escape s) = Some s"
  by (induction s) (simp_all add: query_escape_def unescape_query_char)

lemma path_unescape [codec_simps]: "unescape False (path_escape s) = Some s"
  by (induction s) (simp_all add: path_escape_def unescape_segment_char)

interpretation query: codec query_escape "unescape True" "\<lambda>_. True"
  by unfold_locales (simp add: query_unescape)

interpretation path: codec path_escape "unescape False" "\<lambda>_. True"
  by unfold_locales (simp add: path_unescape)

section \<open>What escapes keep out\<close>

lemma upper_hex_chars: "i < 16 \<Longrightarrow> unreserved (upper_hex ! i)"
  using nth_mem [of i upper_hex] by (auto simp: upper_hex_def unreserved_def char_class_defs ord_def)

lemma query_escape_chars: "c \<in> set (query_escape s) \<Longrightarrow> unreserved c \<or> c = CHR ''%'' \<or> c = CHR ''+''"
  by (auto simp: query_escape_def query_char_def percent_def upper_hex_chars split: if_splits)

lemma path_escape_chars: "c \<in> set (path_escape s) \<Longrightarrow> kept_in_segment c \<or> c = CHR ''%''"
  by (auto simp: path_escape_def segment_char_def percent_def kept_in_segment_def upper_hex_chars split: if_splits)

lemma query_escape_no_sep: "CHR ''&'' \<notin> set (query_escape s)" "CHR ''='' \<notin> set (query_escape s)"
  using query_escape_chars [of "CHR ''&''" s] query_escape_chars [of "CHR ''=''" s] unreserved_not by auto

lemma path_escape_no_sep: "CHR ''/'' \<notin> set (path_escape s)" "CHR ''?'' \<notin> set (path_escape s)" "CHR ''#'' \<notin> set (path_escape s)"
  using path_escape_chars [of "CHR ''/''" s] path_escape_chars [of "CHR ''?''" s] path_escape_chars [of "CHR ''#''" s] unreserved_not
  by (auto simp: kept_in_segment_def)

section \<open>Forms and queries\<close>

text \<open>
  \<open>url.Values\<close> as the source fills them, one value per name; \<open>Encode\<close> writes them sorted by name.
  \<open>parse_values\<close> is the reader's side.
\<close>

type_synonym url_values = "(string \<times> string) list"

definition encode_pair :: "string \<times> string \<Rightarrow> string" where
  "encode_pair p = query_escape (fst p) @ ''='' @ query_escape (snd p)"

definition encode_values :: "url_values \<Rightarrow> string" where
  "encode_values q = join_with ''&'' (map encode_pair (sort_key fst q))"

definition parse_pair :: "string \<Rightarrow> (string \<times> string) option" where
  "parse_pair s = (case cut_at (CHR ''='') s of (k, v, _) \<Rightarrow>
     case (unescape True k, unescape True v) of (Some a, Some b) \<Rightarrow> Some (a, b) | _ \<Rightarrow> None)"

definition parse_values :: "string \<Rightarrow> url_values option" where
  "parse_values s = those (map parse_pair (split_on (CHR ''&'') s))"

lemma parse_encode_pair [simp]: "parse_pair (encode_pair p) = Some p"
  by (cases p) (simp add: parse_pair_def encode_pair_def cut_at_found query_escape_no_sep query_unescape)

lemma encode_pair_no_amp: "CHR ''&'' \<notin> set (encode_pair p)"
  by (simp add: encode_pair_def query_escape_no_sep)

lemma those_map_Some: "(\<And>x. f (g x) = Some x) \<Longrightarrow> those (map (f \<circ> g) xs) = Some xs"
  by (induction xs) simp_all

lemma parse_encode_values: "q \<noteq> [] \<Longrightarrow> parse_values (encode_values q) = Some (sort_key fst q)"
proof -
  assume "q \<noteq> []"
  then have ne: "map encode_pair (sort_key fst q) \<noteq> []" by (metis Nil_is_map_conv length_0_conv length_sort)
  have "split_on (CHR ''&'') (encode_values q) = map encode_pair (sort_key fst q)"
    unfolding encode_values_def by (rule split_on_join [OF ne]) (simp add: list_all_iff encode_pair_no_amp)
  then show ?thesis by (simp add: parse_values_def those_map_Some)
qed

section \<open>Quotients and padded base64\<close>

definition quot :: "int \<Rightarrow> int \<Rightarrow> int" where
  "quot a b = (if a < 0 then - ((- a) div b) else a div b)"

definition base64_padded :: "bytes \<Rightarrow> string" where
  "base64_padded bs = base64_encode base64_std bs @ replicate ((3 - length bs mod 3) mod 3) (CHR ''='')"

lemmas url_eval [eval_simps] = unreserved_def kept_in_segment_def upper_hex_def percent_def query_char_def segment_char_def
  query_escape_def path_escape_def encode_pair_def encode_values_def parse_pair_def parse_values_def format_int_def quot_def
  base64_padded_def

end
