(* ===== verification/Http_Calls.thy ===== *)
theory Http_Calls
  imports Url_Encoding
begin

text \<open>
  HTTP as the clients use it (\<open>net/http\<close>): headers, requests, answers and a transport; and what
  the four senders of the library have in common, the loops of two attempts of
  \<open>authclient/outbound.go\<close>, \<open>authclient/background.go\<close> and \<open>asclient/client.go\<close>: one retry
  when the server asks for a nonce. Their contract is the locale \<open>nonce_retry\<close>, interpreted on
  each of them.
\<close>

section \<open>HTTP\<close>

text \<open>
  \<open>http.Header\<close>: names are canonical, as \<open>Set\<close>, \<open>Add\<close> and \<open>Get\<close> make them.
\<close>

definition token_char :: "char \<Rightarrow> bool" where
  "token_char c \<longleftrightarrow> is_letter c \<or> is_digit c \<or> c \<in> set ''!#$%&*+-.^_|~'' \<or> c = CHR 0x27 \<or> c = CHR 0x60"

fun canonical_from :: "bool \<Rightarrow> string \<Rightarrow> string" where
  "canonical_from up [] = []"
| "canonical_from up (c # cs) = (if up then upper_char c else lower_char c) # canonical_from (c = CHR ''-'') cs"

definition canonical_name :: "string \<Rightarrow> string" where
  "canonical_name n = (if list_all token_char n then canonical_from True n else n)"

type_synonym header = "(string \<times> string) list"

definition header_set :: "header \<Rightarrow> string \<Rightarrow> string \<Rightarrow> header" where
  "header_set h k x = filter (\<lambda>(n, _). n \<noteq> canonical_name k) h @ [(canonical_name k, x)]"

definition header_add :: "header \<Rightarrow> string \<Rightarrow> string \<Rightarrow> header" where
  "header_add h k x = h @ [(canonical_name k, x)]"

definition header_get :: "header \<Rightarrow> string \<Rightarrow> string" where
  "header_get h k = (case map_of h (canonical_name k) of None \<Rightarrow> '''' | Some x \<Rightarrow> x)"

record http_request =
  hq_method :: string
  hq_url :: string
  hq_header :: header
  hq_body :: "bytes option"

record http_response =
  hp_status :: nat
  hp_header :: header
  hp_body :: bytes

type_synonym 'w transport = "'w \<Rightarrow> http_request \<Rightarrow> (string, http_response) result \<times> 'w"

lemmas http_eval [eval_simps] = token_char_def canonical_name_def header_set_def header_add_def header_get_def

section \<open>Headers\<close>

lemma map_of_filter_other: "map_of (filter (\<lambda>(n, _). n \<noteq> k) h) j = (if j = k then None else map_of h j)"
  by (induction h) auto

lemma header_get_set_same [simp]: "header_get (header_set h k x) k = x"
  by (simp add: header_get_def header_set_def map_of_filter_other map_add_def)

lemma header_get_set_other: "canonical_name j \<noteq> canonical_name k \<Longrightarrow> header_get (header_set h k x) j = header_get h j"
  by (simp add: header_get_def header_set_def map_of_filter_other map_add_def split: option.split)

lemma canonical_names:
  "canonical_name ''Authorization'' = ''Authorization''" "canonical_name ''DPoP'' = ''Dpop''"
  "canonical_name ''Content-Type'' = ''Content-Type''" "canonical_name ''DPoP-Nonce'' = ''Dpop-Nonce''"
  by (simp_all add: canonical_name_def token_char_def char_class_defs upper_char_def lower_char_def ord_def char_of_def bit_0 bit_Suc_0_iff)

section \<open>One retry for a nonce\<close>

text \<open>
  A chain of requests made with nonces: the first with the given one, each further one only after
  the server answered the one before it with a challenge, and with that challenge's nonce.
\<close>

fun nonce_chain :: "'w transport \<Rightarrow> (string \<Rightarrow> http_request \<Rightarrow> bool) \<Rightarrow> string \<Rightarrow> http_request list \<Rightarrow> bool" where
  "nonce_chain send made n [] \<longleftrightarrow> True"
| "nonce_chain send made n (rq # rqs) \<longleftrightarrow> made n rq \<and> (rqs = [] \<or>
     (\<exists>w1 resp w2 n'. send w1 rq = (Inr resp, w2) \<and> hp_status resp = 401 \<and> header_get (hp_header resp) ''DPoP-Nonce'' = n' \<and>
        n' \<noteq> '''' \<and> nonce_chain send made n' rqs))"

lemma nonce_chain_all: "nonce_chain send made n rqs \<Longrightarrow> list_all (\<lambda>rq. \<exists>n. made n rq) rqs"
  by (induction send made n rqs rule: nonce_chain.induct) auto

definition challenged :: "'w transport \<Rightarrow> http_request \<Rightarrow> string \<Rightarrow> bool" where
  "challenged send rq n \<longleftrightarrow> n \<noteq> '''' \<and>
     (\<exists>w1 resp w2. send w1 rq = (Inr resp, w2) \<and> hp_status resp = 401 \<and> header_get (hp_header resp) ''DPoP-Nonce'' = n)"

lemma nonce_chain_challenged:
  "nonce_chain send made n (rq # rqs) \<longleftrightarrow> made n rq \<and> (rqs = [] \<or> (\<exists>n'. challenged send rq n' \<and> nonce_chain send made n' rqs))"
  by (auto simp: challenged_def)

text \<open>
  What one attempt with so many left does, from the client's state: it settles, having sent at
  most one request with the client's nonce, or its request was answered with a challenge and the
  rest is the last attempt, with the challenge's nonce remembered.
\<close>

locale nonce_retry =
  fixes attempts :: "nat \<Rightarrow> 'c \<Rightarrow> 'w \<Rightarrow> ('r \<times> http_request list) \<times> 'x"
    and nonce_of :: "'c \<Rightarrow> string"
    and remember :: "string \<Rightarrow> 'c \<Rightarrow> 'c"
    and settled :: "'c \<Rightarrow> 'x \<Rightarrow> bool"
    and send :: "'w transport"
    and made :: "string \<Rightarrow> http_request \<Rightarrow> bool"
    and gave_up :: 'r
  assumes nonce_of_remember: "nonce_of (remember n c) = n"
    and attempt: "attempts (Suc left) c w = ((r, rqs), x) \<Longrightarrow>
      r \<noteq> gave_up \<and> length rqs \<le> 1 \<and> list_all (made (nonce_of c)) rqs \<and> settled c x
      \<or> left = 1 \<and> (\<exists>rq rest n w1. rqs = rq # rest \<and> made (nonce_of c) rq \<and> challenged send rq n \<and>
          attempts left (remember n c) w1 = ((r, rest), x))"
begin

lemma last_attempt:
  "attempts 1 c w = ((r, rqs), x) \<Longrightarrow> r \<noteq> gave_up \<and> length rqs \<le> 1 \<and> list_all (made (nonce_of c)) rqs \<and> settled c x"
  using attempt [of 0] by auto

lemma chain_of_one: "length rqs \<le> 1 \<Longrightarrow> list_all (made n) rqs \<Longrightarrow> nonce_chain send made n rqs"
  by (cases rqs) auto

lemma retries_once:
  assumes "attempts 2 c w = ((r, rqs), x)"
  shows "r \<noteq> gave_up \<and> length rqs \<le> 2 \<and> nonce_chain send made (nonce_of c) rqs
    \<and> (settled c x \<or> (\<exists>n. challenged send (hd rqs) n \<and> settled (remember n c) x))"
proof -
  have "attempts (Suc 1) c w = ((r, rqs), x)" using assms by (simp add: numeral_2_eq_2)
  from attempt [OF this] show ?thesis
  proof
    assume "r \<noteq> gave_up \<and> length rqs \<le> 1 \<and> list_all (made (nonce_of c)) rqs \<and> settled c x"
    then show ?thesis using chain_of_one by auto
  next
    assume "1 = (1 :: nat) \<and> (\<exists>rq rest n w1. rqs = rq # rest \<and> made (nonce_of c) rq \<and> challenged send rq n \<and>
          attempts 1 (remember n c) w1 = ((r, rest), x))"
    then obtain rq rest n w1 where s: "rqs = rq # rest" "made (nonce_of c) rq" "challenged send rq n"
        and l: "attempts 1 (remember n c) w1 = ((r, rest), x)" by blast
    note f = last_attempt [OF l, unfolded nonce_of_remember]
    then have "nonce_chain send made n rest" using chain_of_one by blast
    with f s show ?thesis by (auto simp: nonce_chain_challenged simp del: nonce_chain.simps)
  qed
qed

end

end
