(* ===== verification/Go_Json.thy ===== *)
theory Go_Json
  imports Encodings
begin

text \<open>
  \<open>encoding/json\<close>, as far as the sources rely on it to write: values, \<open>Marshal\<close> and
  \<open>MarshalIndent\<close>, and a reader of documents, which splits the text into tokens and runs them
  through the stack of open arrays and objects that Go's scanner keeps. What is written reads
  back, but for bytes that are not UTF-8, which both sides replace.
\<close>

section \<open>Values\<close>

text \<open>A number is its literal; an object lists its members in the order written.\<close>

datatype json = Null | Bool bool | Num string | Str string | Arr "json list" | Obj "(string \<times> json) list"

section \<open>Strings\<close>

definition quote_char :: char where "quote_char = CHR 0x22"
definition backslash :: char where "backslash = CHR 0x5C"

definition html_unsafe :: "char \<Rightarrow> bool" where
  "html_unsafe c \<longleftrightarrow> c \<in> set ''<>&''"

text \<open>How one rune of a string is written, with the bytes it came as: \<open>appendString\<close> with \<open>escapeHTML\<close>.\<close>

fun escape_rune :: "nat \<times> string \<Rightarrow> string" where
  "escape_rune (r, b) =
     (if r < 128 then
        (if r = 34 \<or> r = 92 then [backslash, char_of r]
         else if r = 8 then [backslash, CHR ''b''] else if r = 12 then [backslash, CHR ''f'']
         else if r = 10 then [backslash, CHR ''n''] else if r = 13 then [backslash, CHR ''r'']
         else if r = 9 then [backslash, CHR ''t'']
         else if r < 32 \<or> html_unsafe (char_of r) then backslash # ''u00'' @ [hex_alphabet ! (r div 16), hex_alphabet ! (r mod 16)]
         else b)
      else if r = rune_error \<and> length b = 1 then backslash # ''ufffd''
      else if r = 8232 then backslash # ''u2028'' else if r = 8233 then backslash # ''u2029''
      else b)"

definition escape_string :: "string \<Rightarrow> string" where
  "escape_string s = concat (map escape_rune (rune_chunks s))"

definition quote_json :: "string \<Rightarrow> string" where
  "quote_json s = quote_char # escape_string s @ [quote_char]"

text \<open>\<open>strings.ToValidUTF8\<close> with the replacement rune, one for each byte that does not decode.\<close>

definition valid_string :: "string \<Rightarrow> string" where
  "valid_string s = concat (map (\<lambda>(r, b). if r = rune_error \<and> length b = 1 then encode_rune rune_error else b) (rune_chunks s))"

definition utf8_valid :: "string \<Rightarrow> bool" where
  "utf8_valid s \<longleftrightarrow> list_all (\<lambda>(r, b). \<not> (r = rune_error \<and> length b = 1)) (rune_chunks s)"

text \<open>Four hexadecimal digits, of either case: \<open>getu4\<close>, after the backslash and the letter.\<close>

definition hex_value :: "char \<Rightarrow> nat option" where
  "hex_value c =
     (if 48 \<le> ord c \<and> ord c \<le> 57 then Some (ord c - 48)
      else if 97 \<le> ord c \<and> ord c \<le> 102 then Some (ord c - 87)
      else if 65 \<le> ord c \<and> ord c \<le> 70 then Some (ord c - 55) else None)"

fun read_u4 :: "string \<Rightarrow> (nat \<times> string) option" where
  "read_u4 (a # b # c # d # s) =
     (case (hex_value a, hex_value b, hex_value c, hex_value d) of
        (Some w, Some x, Some y, Some z) \<Rightarrow> Some (((w * 16 + x) * 16 + y) * 16 + z, s)
      | _ \<Rightarrow> None)"
| "read_u4 _ = None"

definition surrogate :: "nat \<Rightarrow> bool" where
  "surrogate r \<longleftrightarrow> 55296 \<le> r \<and> r < 57344"

text \<open>The second half of a surrogate pair, when one follows; else the first is replaced.\<close>

definition read_pair :: "nat \<Rightarrow> string \<Rightarrow> nat \<times> string" where
  "read_pair r s =
     (if \<not> surrogate r then (r, s)
      else case s of
        x # y # s1 \<Rightarrow>
          (if x = backslash \<and> y = CHR ''u'' then
             (case read_u4 s1 of
                Some (r1, s2) \<Rightarrow>
                  if r < 56320 \<and> 56320 \<le> r1 \<and> r1 < 57344 then ((r - 55296) * 1024 + (r1 - 56320) + 65536, s2) else (rune_error, s)
              | None \<Rightarrow> (rune_error, s))
           else (rune_error, s))
      | _ \<Rightarrow> (rune_error, s))"

text \<open>One piece of a string after its opening quote: the bytes it stands for and the rest.\<close>

definition simple_escape :: "char \<Rightarrow> string option" where
  "simple_escape e = map_of [(quote_char, [quote_char]), (backslash, [backslash]), (CHR ''/'', ''/''), (CHR ''b'', [CHR 0x08]),
     (CHR ''f'', [CHR 0x0C]), (CHR ''n'', [CHR 0x0A]), (CHR ''r'', [CHR 0x0D]), (CHR ''t'', [CHR 0x09])] e"

fun read_piece :: "string \<Rightarrow> (string \<times> string) option" where
  "read_piece [] = None"
| "read_piece (c # s) =
     (if c = backslash then
        (case s of
           [] \<Rightarrow> None
         | e # s1 \<Rightarrow>
             if e = CHR ''u'' then
               (case read_u4 s1 of None \<Rightarrow> None | Some (r, s2) \<Rightarrow> (case read_pair r s2 of (r', s3) \<Rightarrow> Some (encode_rune r', s3)))
             else map_option (\<lambda>x. (x, s1)) (simple_escape e))
      else if ord c < 32 then None
      else (case decode_rune (c # s) of (r, n) \<Rightarrow> Some (encode_rune r, drop n (c # s))))"

lemma read_u4_shorter: "read_u4 s = Some (r, s') \<Longrightarrow> length s' < length s"
  by (cases s rule: read_u4.cases) (auto split: option.splits)

lemma read_pair_shorter: "read_pair r s = (r', s') \<Longrightarrow> length s' \<le> length s"
  by (auto simp: read_pair_def split: if_splits list.splits option.splits dest!: read_u4_shorter)

lemma read_piece_shorter: "read_piece s = Some (x, s') \<Longrightarrow> length s' < length s"
proof (cases s)
  case (Cons c t)
  assume p: "read_piece s = Some (x, s')"
  obtain r n where d: "decode_rune (c # t) = (r, n)" by (metis prod.exhaust)
  with decode_rune_width [of c t] have "1 \<le> n" by simp
  with p Cons d show ?thesis
    by (auto split: if_splits list.splits option.splits prod.splits dest!: read_u4_shorter read_pair_shorter)
qed simp

declare read_piece.simps(2) [simp del]

function read_string :: "string \<Rightarrow> (string \<times> string) option" where
  "read_string s =
     (case s of
        [] \<Rightarrow> None
      | c # t \<Rightarrow>
          if c = quote_char then Some ([], t)
          else case read_piece s of
            None \<Rightarrow> None
          | Some (x, s1) \<Rightarrow> (case read_string s1 of None \<Rightarrow> None | Some (y, s2) \<Rightarrow> Some (x @ y, s2)))"
  by pat_completeness auto
termination by (relation "measure length") (auto dest: read_piece_shorter)

declare read_string.simps [simp del]

lemma read_string_simps:
  "read_string [] = None"
  "read_string (c # t) =
     (if c = quote_char then Some ([], t)
      else case read_piece (c # t) of None \<Rightarrow> None
        | Some (x, s1) \<Rightarrow> (case read_string s1 of None \<Rightarrow> None | Some (y, s2) \<Rightarrow> Some (x @ y, s2)))"
  by (subst read_string.simps, simp)+

lemma read_string_shorter: "read_string s = Some (x, s') \<Longrightarrow> length s' < length s"
proof (induction s arbitrary: x rule: read_string.induct)
  case (1 s)
  show ?case
  proof (cases "s \<noteq> [] \<and> hd s \<noteq> quote_char")
    case False
    with 1(2) show ?thesis by (cases s) (auto simp: read_string_simps)
  next
    case True
    then obtain c t where s: "s = c # t" "c \<noteq> quote_char" by (cases s) auto
    with 1(2) obtain a s1 y where p: "read_piece s = Some (a, s1)" "read_string s1 = Some (y, s')"
      by (auto simp: read_string_simps split: option.splits)
    from 1(1) [OF s p(1) refl p(2)] read_piece_shorter [OF p(1)] show ?thesis by simp
  qed
qed

section \<open>What is quoted reads back\<close>

lemma hex_value_alphabet: "i < 16 \<Longrightarrow> hex_value (hex_alphabet ! i) = Some i"
  by (simp add: hex_alphabet_def less_Suc_eq numeral_eq_Suc) (auto simp: hex_value_def ord_def)

text \<open>A rune that decodes is encoded back to its bytes, and those alone decide it.\<close>

lemma cont_byte_bits: "cont_byte c \<Longrightarrow> ord c = 128 + (ord c - 128) \<and> ord c - 128 < 64"
  by (auto simp: cont_byte_def)

lemma split_bits:
  fixes x y z :: nat
  assumes "x < 64" "y < 64" "z < 64"
  shows "(a * 64 + x) div 64 = a" "(a * 64 + x) mod 64 = x"
    "(a * 4096 + y * 64 + x) div 4096 = a" "(a * 4096 + y * 64 + x) div 64 mod 64 = y" "(a * 4096 + y * 64 + x) mod 64 = x"
    "(a * 262144 + z * 4096 + y * 64 + x) div 262144 = a" "(a * 262144 + z * 4096 + y * 64 + x) div 4096 mod 64 = z"
    "(a * 262144 + z * 4096 + y * 64 + x) div 64 mod 64 = y" "(a * 262144 + z * 4096 + y * 64 + x) mod 64 = x"
proof -
  have one: "(a * 64 + x) div 64 = a \<and> (a * 64 + x) mod 64 = x" if "x < 64" for a x :: nat using that by simp
  have d: "n div 4096 = n div 64 div 64" "n div 262144 = n div 64 div 64 div 64" for n :: nat by (simp_all add: div_mult2_eq [symmetric])
  have f: "a * 4096 + y * 64 + x = (a * 64 + y) * 64 + x" "a * 262144 + z * 4096 + y * 64 + x = ((a * 64 + z) * 64 + y) * 64 + x" by simp_all
  show "(a * 64 + x) div 64 = a" "(a * 64 + x) mod 64 = x"
    "(a * 4096 + y * 64 + x) div 4096 = a" "(a * 4096 + y * 64 + x) div 64 mod 64 = y" "(a * 4096 + y * 64 + x) mod 64 = x"
    "(a * 262144 + z * 4096 + y * 64 + x) div 262144 = a" "(a * 262144 + z * 4096 + y * 64 + x) div 4096 mod 64 = z"
    "(a * 262144 + z * 4096 + y * 64 + x) div 64 mod 64 = y" "(a * 262144 + z * 4096 + y * 64 + x) mod 64 = x"
    unfolding d f using one assms by presburger+
qed

lemma three_byte_range:
  fixes a x y :: nat
  assumes "a \<le> 15" "x < 64" "y < 64" "a = 0 \<longrightarrow> 32 \<le> y" "a = 13 \<longrightarrow> y \<le> 31"
  shows "2048 \<le> a * 4096 + y * 64 + x" "a * 4096 + y * 64 + x < 65536" "\<not> (55296 \<le> a * 4096 + y * 64 + x \<and> a * 4096 + y * 64 + x \<le> 57343)"
proof -
  show "2048 \<le> a * 4096 + y * 64 + x" using assms(4) by (cases "a = 0") auto
  show "a * 4096 + y * 64 + x < 65536" using assms(1-3) by linarith
  consider "a \<le> 12" | "a = 13" | "14 \<le> a" by linarith
  then show "\<not> (55296 \<le> a * 4096 + y * 64 + x \<and> a * 4096 + y * 64 + x \<le> 57343)" using assms(2,3,5) by cases linarith+
qed

lemma four_byte_range:
  fixes a x y z :: nat
  assumes "a \<le> 4" "x < 64" "y < 64" "z < 64" "a = 0 \<longrightarrow> 16 \<le> z" "a = 4 \<longrightarrow> z \<le> 15"
  shows "65536 \<le> a * 262144 + z * 4096 + y * 64 + x" "a * 262144 + z * 4096 + y * 64 + x \<le> 1114111"
proof -
  show "65536 \<le> a * 262144 + z * 4096 + y * 64 + x" using assms(5) by (cases "a = 0") auto
  show "a * 262144 + z * 4096 + y * 64 + x \<le> 1114111" using assms(1-4,6) by (cases "a = 4") linarith+
qed

lemma decode_encode:
  assumes "decode_rune (c # s) = (r, n)" "\<not> (r = rune_error \<and> n = 1)"
  shows "n \<le> length (c # s) \<and> encode_rune r = take n (c # s) \<and> decode_rune (take n (c # s) @ t) = (r, n)"
proof -
  have "n = 1 \<and> ord c < 128 \<and> r = ord c
    \<or> (\<exists>b s'. s = b # s' \<and> n = 2 \<and> 194 \<le> ord c \<and> ord c \<le> 223 \<and> cont_byte b \<and> r = (ord c - 192) * 64 + (ord b - 128))
    \<or> (\<exists>b d s'. s = b # d # s' \<and> n = 3 \<and> 224 \<le> ord c \<and> ord c \<le> 239 \<and> cont_byte b \<and> cont_byte d \<and> (ord c = 224 \<longrightarrow> 160 \<le> ord b)
        \<and> (ord c = 237 \<longrightarrow> ord b \<le> 159) \<and> r = (ord c - 224) * 4096 + (ord b - 128) * 64 + (ord d - 128))
    \<or> (\<exists>b d e s'. s = b # d # e # s' \<and> n = 4 \<and> 240 \<le> ord c \<and> ord c \<le> 244 \<and> cont_byte b \<and> cont_byte d \<and> cont_byte e
        \<and> (ord c = 240 \<longrightarrow> 144 \<le> ord b) \<and> (ord c = 244 \<longrightarrow> ord b \<le> 143)
        \<and> r = (ord c - 240) * 262144 + (ord b - 128) * 4096 + (ord d - 128) * 64 + (ord e - 128))"
    using assms by (simp add: decode_rune.simps(2) Let_def split: if_splits list.splits)
  then show ?thesis
  proof (elim disjE exE conjE)
    assume a: "n = 1" "ord c < 128" "r = ord c"
    then show ?thesis by (simp add: encode_rune_def decode_rune.simps(2))
  next
    fix b s' assume a: "s = b # s'" "n = 2" "194 \<le> ord c" "ord c \<le> 223" "cont_byte b" "r = (ord c - 192) * 64 + (ord b - 128)"
    let ?x = "ord b - 128" and ?a = "ord c - 192"
    have x: "?x < 64" "128 + ?x = ord b" "192 + ?a = ord c" using a(3) cont_byte_bits [OF a(5)] by simp_all
    have "128 \<le> r" "r < 2048" using a x by simp_all
    moreover have "r div 64 = ?a" "r mod 64 = ?x" using split_bits(1,2) [OF x(1) x(1) x(1)] a(6) by simp_all
    ultimately show ?thesis using a x by (simp add: encode_rune_def Let_def decode_rune.simps(2))
  next
    fix b d s' assume a: "s = b # d # s'" "n = 3" "224 \<le> ord c" "ord c \<le> 239" "cont_byte b" "cont_byte d" "ord c = 224 \<longrightarrow> 160 \<le> ord b"
      "ord c = 237 \<longrightarrow> ord b \<le> 159" "r = (ord c - 224) * 4096 + (ord b - 128) * 64 + (ord d - 128)"
    let ?x = "ord d - 128" and ?y = "ord b - 128" and ?a = "ord c - 224"
    have x: "?x < 64" "128 + ?x = ord d" "?y < 64" "128 + ?y = ord b" "224 + ?a = ord c" "?a \<le> 15"
      using a(3,4) cont_byte_bits [OF a(5)] cont_byte_bits [OF a(6)] by simp_all
    have e: "?a = 0 \<longrightarrow> 32 \<le> ?y" "?a = 13 \<longrightarrow> ?y \<le> 31" using a(3,7,8) by auto
    have "2048 \<le> r" "r < 65536" "\<not> (55296 \<le> r \<and> r \<le> 57343)" by (fact three_byte_range [OF x(6,1,3) e, folded a(9)])+
    moreover have "224 + r div 4096 = ord c" "128 + r div 64 mod 64 = ord b" "128 + r mod 64 = ord d"
      unfolding split_bits(3-5) [OF x(1,3,1), of ?a, folded a(9)] by (fact x)+
    ultimately have "encode_rune r = [c, b, d]" by (auto simp: encode_rune_def Let_def)
    moreover have "decode_rune ([c, b, d] @ t) = (r, 3)" using a(3-8) unfolding a(9) by (simp add: decode_rune.simps(2))
    ultimately show ?thesis unfolding a(1,2) by simp
  next
    fix b d e s' assume a: "s = b # d # e # s'" "n = 4" "240 \<le> ord c" "ord c \<le> 244" "cont_byte b" "cont_byte d" "cont_byte e"
      "ord c = 240 \<longrightarrow> 144 \<le> ord b" "ord c = 244 \<longrightarrow> ord b \<le> 143"
      "r = (ord c - 240) * 262144 + (ord b - 128) * 4096 + (ord d - 128) * 64 + (ord e - 128)"
    let ?x = "ord e - 128" and ?y = "ord d - 128" and ?z = "ord b - 128" and ?a = "ord c - 240"
    have x: "?x < 64" "128 + ?x = ord e" "?y < 64" "128 + ?y = ord d" "?z < 64" "128 + ?z = ord b" "240 + ?a = ord c" "?a \<le> 4"
      using a(3,4) cont_byte_bits [OF a(5)] cont_byte_bits [OF a(6)] cont_byte_bits [OF a(7)] by simp_all
    have f: "?a = 0 \<longrightarrow> 16 \<le> ?z" "?a = 4 \<longrightarrow> ?z \<le> 15" using a(3,8,9) by auto
    have "65536 \<le> r" "r \<le> 1114111" by (fact four_byte_range [OF x(8,1,3,5) f, folded a(10)])+
    moreover have "240 + r div 262144 = ord c" "128 + r div 4096 mod 64 = ord b" "128 + r div 64 mod 64 = ord d" "128 + r mod 64 = ord e"
      unfolding split_bits(6-9) [OF x(1,3,5), of ?a, folded a(10)] by (fact x)+
    ultimately have "encode_rune r = [c, b, d, e]" by (simp add: encode_rune_def)
    moreover have "decode_rune ([c, b, d, e] @ t) = (r, 4)" using a(3-9) unfolding a(10) by (simp add: decode_rune.simps(2))
    ultimately show ?thesis unfolding a(1,2) by simp
  qed
qed

lemma hex_value_u: "hex_value (CHR ''0'') = Some 0" "hex_value (CHR ''2'') = Some 2" "hex_value (CHR ''8'') = Some 8"
    "hex_value (CHR ''9'') = Some 9" "hex_value (CHR ''d'') = Some 13" "hex_value (CHR ''f'') = Some 15"
  by (simp_all add: hex_value_def ord_def)

lemma read_piece_u4:
  "read_u4 s = Some (r, t) \<Longrightarrow> \<not> surrogate r \<Longrightarrow> read_piece (backslash # CHR ''u'' # s) = Some (encode_rune r, t)"
  by (simp add: read_piece.simps(2) read_pair_def)

lemma read_piece_simple: "simple_escape e = Some x \<Longrightarrow> e \<noteq> CHR ''u'' \<Longrightarrow> read_piece (backslash # e # t) = Some (x, t)"
  by (simp add: read_piece.simps(2))

lemma simple_escapes: "simple_escape (CHR ''b'') = Some [CHR 0x08]" "simple_escape (CHR ''f'') = Some [CHR 0x0C]"
    "simple_escape (CHR ''n'') = Some [CHR 0x0A]" "simple_escape (CHR ''r'') = Some [CHR 0x0D]" "simple_escape (CHR ''t'') = Some [CHR 0x09]"
  by (simp_all add: simple_escape_def quote_char_def backslash_def)

lemma read_piece_ascii:
  "c \<noteq> backslash \<Longrightarrow> 32 \<le> ord c \<Longrightarrow> ord c < 128 \<Longrightarrow> read_piece (c # t) = Some ([c], t)"
  by (simp add: read_piece.simps(2) decode_rune.simps(2) encode_rune_def)

lemma special_chars: "ord quote_char = 34" "ord backslash = 92" "quote_char \<noteq> backslash"
  by (simp_all add: quote_char_def backslash_def ord_def)

text \<open>A rune as it was written reads as one piece: the bytes it came as, or the replacement rune.\<close>

lemma escaped_ascii:
  assumes "ord c < 128"
  shows "escape_rune (ord c, [c]) \<noteq> [] \<and> hd (escape_rune (ord c, [c])) \<noteq> quote_char \<and> read_piece (escape_rune (ord c, [c]) @ t) = Some ([c], t)"
proof -
  consider (special) "c \<in> {quote_char, backslash}" | (short) "ord c \<in> {8, 9, 10, 12, 13}"
    | (long) "c \<notin> {quote_char, backslash}" "ord c \<notin> {8, 9, 10, 12, 13}" "ord c < 32 \<or> html_unsafe c"
    | (plain) "c \<notin> {quote_char, backslash}" "ord c \<notin> {8, 9, 10, 12, 13}" "\<not> ord c < 32" "\<not> html_unsafe c" by blast
  then show ?thesis
  proof cases
    case special
    have "simple_escape c = Some [c]" "c \<noteq> CHR ''u''"
      using special by (auto simp: simple_escape_def quote_char_def backslash_def)
    moreover have "escape_rune (ord c, [c]) = [backslash, c]" using special special_chars(1,2) assms by auto
    ultimately show ?thesis using special_chars(3) read_piece_simple by simp
  next
    case short
    then have "c \<in> {CHR 0x08, CHR 0x09, CHR 0x0A, CHR 0x0C, CHR 0x0D}"
      unfolding insert_iff ord_inject [symmetric] by (simp add: ord_def)
    then show ?thesis
      using special_chars by (elim insertE) (simp_all add: ord_def read_piece_simple simple_escapes)
  next
    case long
    let ?r = "ord c"
    have "?r \<noteq> 34" "?r \<noteq> 92" using long(1) special_chars by (metis insertI1 insertI2 ord_inject)+
    then have e: "escape_rune (?r, [c]) = backslash # CHR ''u'' # CHR ''0'' # CHR ''0'' # [hex_alphabet ! (?r div 16), hex_alphabet ! (?r mod 16)]"
      using assms long by auto
    have "hex_value (hex_alphabet ! (?r div 16)) = Some (?r div 16)" "hex_value (hex_alphabet ! (?r mod 16)) = Some (?r mod 16)"
      using assms by (simp_all add: hex_value_alphabet)
    moreover have "?r div 16 * 16 + ?r mod 16 = ?r" by simp
    ultimately have "read_u4 (CHR ''0'' # CHR ''0'' # [hex_alphabet ! (?r div 16), hex_alphabet ! (?r mod 16)] @ t) = Some (?r, t)"
      by (simp add: hex_value_u)
    moreover have "\<not> surrogate ?r" "encode_rune ?r = [c]" using assms by (simp_all add: surrogate_def encode_rune_def)
    ultimately show ?thesis using special_chars(3) read_piece_u4 unfolding e by simp
  next
    case plain
    have "?thesis" if "ord c \<noteq> 34" "ord c \<noteq> 92"
      using that assms plain read_piece_ascii [of c t] by auto
    moreover have "ord c \<noteq> 34" "ord c \<noteq> 92" using plain(1) special_chars by (metis insertI1 insertI2 ord_inject)+
    ultimately show ?thesis by blast
  qed
qed

lemma encode_rune_nonempty: "encode_rune r \<noteq> []"
  by (simp add: encode_rune_def Let_def)

lemma escaped_reads:
  assumes "decode_rune (c # s) = (r, n)"
  shows "escape_rune (r, take n (c # s)) \<noteq> [] \<and> hd (escape_rune (r, take n (c # s))) \<noteq> quote_char \<and>
    read_piece (escape_rune (r, take n (c # s)) @ t) =
      Some (if r = rune_error \<and> length (take n (c # s)) = 1 then encode_rune rune_error else take n (c # s), t)"
proof -
  have w: "1 \<le> n" using decode_rune_width [of c s] assms by simp
  consider (ascii) "ord c < 128" | (bad) "\<not> ord c < 128" "r = rune_error" "n = 1" | (good) "\<not> ord c < 128" "\<not> (r = rune_error \<and> n = 1)" by blast
  then show ?thesis
  proof cases
    case ascii
    then have "r = ord c" "n = 1" "r \<noteq> rune_error" using assms by (auto simp: decode_rune.simps(2) rune_error_def)
    with escaped_ascii [OF ascii, of t] show ?thesis by (simp del: escape_rune.simps)
  next
    case bad
    have "read_u4 (''fffd'' @ t) = Some (rune_error, t)" by (simp add: hex_value_u rune_error_def)
    moreover have "\<not> surrogate rune_error" by (simp add: surrogate_def rune_error_def)
    ultimately have "read_piece (backslash # ''ufffd'' @ t) = Some (encode_rune rune_error, t)" using read_piece_u4 by simp
    with bad special_chars(3) show ?thesis by (simp add: rune_error_def)
  next
    case good
    note e = decode_encode [OF assms good(2), of t]
    obtain m where m: "n = Suc m" using w by (cases n) auto
    have r: "\<not> r < 128"
    proof
      assume "r < 128"
      then have "[char_of r] = take n (c # s)" using e by (simp add: encode_rune_def)
      then have "c = char_of r" by (simp add: m)
      with \<open>r < 128\<close> good(1) ord_char_of [of r] show False by simp
    qed
    have l: "\<not> (r = rune_error \<and> length (take n (c # s)) = 1)"
    proof
      assume a: "r = rune_error \<and> length (take n (c # s)) = 1"
      then have "length (encode_rune rune_error) = 1" using e by simp
      then show False by (simp add: encode_rune_def rune_error_def)
    qed
    have hd: "hd (take n (c # s)) = c" "c \<noteq> quote_char" "c \<noteq> backslash" "32 \<le> ord c" "take n (c # s) \<noteq> []"
      using good(1) special_chars by (auto simp: m)
    have "read_piece (take n (c # s) @ t) = Some (take n (c # s), t)"
    proof -
      have eq: "take n (c # s) @ t = c # (take m s @ t)" by (simp add: m)
      have "drop n (take n (c # s) @ t) = t" using e by (simp add: min_absorb2)
      then show ?thesis using hd e unfolding eq by (simp add: read_piece.simps(2))
    qed
    moreover have "r = 8232 \<Longrightarrow> read_piece (backslash # ''u2028'' @ t) = Some (take n (c # s), t)"
      "r = 8233 \<Longrightarrow> read_piece (backslash # ''u2029'' @ t) = Some (take n (c # s), t)"
      using e read_piece_u4 [of "''2028'' @ t" 8232 t] read_piece_u4 [of "''2029'' @ t" 8233 t] by (simp_all add: hex_value_u surrogate_def)
    ultimately show ?thesis using r l hd special_chars(3) by (auto simp del: take_Suc_Cons)
  qed
qed

lemma read_escaped: "read_string (escape_string s @ quote_char # t) = Some (valid_string s, t)"
proof (induction s rule: rune_chunks.induct)
  case 1
  show ?case by (simp add: escape_string_def valid_string_def read_string_simps)
next
  case (2 c s)
  obtain r n where d: "decode_rune (c # s) = (r, n)" by (metis prod.exhaust)
  let ?b = "take n (c # s)" and ?u = "drop n (c # s)"
  have chunks: "rune_chunks (c # s) = (r, ?b) # rune_chunks ?u" by (simp add: d)
  note e = escaped_reads [OF d, of "escape_string ?u @ quote_char # t"]
  obtain x y where x: "escape_rune (r, ?b) = x # y" "x \<noteq> quote_char" using e by (cases "escape_rune (r, ?b)") auto
  have "read_string (escape_string ?u @ quote_char # t) = Some (valid_string ?u, t)" using 2 d by simp
  moreover have "escape_string (c # s) = escape_rune (r, ?b) @ escape_string ?u"
    unfolding escape_string_def chunks by simp
  moreover have "valid_string (c # s) = (if r = rune_error \<and> length ?b = 1 then encode_rune rune_error else ?b) @ valid_string ?u"
    unfolding valid_string_def chunks by simp
  ultimately show ?case using e x by (simp add: read_string_simps del: escape_rune.simps)
qed

lemma valid_string_id: "utf8_valid s \<Longrightarrow> valid_string s = s"
proof -
  assume v: "utf8_valid s"
  have "valid_string s = concat (map snd (rune_chunks s))"
    unfolding valid_string_def by (rule arg_cong [of _ _ concat], rule map_cong) (use v in \<open>auto simp: utf8_valid_def list_all_iff\<close>)
  then show ?thesis by (simp add: concat_rune_chunks)
qed

section \<open>Writing\<close>

fun sep_by :: "'a list \<Rightarrow> 'a list list \<Rightarrow> 'a list" where
  "sep_by d [] = []"
| "sep_by d [x] = x"
| "sep_by d (x # y # xs) = x @ d @ sep_by d (y # xs)"

definition literal :: "bool \<Rightarrow> string" where
  "literal b = (if b then ''true'' else ''false'')"

text \<open>\<open>Marshal\<close>: no space anywhere.\<close>

fun marshal :: "json \<Rightarrow> string" where
  "marshal Null = ''null''"
| "marshal (Bool b) = literal b"
| "marshal (Num x) = x"
| "marshal (Str s) = quote_json s"
| "marshal (Arr vs) = ''['' @ sep_by '','' (map marshal vs) @ '']''"
| "marshal (Obj ms) = ''{'' @ sep_by '','' (map (\<lambda>(k, v). quote_json k @ '':'' @ marshal v) ms) @ ''}''"

text \<open>\<open>MarshalIndent\<close> with no prefix and two spaces: one element or member to a line, nothing inside an empty pair.\<close>

definition new_line :: "nat \<Rightarrow> string" where
  "new_line d = CHR 0x0A # replicate (2 * d) (CHR '' '')"

fun indented :: "nat \<Rightarrow> json \<Rightarrow> string" where
  "indented d Null = ''null''"
| "indented d (Bool b) = literal b"
| "indented d (Num x) = x"
| "indented d (Str s) = quote_json s"
| "indented d (Arr vs) = (if vs = [] then ''[]''
     else ''['' @ new_line (Suc d) @ sep_by ('','' @ new_line (Suc d)) (map (indented (Suc d)) vs) @ new_line d @ '']'')"
| "indented d (Obj ms) = (if ms = [] then ''{}''
     else ''{'' @ new_line (Suc d) @ sep_by ('','' @ new_line (Suc d)) (map (\<lambda>(k, v). quote_json k @ '': '' @ indented (Suc d) v) ms)
       @ new_line d @ ''}'')"

definition marshal_indent :: "json \<Rightarrow> string" where
  "marshal_indent v = indented 0 v"

section \<open>Tokens\<close>

datatype token = LBrace | RBrace | LBrack | RBrack | Colon | Comma | Text string | Number string | Word "bool option"

definition json_space :: "char \<Rightarrow> bool" where
  "json_space c \<longleftrightarrow> ord c \<in> {9, 10, 13, 32}"

definition number_char :: "char \<Rightarrow> bool" where
  "number_char c \<longleftrightarrow> is_digit c \<or> c \<in> set ''+-.eE''"

text \<open>The literal of a number: a sign, digits with no leading zero, a fraction and an exponent.\<close>

definition digits_ok :: "string \<Rightarrow> bool" where
  "digits_ok s \<longleftrightarrow> s \<noteq> [] \<and> list_all is_digit s"

definition whole_ok :: "string \<Rightarrow> bool" where
  "whole_ok s \<longleftrightarrow> digits_ok s \<and> (hd s = CHR ''0'' \<longrightarrow> length s = 1)"

definition exponent_ok :: "string \<Rightarrow> bool" where
  "exponent_ok s \<longleftrightarrow> s = [] \<or> hd s \<in> set ''eE'' \<and> digits_ok (case tl s of c # t \<Rightarrow> if c \<in> set ''+-'' then t else tl s | [] \<Rightarrow> [])"

definition number_ok :: "string \<Rightarrow> bool" where
  "number_ok s = (let u = (case s of c # t \<Rightarrow> if c = CHR ''-'' then t else s | [] \<Rightarrow> []);
       w = takeWhile is_digit u; r = dropWhile is_digit u
     in whole_ok w \<and> (case r of c # t \<Rightarrow>
         if c = CHR ''.'' then digits_ok (takeWhile is_digit t) \<and> exponent_ok (dropWhile is_digit t) else exponent_ok r | [] \<Rightarrow> True))"

definition sign_token :: "char \<Rightarrow> token option" where
  "sign_token c = map_of [(CHR ''{'', LBrace), (CHR ''}'', RBrace), (CHR ''['', LBrack), (CHR '']'', RBrack), (CHR '':'', Colon), (CHR '','', Comma)] c"

text \<open>The first token of a text that does not begin with a space, and the rest.\<close>

definition read_token :: "string \<Rightarrow> (token \<times> string) option" where
  "read_token s =
     (case s of [] \<Rightarrow> None
      | c # t \<Rightarrow>
          (case sign_token c of
             Some k \<Rightarrow> Some (k, t)
           | None \<Rightarrow>
               if c = quote_char then map_option (apfst Text) (read_string t)
               else if number_char c then
                 (if number_ok (takeWhile number_char s) then Some (Number (takeWhile number_char s), dropWhile number_char s) else None)
               else if has_prefix s ''true'' then Some (Word (Some True), drop 4 s)
               else if has_prefix s ''false'' then Some (Word (Some False), drop 5 s)
               else if has_prefix s ''null'' then Some (Word None, drop 4 s)
               else None))"

lemma read_token_shorter: "read_token s = Some (k, s') \<Longrightarrow> length s' < length s"
proof (cases s)
  case (Cons c t)
  have "number_char c \<Longrightarrow> length (dropWhile number_char (c # t)) < length (c # t)"
    using length_dropWhile_le [of number_char t] by simp
  moreover assume "read_token s = Some (k, s')"
  ultimately show ?thesis
    unfolding read_token_def Cons by (auto split: option.splits if_splits dest: read_string_shorter)
qed (simp add: read_token_def)

function tokens :: "string \<Rightarrow> token list option" where
  "tokens s =
     (case dropWhile json_space s of [] \<Rightarrow> Some []
      | c # t \<Rightarrow> (case read_token (c # t) of None \<Rightarrow> None | Some (k, s') \<Rightarrow> map_option ((#) k) (tokens s')))"
  by pat_completeness auto
termination
proof (relation "measure length")
  fix s c t p k s'
  assume d: "dropWhile json_space s = c # t" and "read_token (c # t) = Some p" "(k, s') = p"
  then have "length s' < length (c # t)" using read_token_shorter by metis
  also have "\<dots> \<le> length s" using d length_dropWhile_le [of json_space s] by simp
  finally show "(s', s) \<in> measure length" by simp
qed simp

declare tokens.simps [simp del]

section \<open>Reading\<close>

text \<open>The open arrays and objects, innermost first; an object may wait for the value of a name.\<close>

datatype frame = In_Arr "json list" | In_Obj "(string \<times> json) list" | At_Name "(string \<times> json) list" string

datatype expecting = Value | Element_Or_End | Name_Or_End | Name | The_Colon | Next_Or_End | Nothing json

type_synonym reading = "frame list \<times> expecting"

definition maxNestingDepth :: nat where "maxNestingDepth = 10000"

fun complete :: "json \<Rightarrow> frame list \<Rightarrow> reading option" where
  "complete v [] = Some ([], Nothing v)"
| "complete v (In_Arr vs # fs) = Some (In_Arr (vs @ [v]) # fs, Next_Or_End)"
| "complete v (At_Name ms k # fs) = Some (In_Obj (ms @ [(k, v)]) # fs, Next_Or_End)"
| "complete v (In_Obj ms # fs) = None"

definition open_frame :: "frame \<Rightarrow> expecting \<Rightarrow> frame list \<Rightarrow> reading option" where
  "open_frame f x fs = (if length fs < maxNestingDepth then Some (f # fs, x) else None)"

fun begin_value :: "frame list \<Rightarrow> token \<Rightarrow> reading option" where
  "begin_value fs (Text s) = complete (Str s) fs"
| "begin_value fs (Number x) = complete (Num x) fs"
| "begin_value fs (Word w) = complete (case w of None \<Rightarrow> Null | Some b \<Rightarrow> Bool b) fs"
| "begin_value fs LBrace = open_frame (In_Obj []) Name_Or_End fs"
| "begin_value fs LBrack = open_frame (In_Arr []) Element_Or_End fs"
| "begin_value fs _ = None"

fun read_step :: "reading \<Rightarrow> token \<Rightarrow> reading option" where
  "read_step (fs, Value) k = begin_value fs k"
| "read_step (fs, Element_Or_End) k = (case (k, fs) of (RBrack, In_Arr vs # gs) \<Rightarrow> complete (Arr vs) gs | _ \<Rightarrow> begin_value fs k)"
| "read_step (fs, Name_Or_End) k = (case (k, fs) of
     (RBrace, In_Obj ms # gs) \<Rightarrow> complete (Obj ms) gs | (Text n, In_Obj ms # gs) \<Rightarrow> Some (At_Name ms n # gs, The_Colon) | _ \<Rightarrow> None)"
| "read_step (fs, Name) k = (case (k, fs) of (Text n, In_Obj ms # gs) \<Rightarrow> Some (At_Name ms n # gs, The_Colon) | _ \<Rightarrow> None)"
| "read_step (fs, The_Colon) k = (if k = Colon then Some (fs, Value) else None)"
| "read_step (fs, Next_Or_End) k = (case (k, fs) of
     (Comma, In_Arr vs # gs) \<Rightarrow> Some (fs, Value) | (Comma, In_Obj ms # gs) \<Rightarrow> Some (fs, Name)
   | (RBrack, In_Arr vs # gs) \<Rightarrow> complete (Arr vs) gs | (RBrace, In_Obj ms # gs) \<Rightarrow> complete (Obj ms) gs | _ \<Rightarrow> None)"
| "read_step (fs, Nothing v) k = None"

fun read_steps :: "reading \<Rightarrow> token list \<Rightarrow> reading option" where
  "read_steps r [] = Some r"
| "read_steps r (k # ks) = (case read_step r k of None \<Rightarrow> None | Some r1 \<Rightarrow> read_steps r1 ks)"

definition read_json :: "string \<Rightarrow> json option" where
  "read_json s = (case tokens s of None \<Rightarrow> None
     | Some ks \<Rightarrow> (case read_steps ([], Value) ks of Some (_, Nothing v) \<Rightarrow> Some v | _ \<Rightarrow> None))"

section \<open>What is written reads back\<close>

fun tokens_of :: "json \<Rightarrow> token list" where
  "tokens_of Null = [Word None]"
| "tokens_of (Bool b) = [Word (Some b)]"
| "tokens_of (Num x) = [Number x]"
| "tokens_of (Str s) = [Text s]"
| "tokens_of (Arr vs) = LBrack # sep_by [Comma] (map tokens_of vs) @ [RBrack]"
| "tokens_of (Obj ms) = LBrace # sep_by [Comma] (map (\<lambda>(k, v). Text k # Colon # tokens_of v) ms) @ [RBrace]"

fun depth :: "json \<Rightarrow> nat" where
  "depth (Arr vs) = Suc (fold max (map depth vs) 0)"
| "depth (Obj ms) = Suc (fold max (map (\<lambda>(k, v). depth v) ms) 0)"
| "depth _ = 0"

lemma fold_max_le: "fold max (map f xs) a \<le> (n :: nat) \<longleftrightarrow> a \<le> n \<and> (\<forall>x \<in> set xs. f x \<le> n)"
  by (induction xs arbitrary: a) auto

text \<open>The tokens of a value, met where a value may begin, complete that value.\<close>

definition then_read :: "reading option \<Rightarrow> token list \<Rightarrow> reading option" where
  "then_read r ks = Option.bind r (\<lambda>x. read_steps x ks)"

lemma then_read_simps [simp]: "then_read None ks = None" "then_read (Some r) ks = read_steps r ks"
  by (simp_all add: then_read_def)

lemma read_steps_Cons: "read_steps r (k # ks) = then_read (read_step r k) ks"
  by (simp split: option.split)

lemma begins_no_end: "begin_value fs k \<noteq> None \<Longrightarrow> k \<noteq> RBrack"
  by (cases k) auto

lemma tokens_begin: "\<exists>k ks. tokens_of v = k # ks \<and> k \<noteq> RBrack"
  by (cases v) auto

lemma element_as_value: "tokens_of v = k # ks \<Longrightarrow> read_step (fs, Element_Or_End) k = read_step (fs, Value) k"
  using tokens_begin [of v] by (auto split: token.splits)

lemma rest_of_array:
  assumes "\<And>v fs ks. v \<in> set vs \<Longrightarrow> depth v + length fs \<le> maxNestingDepth \<Longrightarrow>
      read_steps (fs, Value) (tokens_of v @ ks) = then_read (complete v fs) ks"
    and "\<forall>v \<in> set vs. depth v + Suc (length fs) \<le> maxNestingDepth" "vs \<noteq> []"
  shows "read_steps (In_Arr us # fs, Value) (sep_by [Comma] (map tokens_of vs) @ RBrack # ks) = then_read (complete (Arr (us @ vs)) fs) ks"
  using assms
proof (induction vs arbitrary: us)
  case (Cons v vs)
  have v: "read_steps (In_Arr us # fs, Value) (tokens_of v @ ls) = read_steps (In_Arr (us @ [v]) # fs, Next_Or_End) ls" for ls
    using Cons.prems(1) [of v "In_Arr us # fs" ls] Cons.prems(2) by simp
  show ?case
  proof (cases vs)
    case Nil
    then show ?thesis using v by (simp add: read_steps_Cons del: read_steps.simps(2))
  next
    case (Cons w ws)
    with Cons.IH [of "us @ [v]"] Cons.prems v show ?thesis by (simp add: read_steps_Cons del: read_steps.simps(2))
  qed
qed simp

lemma rest_of_object:
  assumes "\<And>k v fs ks. (k, v) \<in> set ms \<Longrightarrow> depth v + length fs \<le> maxNestingDepth \<Longrightarrow>
      read_steps (fs, Value) (tokens_of v @ ks) = then_read (complete v fs) ks"
    and "\<forall>(k, v) \<in> set ms. depth v + Suc (length fs) \<le> maxNestingDepth" "ms \<noteq> []" "x \<in> {Name, Name_Or_End}"
  shows "read_steps (In_Obj ns # fs, x) (sep_by [Comma] (map (\<lambda>(k, v). Text k # Colon # tokens_of v) ms) @ RBrace # ks)
    = then_read (complete (Obj (ns @ ms)) fs) ks"
  using assms
proof (induction ms arbitrary: ns x)
  case (Cons m ms)
  obtain k v where m: "m = (k, v)" by (cases m)
  have v: "read_steps (In_Obj ns # fs, x) (Text k # Colon # tokens_of v @ ls) = read_steps (In_Obj (ns @ [(k, v)]) # fs, Next_Or_End) ls" for ls
    using Cons.prems(1) [of k v "At_Name ns k # fs" ls] Cons.prems(2,4) m by (auto simp: read_steps_Cons simp del: read_steps.simps(2))
  show ?case
  proof (cases ms)
    case Nil
    then show ?thesis using v m by (simp add: read_steps_Cons del: read_steps.simps(2))
  next
    case (Cons w ws)
    have "read_steps (In_Obj (ns @ [(k, v)]) # fs, Name) (sep_by [Comma] (map (\<lambda>(k, v). Text k # Colon # tokens_of v) ms) @ RBrace # ks)
        = then_read (complete (Obj ((ns @ [(k, v)]) @ ms)) fs) ks"
      by (rule Cons.IH) (use Cons.prems(1) [OF list.set_intros(2)] Cons.prems(2) \<open>ms = w # ws\<close> in simp_all)
    with \<open>ms = w # ws\<close> v m show ?thesis
      by (cases w) (simp add: read_steps_Cons del: read_steps.simps(2))
  qed
qed simp

lemma read_tokens_of:
  "depth v + length fs \<le> maxNestingDepth \<Longrightarrow> read_steps (fs, Value) (tokens_of v @ ks) = then_read (complete v fs) ks"
proof (induction v arbitrary: fs ks)
  case (Arr vs)
  have d: "\<forall>v \<in> set vs. depth v + Suc (length fs) \<le> maxNestingDepth" "length fs < maxNestingDepth"
    using Arr.prems fold_max_le [of depth vs 0 "maxNestingDepth - Suc (length fs)"] by auto
  show ?case
  proof (cases vs)
    case Nil
    then show ?thesis using d(2) by (simp add: read_steps_Cons open_frame_def del: read_steps.simps(2))
  next
    case (Cons w ws)
    obtain k ls where k: "sep_by [Comma] (map tokens_of vs) = k # ls" "tokens_of w = k # drop 1 (tokens_of w)"
      using tokens_begin [of w] Cons by (cases ws) auto
    have "read_steps ([In_Arr []] @ fs, Element_Or_End) (sep_by [Comma] (map tokens_of vs) @ RBrack # ks) =
        read_steps (In_Arr [] # fs, Value) (sep_by [Comma] (map tokens_of vs) @ RBrack # ks)"
      using element_as_value [OF k(2)] unfolding k(1) by (simp add: read_steps_Cons del: read_steps.simps(2) read_step.simps)
    also have "\<dots> = then_read (complete (Arr ([] @ vs)) fs) ks"
      using Arr.IH d(1) Cons by (intro rest_of_array) auto
    finally show ?thesis using d(2) by (simp add: read_steps_Cons open_frame_def del: read_steps.simps(2))
  qed
next
  case (Obj ms)
  have d: "\<forall>(k, v) \<in> set ms. depth v + Suc (length fs) \<le> maxNestingDepth" "length fs < maxNestingDepth"
    using Obj.prems fold_max_le [of "\<lambda>(k, v). depth v" ms 0 "maxNestingDepth - Suc (length fs)"] by auto
  show ?case
  proof (cases "ms = []")
    case True
    then show ?thesis using d(2) by (simp add: read_steps_Cons open_frame_def del: read_steps.simps(2))
  next
    case False
    then have "read_steps (In_Obj [] # fs, Name_Or_End) (sep_by [Comma] (map (\<lambda>(k, v). Text k # Colon # tokens_of v) ms) @ RBrace # ks)
        = then_read (complete (Obj ([] @ ms)) fs) ks"
      using Obj.IH d(1) by (intro rest_of_object) fastforce+
    then show ?thesis using d(2) by (simp add: read_steps_Cons open_frame_def del: read_steps.simps(2))
  qed
qed (simp_all add: read_steps_Cons del: read_steps.simps(2))

section \<open>What is written splits into its tokens\<close>

text \<open>What a reader gets of a value that was written: bytes that are not UTF-8 are replaced.\<close>

fun coerced :: "json \<Rightarrow> json" where
  "coerced (Str s) = Str (valid_string s)"
| "coerced (Arr vs) = Arr (map coerced vs)"
| "coerced (Obj ms) = Obj (map (\<lambda>(k, v). (valid_string k, coerced v)) ms)"
| "coerced v = v"

fun numbers_ok :: "json \<Rightarrow> bool" where
  "numbers_ok (Num x) = number_ok x"
| "numbers_ok (Arr vs) = list_all numbers_ok vs"
| "numbers_ok (Obj ms) = list_all (\<lambda>(k, v). numbers_ok v) ms"
| "numbers_ok _ = True"

text \<open>A number ends where a character follows that no number has.\<close>

definition number_stops :: "string \<Rightarrow> bool" where
  "number_stops s \<longleftrightarrow> s = [] \<or> \<not> number_char (hd s)"

definition before_tokens :: "token list \<Rightarrow> string \<Rightarrow> token list option" where
  "before_tokens ks s = map_option (append ks) (tokens s)"

lemma before_tokens_simps [simp]: "map_option (append ls) (before_tokens ks s) = before_tokens (ls @ ks) s"
    "map_option ((#) k) (before_tokens ks s) = before_tokens (k # ks) s"
  by (cases "tokens s"; simp add: before_tokens_def)+

lemma before_token: "map_option ((#) k) (tokens s) = before_tokens [k] s"
  by (cases "tokens s") (simp_all add: before_tokens_def)

lemma tokens_nothing: "tokens s = before_tokens [] s"
  by (cases "tokens s") (simp_all add: before_tokens_def)

lemma before_tokens_cong: "tokens s = before_tokens ls t \<Longrightarrow> before_tokens ks s = before_tokens (ks @ ls) t"
  by (cases "tokens t") (simp_all add: before_tokens_def)

lemma tokens_space: "json_space c \<Longrightarrow> tokens (c # t) = tokens t"
  by (subst (1 2) tokens.simps) simp

lemma tokens_spaces: "list_all json_space s \<Longrightarrow> tokens (s @ t) = tokens t"
  by (induction s) (simp_all add: tokens_space)

lemma tokens_step: "\<not> json_space c \<Longrightarrow> read_token (c # t) = Some (k, s) \<Longrightarrow> tokens (c # t) = before_tokens [k] s"
  by (subst tokens.simps) (simp add: before_token)

lemma new_line_spaces: "list_all json_space (new_line d)"
  by (simp add: new_line_def json_space_def list_all_iff ord_def)

lemmas tokens_new_line [simp] = tokens_spaces [OF new_line_spaces]

lemma tokens_blank [simp]: "tokens (CHR '' '' # t) = tokens t"
  by (simp add: tokens_space json_space_def ord_def)

lemma tokens_sign:
  "tokens (CHR ''{'' # t) = before_tokens [LBrace] t" "tokens (CHR ''}'' # t) = before_tokens [RBrace] t"
  "tokens (CHR ''['' # t) = before_tokens [LBrack] t" "tokens (CHR '']'' # t) = before_tokens [RBrack] t"
  "tokens (CHR '':'' # t) = before_tokens [Colon] t" "tokens (CHR '','' # t) = before_tokens [Comma] t"
  by (rule tokens_step; simp add: json_space_def ord_def read_token_def sign_token_def)+

lemma tokens_quoted: "tokens (quote_json s @ t) = before_tokens [Text (valid_string s)] t"
proof -
  have "sign_token quote_char = None" "\<not> json_space quote_char"
    by (simp_all add: sign_token_def quote_char_def json_space_def ord_def)
  then have "tokens (quote_char # escape_string s @ quote_char # t) = before_tokens [Text (valid_string s)] t"
    by (intro tokens_step) (simp_all add: read_token_def read_escaped)
  then show ?thesis by (simp add: quote_json_def)
qed

lemma word_begins:
  assumes "c \<in> {CHR ''t'', CHR ''f'', CHR ''n''}"
  shows "\<not> json_space c" "sign_token c = None" "c \<noteq> quote_char" "\<not> number_char c"
  using assms by (elim insertE; simp add: json_space_def sign_token_def quote_char_def number_char_def is_digit_def ord_def)+

lemma tokens_literal: "tokens (literal b @ t) = before_tokens [Word (Some b)] t"
  unfolding literal_def
  by (cases b; simp; rule tokens_step) (simp_all add: read_token_def word_begins has_prefix_def)

lemma tokens_null: "tokens (''null'' @ t) = before_tokens [Word None] t"
  by (simp, rule tokens_step) (simp_all add: read_token_def word_begins has_prefix_def)

text \<open>A number's literal has no other characters than a number's.\<close>

lemma digits_number: "list_all is_digit s \<Longrightarrow> list_all number_char s"
  by (auto simp: list_all_iff number_char_def)

lemma digits_number_ok: "digits_ok s \<Longrightarrow> list_all number_char s"
  by (simp add: digits_ok_def digits_number)

lemma exponent_number: "exponent_ok s \<Longrightarrow> list_all number_char s"
  by (cases s; cases "tl s") (auto simp: exponent_ok_def number_char_def dest!: digits_number_ok split: if_splits)

lemma fraction_number:
  assumes "case r of c # t \<Rightarrow> if c = CHR ''.'' then digits_ok (takeWhile is_digit t) \<and> exponent_ok (dropWhile is_digit t) else exponent_ok r | [] \<Rightarrow> True"
  shows "list_all number_char r"
proof (cases r)
  case (Cons c t)
  show ?thesis
  proof (cases "c = CHR ''.''")
    case True
    with assms Cons have "list_all number_char (takeWhile is_digit t)" "list_all number_char (dropWhile is_digit t)"
      using digits_number_ok exponent_number by auto
    then have "list_all number_char (takeWhile is_digit t @ dropWhile is_digit t)" unfolding list_all_append by blast
    with Cons True show ?thesis by (simp add: number_char_def)
  next
    case False
    with assms Cons show ?thesis using exponent_number [of r] by simp
  qed
qed simp

lemma number_literal: "number_ok s \<Longrightarrow> s \<noteq> [] \<and> list_all number_char s"
proof -
  assume n: "number_ok s"
  let ?u = "case s of c # t \<Rightarrow> if c = CHR ''-'' then t else s | [] \<Rightarrow> []"
  have "digits_ok (takeWhile is_digit ?u)" "list_all number_char (dropWhile is_digit ?u)"
    using n fraction_number unfolding number_ok_def Let_def whole_ok_def by blast+
  then have "list_all number_char (takeWhile is_digit ?u @ dropWhile is_digit ?u)" "takeWhile is_digit ?u \<noteq> []"
    using digits_number_ok unfolding list_all_append digits_ok_def by blast+
  then have u: "list_all number_char ?u" "?u \<noteq> []" unfolding takeWhile_dropWhile_id by auto
  moreover have "number_char (CHR ''-'')" by (simp add: number_char_def)
  ultimately show ?thesis by (cases s) (auto split: if_splits)
qed

lemma sign_ords: "sign_token c \<noteq> None \<Longrightarrow> ord c \<in> {44, 58, 91, 93, 123, 125}"
  by (simp add: sign_token_def ord_def split: if_splits)

lemma number_ords: "number_char c \<Longrightarrow> ord c \<in> {43, 45, 46, 69, 101} \<or> 48 \<le> ord c \<and> ord c \<le> 57"
  unfolding number_char_def is_digit_def by (elim disjE) (simp_all, elim disjE, simp_all add: ord_def)

lemma number_begins: "number_char c \<Longrightarrow> \<not> json_space c \<and> sign_token c = None \<and> c \<noteq> quote_char"
  using number_ords [of c] sign_ords [of c] special_chars(1) unfolding json_space_def by (cases "sign_token c") auto

lemma tokens_number: "number_ok x \<Longrightarrow> number_stops t \<Longrightarrow> tokens (x @ t) = before_tokens [Number x] t"
proof -
  assume n: "number_ok x" "number_stops t"
  obtain c y where x: "x = c # y" "number_char c" "list_all number_char x" using number_literal [OF n(1)] by (cases x) auto
  have "takeWhile number_char (x @ t) = x \<and> dropWhile number_char (x @ t) = t"
    using n(2) x(3) by (cases t) (simp_all add: number_stops_def list_all_iff takeWhile_append dropWhile_append)
  with n(1) number_begins [OF x(2)] x(1,2) show ?thesis
    unfolding x(1) append_Cons by (intro tokens_step) (simp_all add: read_token_def)
qed

text \<open>Elements written with a separator that splits into a comma split into their tokens.\<close>

lemma tokens_separated:
  assumes "\<And>x t. x \<in> set xs \<Longrightarrow> number_stops t \<Longrightarrow> tokens (g x @ t) = before_tokens (h x) t"
    and "\<And>t. tokens (d @ t) = before_tokens [Comma] t" "\<And>t. number_stops (d @ t)" "number_stops t"
  shows "tokens (sep_by d (map g xs) @ t) = before_tokens (sep_by [Comma] (map h xs)) t"
  using assms(1)
proof (induction xs rule: induct_list012)
  case 1
  show ?case by (simp add: tokens_nothing)
next
  case (2 x)
  then show ?case using assms(4) by simp
next
  case (3 x y zs)
  have i: "tokens (sep_by d (map g (y # zs)) @ t) = before_tokens (sep_by [Comma] (map h (y # zs))) t" using 3 by simp
  have "tokens (g x @ d @ sep_by d (map g (y # zs)) @ t) = before_tokens (h x) (d @ sep_by d (map g (y # zs)) @ t)"
    using 3(3) assms(3) by simp
  moreover have "before_tokens (h x) (d @ s) = before_tokens (h x @ [Comma]) s" for s by (rule before_tokens_cong) (rule assms(2))
  moreover have "before_tokens (h x @ [Comma]) (sep_by d (map g (y # zs)) @ t) = before_tokens (h x @ Comma # sep_by [Comma] (map h (y # zs))) t"
    using before_tokens_cong [OF i, of "h x @ [Comma]"] by simp
  ultimately show ?case by simp
qed

text \<open>A value's text, of either form, splits into the tokens of what a reader gets.\<close>

lemma stops_signs [simp]: "number_stops (CHR '']'' # t)" "number_stops (CHR ''}'' # t)" "number_stops (CHR '','' # t)"
    "number_stops []" "number_stops (new_line d @ t)"
  by (simp_all add: number_stops_def number_char_def is_digit_def new_line_def ord_def)

lemma before_signs [simp]:
  "before_tokens ks (CHR '']'' # t) = before_tokens (ks @ [RBrack]) t" "before_tokens ks (CHR ''}'' # t) = before_tokens (ks @ [RBrace]) t"
  "before_tokens ks (new_line d @ t) = before_tokens ks t"
  by (rule before_tokens_cong, rule tokens_sign)+ (simp add: before_tokens_def)

lemma tokens_member:
  assumes "tokens (s @ t) = before_tokens ks t"
  shows "tokens (quote_json k @ '':'' @ s @ t) = before_tokens (Text (valid_string k) # Colon # ks) t"
    "tokens (quote_json k @ '': '' @ s @ t) = before_tokens (Text (valid_string k) # Colon # ks) t"
proof -
  have "before_tokens [Text (valid_string k)] (CHR '':'' # u) = before_tokens [Text (valid_string k), Colon] u" for u
    using before_tokens_cong [OF tokens_sign(5)] by simp
  moreover have "before_tokens ls (CHR '' '' # u) = before_tokens ls u" for ls u by (simp add: before_tokens_def)
  ultimately show "tokens (quote_json k @ '':'' @ s @ t) = before_tokens (Text (valid_string k) # Colon # ks) t"
    "tokens (quote_json k @ '': '' @ s @ t) = before_tokens (Text (valid_string k) # Colon # ks) t"
    using before_tokens_cong [OF assms] by (simp_all add: tokens_quoted)
qed

lemma map_members: "map (\<lambda>(k, v). Text k # Colon # tokens_of v) (map (\<lambda>(k, v). (valid_string k, coerced v)) ms)
    = map (\<lambda>(k, v). Text (valid_string k) # Colon # tokens_of (coerced v)) ms"
  by (simp add: case_prod_beta comp_def)

lemma tokens_marshal:
  "numbers_ok v \<Longrightarrow> number_stops t \<Longrightarrow> tokens (marshal v @ t) = before_tokens (tokens_of (coerced v)) t"
proof (induction v arbitrary: t)
  case (Arr vs)
  have "tokens (sep_by '','' (map marshal vs) @ CHR '']'' # t) = before_tokens (sep_by [Comma] (map (\<lambda>v. tokens_of (coerced v)) vs)) (CHR '']'' # t)"
    using Arr by (intro tokens_separated) (auto simp: list_all_iff tokens_sign)
  from before_tokens_cong [OF this, of "[LBrack]"] show ?case by (simp add: tokens_sign comp_def)
next
  case (Obj ms)
  have "tokens (sep_by '','' (map (\<lambda>(k, v). quote_json k @ '':'' @ marshal v) ms) @ CHR ''}'' # t)
      = before_tokens (sep_by [Comma] (map (\<lambda>(k, v). Text (valid_string k) # Colon # tokens_of (coerced v)) ms)) (CHR ''}'' # t)"
  proof (intro tokens_separated)
    fix m t assume "m \<in> set ms" "number_stops t"
    moreover obtain k v where m: "m = (k, v)" by (cases m)
    ultimately have "tokens (marshal v @ t) = before_tokens (tokens_of (coerced v)) t"
      using Obj.IH [of m v t] Obj.prems(1) by (auto simp: list_all_iff)
    then show "tokens ((case m of (k, v) \<Rightarrow> quote_json k @ '':'' @ marshal v) @ t)
        = before_tokens (case m of (k, v) \<Rightarrow> Text (valid_string k) # Colon # tokens_of (coerced v)) t"
      using tokens_member(1) m by simp
  qed (simp_all add: tokens_sign)
  from before_tokens_cong [OF this, of "[LBrace]"] show ?case by (simp add: tokens_sign map_members del: map_map)
qed (simp_all add: tokens_literal tokens_null [simplified] tokens_quoted tokens_number)

lemma comma_line: "tokens (('','' @ new_line d) @ t) = before_tokens [Comma] t" "number_stops (('','' @ new_line d) @ t)"
  by (simp_all add: tokens_sign)

lemma tokens_indented:
  "numbers_ok v \<Longrightarrow> number_stops t \<Longrightarrow> tokens (indented d v @ t) = before_tokens (tokens_of (coerced v)) t"
proof (induction v arbitrary: d t)
  case (Arr vs)
  have "tokens (sep_by ('','' @ new_line (Suc d)) (map (indented (Suc d)) vs) @ new_line d @ CHR '']'' # t)
      = before_tokens (sep_by [Comma] (map (\<lambda>v. tokens_of (coerced v)) vs)) (new_line d @ CHR '']'' # t)"
    using Arr comma_line by (intro tokens_separated) (auto simp: list_all_iff)
  from before_tokens_cong [OF this, of "[LBrack]"] show ?case by (simp add: tokens_sign comp_def)
next
  case (Obj ms)
  have "tokens (sep_by ('','' @ new_line (Suc d)) (map (\<lambda>(k, v). quote_json k @ '': '' @ indented (Suc d) v) ms) @ new_line d @ CHR ''}'' # t)
      = before_tokens (sep_by [Comma] (map (\<lambda>(k, v). Text (valid_string k) # Colon # tokens_of (coerced v)) ms)) (new_line d @ CHR ''}'' # t)"
  proof (intro tokens_separated)
    fix m t assume "m \<in> set ms" "number_stops t"
    moreover obtain k v where m: "m = (k, v)" by (cases m)
    ultimately have "tokens (indented (Suc d) v @ t) = before_tokens (tokens_of (coerced v)) t"
      using Obj.IH [of m v t "Suc d"] Obj.prems(1) by (auto simp: list_all_iff)
    then show "tokens ((case m of (k, v) \<Rightarrow> quote_json k @ '': '' @ indented (Suc d) v) @ t)
        = before_tokens (case m of (k, v) \<Rightarrow> Text (valid_string k) # Colon # tokens_of (coerced v)) t"
      using tokens_member(2) m by simp
  qed (rule comma_line, rule comma_line, simp)
  from before_tokens_cong [OF this, of "[LBrace]"] show ?case by (simp add: tokens_sign map_members del: map_map)
qed (simp_all add: tokens_literal tokens_null [simplified] tokens_quoted tokens_number)

text \<open>Writing and reading: spaces may follow a document.\<close>

lemma depth_coerced: "depth (coerced v) = depth v"
proof (induction v)
  case (Arr vs)
  then have "map depth (map coerced vs) = map depth vs" by (simp add: comp_def)
  then show ?case by (simp del: map_map map_eq_conv)
next
  case (Obj ms)
  then have "map (\<lambda>(k, v). depth v) (map (\<lambda>(k, v). (valid_string k, coerced v)) ms) = map (\<lambda>(k, v). depth v) ms"
    by (fastforce simp: comp_def case_prod_beta)
  then show ?case by (simp del: map_map map_eq_conv)
qed simp_all

lemma tokens_end: "list_all json_space sp \<Longrightarrow> tokens sp = Some []"
proof -
  assume "list_all json_space sp"
  then have "dropWhile json_space sp = []" by (simp add: list_all_iff)
  then show ?thesis by (simp add: tokens.simps [of sp] del: dropWhile_eq_Nil_conv)
qed

lemma read_json_tokens:
  assumes "tokens s = before_tokens (tokens_of v) sp" "list_all json_space sp" "depth v \<le> maxNestingDepth"
  shows "read_json s = Some v"
  using assms read_tokens_of [of v "[]" "[]"] by (simp add: read_json_def before_tokens_def tokens_end)

lemma spaces_stop: "list_all json_space s \<Longrightarrow> number_stops s"
  using number_begins by (cases s) (auto simp: number_stops_def)

lemma read_marshal:
  "numbers_ok v \<Longrightarrow> depth v \<le> maxNestingDepth \<Longrightarrow> list_all json_space sp \<Longrightarrow> read_json (marshal v @ sp) = Some (coerced v)"
  by (rule read_json_tokens [OF tokens_marshal]) (simp_all add: spaces_stop depth_coerced)

lemma read_indented:
  "numbers_ok v \<Longrightarrow> depth v \<le> maxNestingDepth \<Longrightarrow> list_all json_space sp \<Longrightarrow> read_json (marshal_indent v @ sp) = Some (coerced v)"
  unfolding marshal_indent_def by (rule read_json_tokens [OF tokens_indented]) (simp_all add: spaces_stop depth_coerced)

text \<open>Texts that are UTF-8 are kept.\<close>

fun texts_valid :: "json \<Rightarrow> bool" where
  "texts_valid (Str s) = utf8_valid s"
| "texts_valid (Arr vs) = list_all texts_valid vs"
| "texts_valid (Obj ms) = list_all (\<lambda>(k, v). utf8_valid k \<and> texts_valid v) ms"
| "texts_valid _ = True"

lemma coerced_valid: "texts_valid v \<Longrightarrow> coerced v = v"
proof (induction v)
  case (Arr vs)
  then show ?case by (simp add: list_all_iff map_idI)
next
  case (Obj ms)
  then show ?case by (auto simp: list_all_iff valid_string_id intro!: map_idI)
qed (simp_all add: valid_string_id)

definition json_ok :: "json \<Rightarrow> bool" where
  "json_ok v \<longleftrightarrow> numbers_ok v \<and> texts_valid v \<and> depth v \<le> maxNestingDepth"

interpretation compact: codec marshal read_json json_ok
  by unfold_locales (use read_marshal [of _ "[]"] in \<open>auto simp: json_ok_def coerced_valid\<close>)

interpretation indent: codec marshal_indent read_json json_ok
  by unfold_locales (use read_indented [of _ "[]"] in \<open>auto simp: json_ok_def coerced_valid\<close>)

section \<open>Whole numbers\<close>

text \<open>How a Go \<open>int\<close> is written, and that its literal is a number's and says which.\<close>

lemma format_uint_head: "0 < n \<Longrightarrow> hd (format_uint n) \<noteq> CHR ''0''"
proof (induction n rule: format_uint.induct)
  case (1 n)
  show ?case
  proof (cases "n < 10")
    case True
    have "ord (hd (format_uint n)) \<noteq> ord (CHR ''0'')" using True 1(2) by (simp add: format_uint.simps [of n] digit_char_ord) (simp add: ord_def)
    then show ?thesis by auto
  next
    case False
    then have "0 < n div 10" by (simp add: div_greater_zero_iff)
    with 1(1) False show ?thesis by (simp add: format_uint.simps [of n])
  qed
qed

lemma whole_format: "whole_ok (format_uint n)"
  using format_uint_head [of n] format_uint_digits [of n] by (cases "n = 0") (auto simp: whole_ok_def digits_ok_def format_uint.simps [of 0])

lemma format_uint_no_sign: "format_uint m \<noteq> CHR ''-'' # t" "CHR ''-'' # t \<noteq> format_uint m"
proof -
  show "format_uint m \<noteq> CHR ''-'' # t" using format_uint_digits [of m] by (auto simp: is_digit_def ord_def)
  then show "CHR ''-'' # t \<noteq> format_uint m" by (rule not_sym)
qed

lemma number_ok_format_int: "number_ok (format_int n)"
proof -
  have d: "takeWhile is_digit (format_uint m) = format_uint m" "dropWhile is_digit (format_uint m) = []" for m
    using format_uint_digits [of m] by (simp_all add: list_all_iff)
  have "(case format_uint m of c # t \<Rightarrow> if c = CHR ''-'' then t else format_uint m | [] \<Rightarrow> []) = format_uint m" for m
    using format_uint_no_sign(1) [of m] by (cases "format_uint m") auto
  with whole_format show ?thesis by (simp add: number_ok_def format_int_def Let_def d del: dropWhile_eq_Nil_conv)
qed

lemma format_int_inject [simp]: "format_int m = format_int n \<longleftrightarrow> m = n"
proof
  have i: "format_uint a = format_uint b \<Longrightarrow> a = b" for a b using parse_digits_format by (metis option.inject)
  assume "format_int m = format_int n"
  then show "m = n" using format_uint_no_sign by (auto simp: format_int_def split: if_splits dest!: i)
qed simp

end
