(* ===== verification/Json_Decode.thy ===== *)
theory Json_Decode
  imports Go_Json
begin

text \<open>
  \<open>json.Unmarshal\<close> into the types the sources give it. A decoder takes the value a place holds
  and a JSON value to the value the place holds then, or to nothing when the types do not
  agree; a \<open>null\<close> leaves strings, numbers and structs as they are and clears pointers, slices
  and maps. A struct goes through the members of an object in order, each to the field of its
  name, or else the field whose name differs in the case of letters only; a name given twice
  decodes into what the first left, also element by element of a slice.
\<close>

section \<open>Decoders\<close>

type_synonym 'a decoder = "'a \<Rightarrow> json \<Rightarrow> 'a option"

fun decode_string :: "string decoder" where
  "decode_string old (Str s) = Some s"
| "decode_string old Null = Some old"
| "decode_string old _ = None"

fun decode_bool :: "bool decoder" where
  "decode_bool old (Bool b) = Some b"
| "decode_bool old Null = Some old"
| "decode_bool old _ = None"

text \<open>\<open>strconv.ParseInt\<close> in base 10 to 64 bits, on the literal of a number.\<close>

definition parse_int64 :: "string \<Rightarrow> int option" where
  "parse_int64 s =
     (if s \<noteq> [] \<and> hd s = CHR ''-''
      then case parse_uint (tl s) 64 of None \<Rightarrow> None | Some n \<Rightarrow> if n \<le> 2 ^ 63 then Some (- int n) else None
      else case parse_uint s 64 of None \<Rightarrow> None | Some n \<Rightarrow> if n < 2 ^ 63 then Some (int n) else None)"

fun decode_int :: "int decoder" where
  "decode_int old (Num x) = parse_int64 x"
| "decode_int old Null = Some old"
| "decode_int old _ = None"

fun decode_elements :: "'a \<Rightarrow> 'a decoder \<Rightarrow> 'a list \<Rightarrow> json list \<Rightarrow> 'a list option" where
  "decode_elements z d old [] = Some []"
| "decode_elements z d old (v # vs) =
     (case d (case old of [] \<Rightarrow> z | x # _ \<Rightarrow> x) v of
        None \<Rightarrow> None
      | Some y \<Rightarrow> map_option ((#) y) (decode_elements z d (tl old) vs))"

fun decode_slice :: "'a \<Rightarrow> 'a decoder \<Rightarrow> 'a list decoder" where
  "decode_slice z d old (Arr vs) = decode_elements z d old vs"
| "decode_slice z d old Null = Some []"
| "decode_slice z d old _ = None"

text \<open>A map keeps what it holds and takes the members in order, each decoded anew.\<close>

fun decode_entries :: "'a \<Rightarrow> 'a decoder \<Rightarrow> (string, 'a) gomap \<Rightarrow> (string \<times> json) list \<Rightarrow> (string, 'a) gomap option" where
  "decode_entries z d m [] = Some m"
| "decode_entries z d m ((k, v) # ms) = (case d z v of None \<Rightarrow> None | Some y \<Rightarrow> decode_entries z d (mput m k y) ms)"

fun decode_map :: "'a \<Rightarrow> 'a decoder \<Rightarrow> (string, 'a) gomap option decoder" where
  "decode_map z d old (Obj ms) = map_option Some (decode_entries z d (case old of None \<Rightarrow> [] | Some m \<Rightarrow> m) ms)"
| "decode_map z d old Null = Some None"
| "decode_map z d old _ = None"

definition decode_pointer :: "'a \<Rightarrow> 'a decoder \<Rightarrow> 'a option decoder" where
  "decode_pointer z d old v =
     (if v = Null then Some None else map_option Some (d (case old of None \<Rightarrow> z | Some x \<Rightarrow> x) v))"

section \<open>Structs\<close>

text \<open>
  Letters that differ in case only. Beside the letters of ASCII themselves, the Kelvin sign and
  the long s have a letter of ASCII as another case; the names of fields are ASCII.
\<close>

definition fold_rune :: "nat \<Rightarrow> nat" where
  "fold_rune r = (if 97 \<le> r \<and> r \<le> 122 then r - 32 else if r = 8490 then 75 else if r = 383 then 83 else r)"

definition same_name :: "string \<Rightarrow> string \<Rightarrow> bool" where
  "same_name f n \<longleftrightarrow> map fold_rune (runes f) = map fold_rune (runes n)"

type_synonym 'r fields = "(string \<times> 'r decoder) list"

definition field :: "('r \<Rightarrow> 'a) \<Rightarrow> (('a \<Rightarrow> 'a) \<Rightarrow> 'r \<Rightarrow> 'r) \<Rightarrow> 'a decoder \<Rightarrow> 'r decoder" where
  "field get upd d r v = map_option (\<lambda>y. upd (\<lambda>_. y) r) (d (get r) v)"

definition field_named :: "'r fields \<Rightarrow> string \<Rightarrow> 'r decoder option" where
  "field_named fs n = (case map_of fs n of Some d \<Rightarrow> Some d | None \<Rightarrow> map_option snd (find (\<lambda>(f, _). same_name f n) fs))"

fun decode_members :: "'r fields \<Rightarrow> 'r \<Rightarrow> (string \<times> json) list \<Rightarrow> 'r option" where
  "decode_members fs r [] = Some r"
| "decode_members fs r ((n, v) # ms) =
     (case field_named fs n of
        None \<Rightarrow> decode_members fs r ms
      | Some d \<Rightarrow> (case d r v of None \<Rightarrow> None | Some r1 \<Rightarrow> decode_members fs r1 ms))"

fun decode_struct :: "'r fields \<Rightarrow> 'r decoder" where
  "decode_struct fs r (Obj ms) = decode_members fs r ms"
| "decode_struct fs r Null = Some r"
| "decode_struct fs r _ = None"

definition unmarshal :: "'a \<Rightarrow> 'a decoder \<Rightarrow> bytes \<Rightarrow> 'a option" where
  "unmarshal z d b = (case read_json b of None \<Rightarrow> None | Some v \<Rightarrow> d z v)"

section \<open>What was written decodes\<close>

lemma parse_format_int64: "- (2 ^ 63) \<le> n \<Longrightarrow> n < 2 ^ 63 \<Longrightarrow> parse_int64 (format_int n) = Some n"
proof -
  assume b: "- (2 ^ 63) \<le> n" "n < 2 ^ 63"
  have p: "parse_uint (format_uint m) 64 = Some m" if "m \<le> 2 ^ 63" for m
    using that by (simp add: parse_uint_def parse_digits_format)
  show ?thesis
  proof (cases "n < 0")
    case True
    with b have "nat (- n) \<le> 2 ^ 63" by simp
    with p True show ?thesis by (simp add: parse_int64_def format_int_def)
  next
    case False
    with b have m: "nat n < 2 ^ 63" by simp
    have "hd (format_uint (nat n)) \<noteq> CHR ''-''"
      using format_uint_no_sign(1) [of "nat n"] format_uint_not_Nil [of "nat n"] by (cases "format_uint (nat n)") auto
    with p [of "nat n"] m False show ?thesis by (simp add: parse_int64_def format_int_def)
  qed
qed

lemma decode_strings: "decode_elements '''' decode_string [] (map Str xs) = Some xs"
  by (induction xs) simp_all

lemma decode_elements_new:
  "(\<And>x. x \<in> set xs \<Longrightarrow> d z (f x) = Some x) \<Longrightarrow> decode_elements z d [] (map f xs) = Some xs"
  by (induction xs) simp_all

lemma mput_new: "k \<notin> set (map fst m) \<Longrightarrow> mput m k v = m @ [(k, v)]"
  by (simp add: mput_def update_conv) (induction m; auto)

lemma decode_entries_new:
  assumes "\<And>k x. (k, x) \<in> set m \<Longrightarrow> d z (f x) = Some x" and "distinct (map fst (n @ m))"
  shows "decode_entries z d n (map (\<lambda>(k, x). (k, f x)) m) = Some (n @ m)"
  using assms
proof (induction m arbitrary: n)
  case (Cons e m)
  obtain k x where e: "e = (k, x)" by (cases e)
  have "mput n k x = n @ [(k, x)]" using Cons.prems(2) e by (intro mput_new) auto
  moreover have "decode_entries z d (n @ [(k, x)]) (map (\<lambda>(k, x). (k, f x)) m) = Some ((n @ [(k, x)]) @ m)"
    by (rule Cons.IH) (use Cons.prems e in auto)
  moreover have "d z (f x) = Some x" using Cons.prems(1) [of k x] e by simp
  ultimately show ?case using e by simp
qed simp

lemma unmarshal_marshal: "json_ok v \<Longrightarrow> unmarshal z d (marshal v) = d z v"
  by (simp add: unmarshal_def compact.dec_enc)

end
