(* ===== verification/Outbound.thy ===== *)
theory Outbound
  imports Auth_Gate Http_Calls Json_Decode
begin

text \<open>
  The outbound calls of package \<open>authclient\<close> (\<open>src/authclient/outbound.go\<close>, \<open>background.go\<close>,
  \<open>keyexchange.go\<close>, and \<open>cachedToken\<close> of \<open>client.go\<close>): the token cache and its keys, the
  token endpoint with its nonce retry, and requests made with a token and a fresh proof. The
  network, the clock and the randomness are operations on a world state; the libraries are
  arguments of one environment. Each loop of two attempts is a recursion on the attempts left,
  and the requests it sent are returned beside its answer.
\<close>

section \<open>The environment\<close>

record token_response =
  tr_AccessToken :: string
  tr_TokenType :: string
  tr_ExpiresIn :: int

record ('w, 'k) outbound_env =
  oe_jwk :: "'k jwk_lib"
  oe_url :: "string \<Rightarrow> url option"
  oe_sha256 :: "bytes \<Rightarrow> bytes"
  oe_sign :: "'k \<Rightarrow> proof_header \<Rightarrow> proof_claims \<Rightarrow> string option"
  oe_key :: 'k
  oe_rand :: "'w \<Rightarrow> bytes option \<times> 'w"
  oe_now :: "'w \<Rightarrow> gotime \<times> 'w"
  oe_request_ok :: "string \<Rightarrow> string \<Rightarrow> bool"
  oe_do :: "'w \<Rightarrow> http_request \<Rightarrow> (string, http_response) result \<times> 'w"
  oe_expiry :: "string \<Rightarrow> gotime option"
  oe_cid :: string
  oe_cid_header :: string
  oe_do_within :: "duration \<Rightarrow> 'w \<Rightarrow> http_request \<Rightarrow> (string, http_response) result \<times> 'w"
  oe_framework_url :: "string \<Rightarrow> bool"
  oe_framework_do :: "'w \<Rightarrow> http_request \<Rightarrow> (string, http_response) result \<times> 'w"

datatype hop = HopToken | HopResource

datatype outbound_error =
    ProofFailed dpop_error | BadRequest | TransportFailed string
  | AnsweredWith hop nat bytes string
  | BadTokenResponse | NonceNotSatisfied | EmptyToken | EmptyKey | ReturnedStatus nat
  | MarshalFailed | UnmarshalFailed

text \<open>The client's own proof for one request.\<close>

definition client_proof :: "('w, 'k) outbound_env \<Rightarrow> string \<Rightarrow> string \<Rightarrow> string \<Rightarrow> string \<Rightarrow> 'w \<Rightarrow> (dpop_error, string) result \<times> 'w" where
  "client_proof env meth url tok nonce w =
     (case oe_rand env w of (r, w1) \<Rightarrow> case oe_now env w1 of (now, w2) \<Rightarrow>
      (generateProof (oe_jwk env) (oe_url env) (oe_sha256 env) (oe_sign env) (oe_key env) r now meth url tok nonce, w2))"

section \<open>The token endpoint\<close>

definition token_fields :: "token_response fields" where
  "token_fields = [(''access_token'', field tr_AccessToken tr_AccessToken_update decode_string),
     (''token_type'', field tr_TokenType tr_TokenType_update decode_string), (''expires_in'', field tr_ExpiresIn tr_ExpiresIn_update decode_int)]"

definition tokenResponse :: "bytes \<Rightarrow> token_response option" where
  "tokenResponse = unmarshal \<lparr>tr_AccessToken = '''', tr_TokenType = '''', tr_ExpiresIn = 0\<rparr> (decode_struct token_fields)"

definition grantTokenExchange :: string where
  "grantTokenExchange = ''urn:ietf:params:oauth:grant-type:token-exchange''"

definition tokenTypeAccessToken :: string where
  "tokenTypeAccessToken = ''urn:ietf:params:oauth:token-type:access_token''"

definition tokenTypeApiKey :: string where
  "tokenTypeApiKey = ''urn:gmb:params:oauth:token-type:api-key''"

text \<open>One attempt of \<open>postTokenForm\<close>: \<open>Inl (Some n)\<close> asks for another with the nonce \<open>n\<close>.\<close>

definition token_request :: "('w, 'k) outbound_env \<Rightarrow> string \<Rightarrow> (string \<times> string) list \<Rightarrow> string \<Rightarrow> http_request" where
  "token_request env tokenURL form pf =
     \<lparr>hq_method = ''POST'', hq_url = tokenURL,
      hq_header = header_set (header_set [] ''Content-Type'' ''application/x-www-form-urlencoded'') ''DPoP'' pf,
      hq_body = Some (encode_values form)\<rparr>"

fun post_attempts :: "('w, 'k) outbound_env \<Rightarrow> string \<Rightarrow> (string \<times> string) list \<Rightarrow> nat \<Rightarrow> string \<Rightarrow> 'w
    \<Rightarrow> ((outbound_error, string \<times> duration) result \<times> http_request list) \<times> 'w" where
  "post_attempts env tokenURL form 0 nonce w = ((Inl NonceNotSatisfied, []), w)"
| "post_attempts env tokenURL form (Suc left) nonce w =
     (case client_proof env ''POST'' tokenURL '''' nonce w of
        (Inl e, w1) \<Rightarrow> ((Inl (ProofFailed e), []), w1)
      | (Inr pf, w1) \<Rightarrow>
          if \<not> oe_request_ok env ''POST'' tokenURL then ((Inl BadRequest, []), w1)
          else let rq = token_request env tokenURL form pf in
            case oe_do env w1 rq of
              (Inl e, w2) \<Rightarrow> ((Inl (TransportFailed e), [rq]), w2)
            | (Inr resp, w2) \<Rightarrow>
                if hp_status resp = 401 \<and> header_get (hp_header resp) ''DPoP-Nonce'' \<noteq> '''' \<and> left = 1
                then (case post_attempts env tokenURL form left (header_get (hp_header resp) ''DPoP-Nonce'') w2 of
                        ((r, rqs), w3) \<Rightarrow> ((r, rq # rqs), w3))
                else if hp_status resp div 100 \<noteq> 2
                then ((Inl (AnsweredWith HopToken (hp_status resp) (take (2 ^ 20) (hp_body resp)) (header_get (hp_header resp) ''Retry-After'')),
                       [rq]), w2)
                else case tokenResponse (take (2 ^ 20) (hp_body resp)) of
                  None \<Rightarrow> ((Inl BadTokenResponse, [rq]), w2)
                | Some tr \<Rightarrow> ((Inr (tr_AccessToken tr, wrap64 (tr_ExpiresIn tr * second)), [rq]), w2))"

definition postTokenForm :: "('w, 'k) outbound_env \<Rightarrow> string \<Rightarrow> (string \<times> string) list \<Rightarrow> 'w
    \<Rightarrow> ((outbound_error, string \<times> duration) result \<times> http_request list) \<times> 'w" where
  "postTokenForm env tokenURL form w = post_attempts env tokenURL form 2 '''' w"

section \<open>The token cache\<close>

record cached_token =
  ct_token :: string
  ct_exp :: gotime
  ct_notAfter :: gotime

definition servable :: "cached_token \<Rightarrow> gotime \<Rightarrow> duration \<Rightarrow> bool" where
  "servable t now early =
     (if \<not> now + early < ct_exp t then False
      else ct_notAfter t = zero_time \<or> now < ct_notAfter t)"

record outbound =
  ob_cfg :: configuration
  ob_tokenURL :: string
  ob_tokens :: "(string, cached_token) gomap"
  ob_nonces :: "(string, string) gomap"

definition cached_token_for :: "outbound \<Rightarrow> gotime \<Rightarrow> string \<Rightarrow> string option" where
  "cached_token_for c now k =
     (case mget (ob_tokens c) k of
        None \<Rightarrow> None
      | Some t \<Rightarrow> if servable t now (ServiceTokenEarlyRefresh (ob_cfg c)) then Some (ct_token t) else None)"

definition store_token :: "outbound \<Rightarrow> gotime \<Rightarrow> string \<Rightarrow> cached_token \<Rightarrow> outbound" where
  "store_token c now k t =
     (let early = ServiceTokenEarlyRefresh (ob_cfg c);
          swept = mkeep (\<lambda>_ e. servable e now early) (ob_tokens c)
      in c\<lparr>ob_tokens := (if servable t now early then mput swept k t else swept)\<rparr>)"

definition service_form :: "outbound \<Rightarrow> string \<Rightarrow> string \<Rightarrow> string \<Rightarrow> (string \<times> string) list" where
  "service_form c audience scope tenant =
     [(''grant_type'', ''client_credentials''), (''client_id'', ServiceClientID (ob_cfg c)),
      (''client_secret'', ServiceClientSecret (ob_cfg c)), (''audience'', audience)]
     @ (if scope \<noteq> '''' then [(''scope'', scope)] else []) @ (if tenant \<noteq> '''' then [(''tenant'', tenant)] else [])"

definition exchange_form :: "outbound \<Rightarrow> string \<Rightarrow> string \<Rightarrow> string \<Rightarrow> string \<Rightarrow> (string \<times> string) list" where
  "exchange_form c audience scope subject subject_type =
     [(''grant_type'', grantTokenExchange), (''client_id'', ServiceClientID (ob_cfg c)),
      (''client_secret'', ServiceClientSecret (ob_cfg c)), (''audience'', audience), (''subject_token'', subject),
      (''subject_token_type'', subject_type)] @ (if scope \<noteq> '''' then [(''scope'', scope)] else [])"

definition requestServiceToken :: "('w, 'k) outbound_env \<Rightarrow> outbound \<Rightarrow> string \<Rightarrow> string \<Rightarrow> string \<Rightarrow> 'w
    \<Rightarrow> ((outbound_error, string \<times> duration) result \<times> http_request list) \<times> 'w" where
  "requestServiceToken env c audience scope tenant w = postTokenForm env (ob_tokenURL c) (service_form c audience scope tenant) w"

definition requestDelegatedToken :: "('w, 'k) outbound_env \<Rightarrow> outbound \<Rightarrow> string \<Rightarrow> string \<Rightarrow> string \<Rightarrow> 'w
    \<Rightarrow> ((outbound_error, string \<times> duration) result \<times> http_request list) \<times> 'w" where
  "requestDelegatedToken env c audience scope subjectToken w =
     postTokenForm env (ob_tokenURL c) (exchange_form c audience scope subjectToken tokenTypeAccessToken) w"

definition service_key :: "string \<Rightarrow> string \<Rightarrow> string \<Rightarrow> string" where
  "service_key audience scope tenant = audience @ ''|'' @ scope @ (if tenant \<noteq> '''' then ''|tenant='' @ tenant else '''')"

definition delegated_key :: "(bytes \<Rightarrow> bytes) \<Rightarrow> string \<Rightarrow> string \<Rightarrow> string \<Rightarrow> string" where
  "delegated_key sha256 audience scope subjectToken = ''obo|'' @ audience @ ''|'' @ scope @ ''|'' @ hex_encode (sha256 subjectToken)"

definition acquireServiceTokenForTenant :: "('w, 'k) outbound_env \<Rightarrow> string \<Rightarrow> string \<Rightarrow> string \<Rightarrow> outbound \<Rightarrow> 'w
    \<Rightarrow> (outbound_error, string) result \<times> outbound \<times> 'w" where
  "acquireServiceTokenForTenant env audience scope tenant c w =
     (let k = service_key audience scope tenant in
      case oe_now env w of (now, w1) \<Rightarrow>
      case cached_token_for c now k of
        Some tok \<Rightarrow> (Inr tok, c, w1)
      | None \<Rightarrow> (case requestServiceToken env c audience scope tenant w1 of
          ((Inl e, _), w2) \<Rightarrow> (Inl e, c, w2)
        | ((Inr (tok, ttl), _), w2) \<Rightarrow>
            (case oe_now env w2 of (t1, w3) \<Rightarrow> case oe_now env w3 of (t2, w4) \<Rightarrow>
             (Inr tok, store_token c t2 k \<lparr>ct_token = tok, ct_exp = t1 + ttl, ct_notAfter = zero_time\<rparr>, w4))))"

definition acquireServiceToken :: "('w, 'k) outbound_env \<Rightarrow> string \<Rightarrow> string \<Rightarrow> outbound \<Rightarrow> 'w
    \<Rightarrow> (outbound_error, string) result \<times> outbound \<times> 'w" where
  "acquireServiceToken env audience scope c w = acquireServiceTokenForTenant env audience scope '''' c w"

definition subjectTokenExpiry :: "('w, 'k) outbound_env \<Rightarrow> string \<Rightarrow> gotime option" where
  "subjectTokenExpiry env subjectToken = oe_expiry env subjectToken"

definition acquireDelegatedToken :: "('w, 'k) outbound_env \<Rightarrow> string \<Rightarrow> string \<Rightarrow> string \<Rightarrow> outbound \<Rightarrow> 'w
    \<Rightarrow> (outbound_error, string) result \<times> outbound \<times> 'w" where
  "acquireDelegatedToken env audience scope subjectToken c w =
     (let k = delegated_key (oe_sha256 env) audience scope subjectToken in
      case oe_now env w of (now, w1) \<Rightarrow>
      case cached_token_for c now k of
        Some tok \<Rightarrow> (Inr tok, c, w1)
      | None \<Rightarrow> (case requestDelegatedToken env c audience scope subjectToken w1 of
          ((Inl e, _), w2) \<Rightarrow> (Inl e, c, w2)
        | ((Inr (tok, ttl), _), w2) \<Rightarrow>
            (case subjectTokenExpiry env subjectToken of
               None \<Rightarrow> (Inr tok, c, w2)
             | Some notAfter \<Rightarrow>
                 (case oe_now env w2 of (t1, w3) \<Rightarrow> case oe_now env w3 of (t2, w4) \<Rightarrow>
                  (Inr tok, store_token c t2 k \<lparr>ct_token = tok, ct_exp = t1 + ttl, ct_notAfter = notAfter\<rparr>, w4)))))"

definition exchangeDelegatedToken :: "('w, 'k) outbound_env \<Rightarrow> string \<Rightarrow> string \<Rightarrow> string \<Rightarrow> outbound \<Rightarrow> 'w
    \<Rightarrow> (outbound_error, string) result \<times> 'w" where
  "exchangeDelegatedToken env audience scope subjectToken c w =
     (case requestDelegatedToken env c audience scope subjectToken w of
        ((Inl e, _), w1) \<Rightarrow> (Inl e, w1)
      | ((Inr (tok, _), _), w1) \<Rightarrow> (Inr tok, w1))"

text \<open>The presented key is revealed only into the form.\<close>

definition exchangeKey :: "('w, 'k) outbound_env \<Rightarrow> string \<Rightarrow> string \<Rightarrow> string \<Rightarrow> outbound \<Rightarrow> 'w
    \<Rightarrow> (outbound_error, string \<times> duration) result \<times> 'w" where
  "exchangeKey env audience scope revealed c w =
     (if revealed = '''' then (Inl EmptyKey, w)
      else case postTokenForm env (ob_tokenURL c) (exchange_form c audience scope revealed tokenTypeApiKey) w of
        ((r, _), w1) \<Rightarrow> (r, w1))"

section \<open>Requests made with a token\<close>

definition resourceNonce :: "outbound \<Rightarrow> string \<Rightarrow> string" where
  "resourceNonce c audience = (case mget (ob_nonces c) audience of None \<Rightarrow> '''' | Some n \<Rightarrow> n)"

definition setResourceNonce :: "string \<Rightarrow> string \<Rightarrow> outbound \<Rightarrow> outbound" where
  "setResourceNonce audience nonce c = c\<lparr>ob_nonces := mput (ob_nonces c) audience nonce\<rparr>"

text \<open>
  The two senders build their request differently: \<open>doBackgroundWith\<close> starts from the caller's
  header and leaves a content type it finds there, \<open>doWithDPoP\<close> starts from an empty one and
  turns every status outside 2xx into an error.
\<close>

definition background_header :: "('w, 'k) outbound_env \<Rightarrow> header \<Rightarrow> string \<Rightarrow> string \<Rightarrow> bytes option \<Rightarrow> header" where
  "background_header env reqHeader token pf body =
     (let h0 = foldl (\<lambda>h (k, x). header_add h k x) [] reqHeader;
          h1 = (if oe_cid env \<noteq> '''' then header_set h0 (oe_cid_header env) (oe_cid env) else h0);
          h2 = header_set h1 ''Authorization'' (''DPoP '' @ token);
          h3 = header_set h2 ''DPoP'' pf
      in if body \<noteq> None \<and> header_get h3 ''Content-Type'' = '''' then header_set h3 ''Content-Type'' ''application/json'' else h3)"

definition framework_header :: "('w, 'k) outbound_env \<Rightarrow> string \<Rightarrow> string \<Rightarrow> bytes option \<Rightarrow> header" where
  "framework_header env token pf body =
     (let h1 = header_set [] ''Authorization'' (''DPoP '' @ token);
          h2 = header_set h1 ''DPoP'' pf;
          h3 = (if oe_cid env \<noteq> '''' then header_set h2 (oe_cid_header env) (oe_cid env) else h2)
      in if body \<noteq> None then header_set h3 ''Content-Type'' ''application/json'' else h3)"

fun background_attempts :: "('w, 'k) outbound_env \<Rightarrow> 'w transport \<Rightarrow> string \<Rightarrow> string \<Rightarrow> string \<Rightarrow> string \<Rightarrow> header
    \<Rightarrow> bytes option \<Rightarrow> nat \<Rightarrow> outbound \<Rightarrow> 'w
    \<Rightarrow> ((outbound_error, http_response) result \<times> http_request list) \<times> outbound \<times> 'w" where
  "background_attempts env send nonceKey token meth fullURL reqHeader body 0 c w = ((Inl NonceNotSatisfied, []), c, w)"
| "background_attempts env send nonceKey token meth fullURL reqHeader body (Suc left) c w =
     (case client_proof env meth fullURL token (resourceNonce c nonceKey) w of
        (Inl e, w1) \<Rightarrow> ((Inl (ProofFailed e), []), c, w1)
      | (Inr pf, w1) \<Rightarrow>
          if \<not> oe_request_ok env meth fullURL then ((Inl BadRequest, []), c, w1)
          else let rq = \<lparr>hq_method = meth, hq_url = fullURL, hq_header = background_header env reqHeader token pf body, hq_body = body\<rparr> in
            case send w1 rq of
              (Inl e, w2) \<Rightarrow> ((Inl (TransportFailed e), [rq]), c, w2)
            | (Inr resp, w2) \<Rightarrow>
                let n = header_get (hp_header resp) ''DPoP-Nonce'' in
                if hp_status resp = 401 \<and> n \<noteq> '''' \<and> left = 1
                then (case background_attempts env send nonceKey token meth fullURL reqHeader body left (setResourceNonce nonceKey n c) w2 of
                        ((r, rqs), c3, w3) \<Rightarrow> ((r, rq # rqs), c3, w3))
                else ((Inr (resp\<lparr>hp_body := take (2 ^ 24) (hp_body resp)\<rparr>), [rq]), c, w2))"

definition doBackgroundWith :: "('w, 'k) outbound_env \<Rightarrow> 'w transport \<Rightarrow> string \<Rightarrow> string \<Rightarrow> string \<Rightarrow> string \<Rightarrow> header
    \<Rightarrow> bytes option \<Rightarrow> outbound \<Rightarrow> 'w
    \<Rightarrow> ((outbound_error, http_response) result \<times> http_request list) \<times> outbound \<times> 'w" where
  "doBackgroundWith env send nonceKey token meth fullURL reqHeader body c w =
     background_attempts env send nonceKey token (ascii_upper meth) fullURL reqHeader body 2 c w"

definition doBackground :: "('w, 'k) outbound_env \<Rightarrow> string \<Rightarrow> string \<Rightarrow> string \<Rightarrow> string \<Rightarrow> header
    \<Rightarrow> bytes option \<Rightarrow> outbound \<Rightarrow> 'w
    \<Rightarrow> ((outbound_error, http_response) result \<times> http_request list) \<times> outbound \<times> 'w" where
  "doBackground env nonceKey token meth fullURL reqHeader body c w =
     doBackgroundWith env (oe_do env) nonceKey token meth fullURL reqHeader body c w"

fun framework_attempts :: "('w, 'k) outbound_env \<Rightarrow> string \<Rightarrow> string \<Rightarrow> string \<Rightarrow> string
    \<Rightarrow> bytes option \<Rightarrow> nat \<Rightarrow> outbound \<Rightarrow> 'w
    \<Rightarrow> ((outbound_error, bytes) result \<times> http_request list) \<times> outbound \<times> 'w" where
  "framework_attempts env nonceKey token meth fullURL body 0 c w = ((Inl NonceNotSatisfied, []), c, w)"
| "framework_attempts env nonceKey token meth fullURL body (Suc left) c w =
     (case client_proof env meth fullURL token (resourceNonce c nonceKey) w of
        (Inl e, w1) \<Rightarrow> ((Inl (ProofFailed e), []), c, w1)
      | (Inr pf, w1) \<Rightarrow>
          if \<not> oe_framework_url env fullURL then ((Inl BadRequest, []), c, w1)
          else let rq = \<lparr>hq_method = meth, hq_url = fullURL, hq_header = framework_header env token pf body, hq_body = body\<rparr> in
            case oe_framework_do env w1 rq of
              (Inl e, w2) \<Rightarrow> ((Inl (TransportFailed e), [rq]), c, w2)
            | (Inr resp, w2) \<Rightarrow>
                let n = header_get (hp_header resp) ''DPoP-Nonce'' in
                if hp_status resp = 401 \<and> n \<noteq> '''' \<and> left = 1
                then (case framework_attempts env nonceKey token meth fullURL body left (setResourceNonce nonceKey n c) w2 of
                        ((r, rqs), c3, w3) \<Rightarrow> ((r, rq # rqs), c3, w3))
                else if hp_status resp div 100 \<noteq> 2 then ((Inl (ReturnedStatus (hp_status resp)), [rq]), c, w2)
                else ((Inr (hp_body resp), [rq]), c, w2))"

definition doWithDPoP :: "('w, 'k) outbound_env \<Rightarrow> string \<Rightarrow> string \<Rightarrow> string \<Rightarrow> string \<Rightarrow> bytes option \<Rightarrow> outbound \<Rightarrow> 'w
    \<Rightarrow> ((outbound_error, bytes) result \<times> http_request list) \<times> outbound \<times> 'w" where
  "doWithDPoP env nonceKey token meth fullURL body c w =
     framework_attempts env nonceKey token (ascii_upper meth) fullURL body 2 c w"

text \<open>An acquired token is used for one send; a failed acquisition sends nothing to the resource.\<close>

definition with_token :: "(outbound_error, string) result \<times> outbound \<times> 'w
    \<Rightarrow> (string \<Rightarrow> outbound \<Rightarrow> 'w \<Rightarrow> ((outbound_error, 'a) result \<times> http_request list) \<times> outbound \<times> 'w)
    \<Rightarrow> ((outbound_error, 'a) result \<times> http_request list) \<times> outbound \<times> 'w" where
  "with_token acquired f =
     (case acquired of (Inl e, c, w) \<Rightarrow> ((Inl e, []), c, w) | (Inr token, c, w) \<Rightarrow> f token c w)"

definition doService where
  "doService env audience scope meth fullURL reqHeader body c w =
     with_token (acquireServiceToken env audience scope c w) (\<lambda>token. doBackground env audience token meth fullURL reqHeader body)"

definition doServiceForTenant where
  "doServiceForTenant env audience scope tenant meth fullURL reqHeader body c w =
     with_token (acquireServiceTokenForTenant env audience scope tenant c w)
       (\<lambda>token. doBackground env audience token meth fullURL reqHeader body)"

definition doServiceOnBehalf where
  "doServiceOnBehalf env audience scope subjectToken meth fullURL reqHeader body c w =
     with_token (acquireDelegatedToken env audience scope subjectToken c w)
       (\<lambda>token. doBackground env audience token meth fullURL reqHeader body)"

definition doServiceWithTimeout where
  "doServiceWithTimeout env timeout audience scope meth fullURL reqHeader body c w =
     with_token (acquireServiceToken env audience scope c w)
       (\<lambda>token. doBackgroundWith env (oe_do_within env timeout) audience token meth fullURL reqHeader body)"

definition doServiceOnBehalfWithTimeout where
  "doServiceOnBehalfWithTimeout env timeout audience scope subjectToken meth fullURL reqHeader body c w =
     with_token (acquireDelegatedToken env audience scope subjectToken c w)
       (\<lambda>token. doBackgroundWith env (oe_do_within env timeout) audience token meth fullURL reqHeader body)"

definition doWithToken :: "('w, 'k) outbound_env \<Rightarrow> string \<Rightarrow> string \<Rightarrow> string \<Rightarrow> string \<Rightarrow> header \<Rightarrow> bytes option \<Rightarrow> outbound \<Rightarrow> 'w
    \<Rightarrow> ((outbound_error, http_response) result \<times> http_request list) \<times> outbound \<times> 'w" where
  "doWithToken env nonceKey token meth fullURL reqHeader body c w =
     (if trim_space token = '''' then ((Inl EmptyToken, []), c, w)
      else doBackground env nonceKey token meth fullURL reqHeader body c w)"

text \<open>
  A JSON answer is decoded when there is a body and somewhere to put it: \<open>dec\<close> is \<open>None\<close> for
  a nil target.
\<close>

definition decode_into :: "(bytes \<Rightarrow> 'v option) option \<Rightarrow> ((outbound_error, bytes) result \<times> http_request list) \<times> outbound \<times> 'w
    \<Rightarrow> ((outbound_error, 'v option) result \<times> http_request list) \<times> outbound \<times> 'w" where
  "decode_into dec answered =
     (case answered of
        ((Inl e, rqs), c, w) \<Rightarrow> ((Inl e, rqs), c, w)
      | ((Inr body, rqs), c, w) \<Rightarrow>
          (case dec of
             Some f \<Rightarrow> if 0 < length body
               then (case f body of None \<Rightarrow> ((Inl UnmarshalFailed, rqs), c, w) | Some v \<Rightarrow> ((Inr (Some v), rqs), c, w))
               else ((Inr None, rqs), c, w)
           | None \<Rightarrow> ((Inr None, rqs), c, w)))"

definition getJSON where
  "getJSON env audience scope fullURL dec c w =
     decode_into dec (with_token (acquireServiceToken env audience scope c w)
       (\<lambda>token. doWithDPoP env audience token ''GET'' fullURL None))"

definition postJSON where
  "postJSON env audience scope fullURL marshalled dec c w =
     (case marshalled of
        None \<Rightarrow> ((Inl MarshalFailed, []), c, w)
      | Some reqBody \<Rightarrow> decode_into dec (with_token (acquireServiceToken env audience scope c w)
          (\<lambda>token. doWithDPoP env audience token ''POST'' fullURL (Some reqBody))))"

definition getJSONOnBehalf where
  "getJSONOnBehalf env audience scope subjectToken fullURL dec c w =
     decode_into dec (with_token (acquireDelegatedToken env audience scope subjectToken c w)
       (\<lambda>token. doWithDPoP env audience token ''GET'' fullURL None))"

definition postJSONOnBehalf where
  "postJSONOnBehalf env audience scope subjectToken fullURL marshalled dec c w =
     (case marshalled of
        None \<Rightarrow> ((Inl MarshalFailed, []), c, w)
      | Some reqBody \<Rightarrow> decode_into dec (with_token (acquireDelegatedToken env audience scope subjectToken c w)
          (\<lambda>token. doWithDPoP env audience token ''POST'' fullURL (Some reqBody))))"

lemmas outbound_eval [eval_simps] =
  client_proof_def grantTokenExchange_def
  tokenTypeAccessToken_def tokenTypeApiKey_def token_request_def postTokenForm_def servable_def cached_token_for_def
  store_token_def service_form_def exchange_form_def requestServiceToken_def requestDelegatedToken_def service_key_def
  delegated_key_def acquireServiceTokenForTenant_def acquireServiceToken_def subjectTokenExpiry_def
  acquireDelegatedToken_def exchangeDelegatedToken_def exchangeKey_def resourceNonce_def setResourceNonce_def
  background_header_def framework_header_def doBackgroundWith_def doBackground_def doWithDPoP_def with_token_def
  doService_def doServiceForTenant_def doServiceOnBehalf_def doServiceWithTimeout_def doServiceOnBehalfWithTimeout_def
  doWithToken_def decode_into_def getJSON_def postJSON_def getJSONOnBehalf_def postJSONOnBehalf_def

section \<open>Cache keys\<close>

text \<open>
  A cache key is read back field by field as long as no audience or scope contains a bar.
  The tenant comes last and may contain anything but a bar as well.
\<close>

definition bar_free :: "string \<Rightarrow> bool" where
  "bar_free s \<longleftrightarrow> CHR ''|'' \<notin> set s"

lemma hex_digit_inj: "i < 16 \<Longrightarrow> j < 16 \<Longrightarrow> hex_alphabet ! i = hex_alphabet ! j \<Longrightarrow> i = j"
  using nth_eq_iff_index_eq [of hex_alphabet i j] by (simp add: hex_alphabet_def)

lemma hex_digit_bar: "i < 16 \<Longrightarrow> hex_alphabet ! i \<noteq> CHR ''|''"
  using nth_mem [of i hex_alphabet] by (auto simp: hex_alphabet_def)


lemma hex_encode_bar_free: "bar_free (hex_encode bs)"
proof (induction bs)
  case (Cons b bs)
  show ?case
    using Cons hex_digit_bar [of "ord b div 16"] hex_digit_bar [of "ord b mod 16"] by (simp add: bar_free_def hex_encode_def)
qed (simp add: bar_free_def hex_encode_def)

lemma hex_encode_inj: "hex_encode xs = hex_encode ys \<Longrightarrow> xs = ys"
proof (induction xs arbitrary: ys)
  case Nil
  then show ?case by (cases ys) (simp_all add: hex_encode_def)
next
  case (Cons x xs)
  then obtain y ys' where ys: "ys = y # ys'" by (cases ys) (simp_all add: hex_encode_def)
  have "ord x div 16 = ord y div 16" and "ord x mod 16 = ord y mod 16"
    using Cons.prems by (auto simp: ys hex_encode_def intro!: hex_digit_inj)
  then have "ord x = ord y" by (metis div_mult_mod_eq)
  then have "x = y" by simp
  with Cons show ?case by (simp add: ys hex_encode_def)
qed

lemma service_key_split:
  assumes "bar_free a" and "bar_free s" and "bar_free t"
  shows "split_on (CHR ''|'') (service_key a s t) = a # s # (if t \<noteq> '''' then [''tenant='' @ t] else [])"
  using assms by (auto simp: service_key_def bar_free_def)

lemma delegated_key_split:
  assumes "bar_free a" and "bar_free s"
  shows "split_on (CHR ''|'') (delegated_key h a s st) = [''obo'', a, s, hex_encode (h st)]"
  using assms hex_encode_bar_free [of "h st"] split_on_append [of "CHR ''|''" "''obo''"]
  by (simp add: delegated_key_def bar_free_def)

lemma service_key_inj:
  assumes "bar_free a" "bar_free s" "bar_free t" "bar_free a'" "bar_free s'" "bar_free t'"
    and "service_key a s t = service_key a' s' t'"
  shows "a = a' \<and> s = s' \<and> t = t'"
proof -
  have "split_on (CHR ''|'') (service_key a s t) = split_on (CHR ''|'') (service_key a' s' t')" by (simp only: assms(7))
  then show ?thesis
    unfolding service_key_split [OF assms(1-3)] service_key_split [OF assms(4-6)] by (simp split: if_splits)
qed

lemma delegated_key_inj:
  assumes "bar_free a" "bar_free s" "bar_free a'" "bar_free s'" and "delegated_key h a s st = delegated_key h a' s' st'"
  shows "a = a' \<and> s = s' \<and> h st = h st'"
proof -
  have "split_on (CHR ''|'') (delegated_key h a s st) = split_on (CHR ''|'') (delegated_key h a' s' st')" by (simp only: assms(5))
  then show ?thesis
    unfolding delegated_key_split [OF assms(1-2)] delegated_key_split [OF assms(3-4)] by (auto dest: hex_encode_inj)
qed

lemma service_delegated_disjoint:
  assumes "bar_free a" "bar_free s" "bar_free t" "bar_free a'" "bar_free s'"
  shows "service_key a s t \<noteq> delegated_key h a' s' st"
proof
  assume "service_key a s t = delegated_key h a' s' st"
  with service_key_split [OF assms(1-3)] delegated_key_split [OF assms(4-5), of h st] show False
    by (simp split: if_splits)
qed

text \<open>Nothing keeps the tenant marker out of a scope: a plain key and a tenant's key can be the same.\<close>

lemma tenant_marker_collides:
  "t \<noteq> '''' \<Longrightarrow> service_key a (s @ ''|tenant='' @ t) '''' = service_key a s t"
  by (simp add: service_key_def)

section \<open>Which token a call is given\<close>

text \<open>
  Calls of either kind through one cache. \<open>issued\<close> says the token endpoint answered a form
  with a token; \<open>cache_ok\<close> ties every entry to a call with its key, its form and its bound.
\<close>

datatype call = ServiceCall string string string | DelegatedCall string string string

fun acquire :: "('w, 'k) outbound_env \<Rightarrow> call \<Rightarrow> outbound \<Rightarrow> 'w \<Rightarrow> (outbound_error, string) result \<times> outbound \<times> 'w" where
  "acquire env (ServiceCall audience scope tenant) = acquireServiceTokenForTenant env audience scope tenant"
| "acquire env (DelegatedCall audience scope subjectToken) = acquireDelegatedToken env audience scope subjectToken"

fun call_key :: "('w, 'k) outbound_env \<Rightarrow> call \<Rightarrow> string" where
  "call_key env (ServiceCall a s t) = service_key a s t"
| "call_key env (DelegatedCall a s st) = delegated_key (oe_sha256 env) a s st"

fun call_form :: "outbound \<Rightarrow> call \<Rightarrow> (string \<times> string) list" where
  "call_form c (ServiceCall a s t) = service_form c a s t"
| "call_form c (DelegatedCall a s st) = exchange_form c a s st tokenTypeAccessToken"

fun call_until :: "('w, 'k) outbound_env \<Rightarrow> call \<Rightarrow> gotime option" where
  "call_until env (ServiceCall a s t) = Some zero_time"
| "call_until env (DelegatedCall a s st) = subjectTokenExpiry env st"

fun call_ok :: "call \<Rightarrow> bool" where
  "call_ok (ServiceCall a s t) \<longleftrightarrow> bar_free a \<and> bar_free s \<and> bar_free t"
| "call_ok (DelegatedCall a s st) \<longleftrightarrow> bar_free a \<and> bar_free s"

text \<open>Two calls the cache does not tell apart: the same, or delegated with subject tokens of one SHA-256.\<close>

fun same_call :: "('w, 'k) outbound_env \<Rightarrow> call \<Rightarrow> call \<Rightarrow> bool" where
  "same_call env (ServiceCall a s t) d \<longleftrightarrow> d = ServiceCall a s t"
| "same_call env (DelegatedCall a s st) d \<longleftrightarrow> (\<exists>st'. d = DelegatedCall a s st' \<and> oe_sha256 env st' = oe_sha256 env st)"

definition issued :: "('w, 'k) outbound_env \<Rightarrow> string \<Rightarrow> (string \<times> string) list \<Rightarrow> string \<Rightarrow> bool" where
  "issued env tokenURL form tok \<longleftrightarrow> (\<exists>w ttl rqs w'. postTokenForm env tokenURL form w = ((Inr (tok, ttl), rqs), w'))"

definition cache_ok :: "('w, 'k) outbound_env \<Rightarrow> outbound \<Rightarrow> bool" where
  "cache_ok env c \<longleftrightarrow> gomap_ok (ob_tokens c) \<and>
     (\<forall>k t. mget (ob_tokens c) k = Some t \<longrightarrow> (\<exists>cl. call_ok cl \<and> call_key env cl = k \<and>
        issued env (ob_tokenURL c) (call_form c cl) (ct_token t) \<and> call_until env cl = Some (ct_notAfter t)))"

lemma call_key_inj: "call_ok x \<Longrightarrow> call_ok y \<Longrightarrow> call_key env x = call_key env y \<Longrightarrow> same_call env x y"
proof (cases x; cases y)
  fix a s t a' s' t'
  assume "call_ok x" "call_ok y" "call_key env x = call_key env y" "x = ServiceCall a s t" "y = ServiceCall a' s' t'"
  then show ?thesis using service_key_inj [of a s t a' s' t'] by simp
next
  fix a s t a' s' st'
  assume "call_ok x" "call_ok y" "call_key env x = call_key env y" "x = ServiceCall a s t" "y = DelegatedCall a' s' st'"
  then show ?thesis using service_delegated_disjoint [of a s t a' s' "oe_sha256 env" st'] by simp
next
  fix a s st a' s' t'
  assume "call_ok x" "call_ok y" "call_key env x = call_key env y" "x = DelegatedCall a s st" "y = ServiceCall a' s' t'"
  then show ?thesis using service_delegated_disjoint [of a' s' t' a s "oe_sha256 env" st] by simp
next
  fix a s st a' s' st'
  assume "call_ok x" "call_ok y" "call_key env x = call_key env y" "x = DelegatedCall a s st" "y = DelegatedCall a' s' st'"
  then show ?thesis using delegated_key_inj [of a s a' s' "oe_sha256 env" st st'] by simp
qed

text \<open>Both kinds of acquisition are one procedure over the call's key, form and bound.\<close>

lemma acquire_eq:
  "acquire env cl c w =
     (case oe_now env w of (now, w1) \<Rightarrow>
      case cached_token_for c now (call_key env cl) of
        Some tok \<Rightarrow> (Inr tok, c, w1)
      | None \<Rightarrow> (case postTokenForm env (ob_tokenURL c) (call_form c cl) w1 of
          ((Inl e, _), w2) \<Rightarrow> (Inl e, c, w2)
        | ((Inr (tok, ttl), _), w2) \<Rightarrow>
            (case call_until env cl of
               None \<Rightarrow> (Inr tok, c, w2)
             | Some na \<Rightarrow>
                 (case oe_now env w2 of (t1, w3) \<Rightarrow> case oe_now env w3 of (t2, w4) \<Rightarrow>
                  (Inr tok, store_token c t2 (call_key env cl) \<lparr>ct_token = tok, ct_exp = t1 + ttl, ct_notAfter = na\<rparr>, w4)))))"
  by (cases cl) (simp_all only: acquire.simps call_key.simps call_form.simps call_until.simps option.case
      acquireServiceTokenForTenant_def acquireDelegatedToken_def Let_def requestServiceToken_def requestDelegatedToken_def)

lemma cached_token_for_Some:
  assumes "cached_token_for c now k = Some tok"
  obtains e where "mget (ob_tokens c) k = Some e" "servable e now (ServiceTokenEarlyRefresh (ob_cfg c))" "tok = ct_token e"
  using assms by (auto simp: cached_token_for_def split: option.splits if_splits)

lemma acquire_cases:
  assumes "acquire env cl c w = (r, c', w')"
  obtains (cached) now w1 t where "oe_now env w = (now, w1)" "mget (ob_tokens c) (call_key env cl) = Some t"
      "servable t now (ServiceTokenEarlyRefresh (ob_cfg c))" "r = Inr (ct_token t)" "c' = c"
  | (refused) e where "r = Inl e" "c' = c"
  | (unkept) tok where "r = Inr tok" "issued env (ob_tokenURL c) (call_form c cl) tok" "c' = c"
  | (kept) tok ttl na t1 t2 where "r = Inr tok" "issued env (ob_tokenURL c) (call_form c cl) tok" "call_until env cl = Some na"
      "c' = store_token c t2 (call_key env cl) \<lparr>ct_token = tok, ct_exp = t1 + ttl, ct_notAfter = na\<rparr>"
proof -
  obtain now w1 where n: "oe_now env w = (now, w1)" by (metis prod.exhaust)
  obtain q rqs w2 where p: "postTokenForm env (ob_tokenURL c) (call_form c cl) w1 = ((q, rqs), w2)" by (metis prod.exhaust)
  obtain t1 w3 where t1: "oe_now env w2 = (t1, w3)" by (metis prod.exhaust)
  obtain t2 w4 where t2: "oe_now env w3 = (t2, w4)" by (metis prod.exhaust)
  note a = assms [unfolded acquire_eq]
  consider (c) tok where "cached_token_for c now (call_key env cl) = Some tok"
    | (e) e where "cached_token_for c now (call_key env cl) = None" "q = Inl e"
    | (n) tok ttl where "cached_token_for c now (call_key env cl) = None" "q = Inr (tok, ttl)" "call_until env cl = None"
    | (k) tok ttl na where "cached_token_for c now (call_key env cl) = None" "q = Inr (tok, ttl)" "call_until env cl = Some na"
    by (cases "cached_token_for c now (call_key env cl)"; cases q; cases "call_until env cl") (auto intro: prod.exhaust)
  then show thesis
  proof cases
    case (c tok)
    then obtain e where "mget (ob_tokens c) (call_key env cl) = Some e"
        "servable e now (ServiceTokenEarlyRefresh (ob_cfg c))" "tok = ct_token e"
      by (rule cached_token_for_Some)
    with a n c show thesis by (intro cached [of now w1 e]) simp_all
  next
    case (e e)
    with a n p show thesis by (intro refused [of e]) simp_all
  next
    case (n tok ttl)
    with a \<open>oe_now env w = (now, w1)\<close> p show thesis by (intro unkept [of tok]) (auto simp: issued_def)
  next
    case (k tok ttl na)
    with a n p t1 t2 show thesis by (intro kept [of tok na t2 t1 ttl]) (auto simp: issued_def)
  qed
qed

lemma store_token_keeps [simp]:
  "ob_cfg (store_token c now k t) = ob_cfg c" "ob_tokenURL (store_token c now k t) = ob_tokenURL c"
  "ob_nonces (store_token c now k t) = ob_nonces c"
  by (simp_all add: store_token_def Let_def)

lemma call_form_store [simp]: "call_form (store_token c now k t) cl = call_form c cl"
  by (cases cl) (simp_all add: service_form_def exchange_form_def)

lemma store_token_lookup:
  assumes "gomap_ok (ob_tokens c)" and "mget (ob_tokens (store_token c now k t)) j = Some e"
  shows "servable e now (ServiceTokenEarlyRefresh (ob_cfg c))"
    and "mget (ob_tokens c) j = Some e \<or> j = k \<and> e = t"
  using assms by (auto simp: store_token_def Let_def gomap_simps split: if_splits option.splits)

lemma same_call_refl: "same_call env cl cl"
  by (cases cl) simp_all

lemma acquired_for_its_call:
  assumes "acquire env cl c w = (Inr tok, c', w')" and "cache_ok env c" and "call_ok cl"
  shows "\<exists>d. same_call env d cl \<and> issued env (ob_tokenURL c) (call_form c d) tok"
  using assms(1)
proof (cases rule: acquire_cases)
  case (cached now w1 t)
  with assms(2) obtain d where "call_ok d" "call_key env d = call_key env cl"
      "issued env (ob_tokenURL c) (call_form c d) (ct_token t)"
    by (auto simp: cache_ok_def)
  with cached call_key_inj [OF _ assms(3)] show ?thesis by auto
next
  case (unkept t)
  then show ?thesis using same_call_refl by blast
next
  case (kept t ttl na t1 t2)
  then show ?thesis using same_call_refl by blast
qed simp

section \<open>The nonce retry\<close>

lemma background_header_token: "header_get (background_header env rh token pf body) ''Authorization'' = ''DPoP '' @ token"
  by (simp add: background_header_def Let_def header_get_set_other canonical_names)

lemma background_header_proof: "header_get (background_header env rh token pf body) ''DPoP'' = pf"
  by (simp add: background_header_def Let_def header_get_set_other canonical_names)

text \<open>The correlation header is none of those the client sets itself.\<close>

definition cid_clear :: "('w, 'k) outbound_env \<Rightarrow> bool" where
  "cid_clear env \<longleftrightarrow> canonical_name (oe_cid_header env) \<notin> {''Authorization'', ''Dpop''}"

lemma framework_header_set:
  assumes "cid_clear env"
  shows "header_get (framework_header env token pf body) ''Authorization'' = ''DPoP '' @ token"
    and "header_get (framework_header env token pf body) ''DPoP'' = pf"
  using assms by (auto simp: framework_header_def Let_def header_get_set_other canonical_names cid_clear_def eq_commute [of "canonical_name _"])

text \<open>A request that presents the token with a proof made for it and the nonce, and one to the token endpoint.\<close>

definition presents :: "('w, 'k) outbound_env \<Rightarrow> string \<Rightarrow> string \<Rightarrow> string \<Rightarrow> bytes option \<Rightarrow> string \<Rightarrow> http_request \<Rightarrow> bool" where
  "presents env meth fullURL token body nonce rq \<longleftrightarrow>
     hq_method rq = meth \<and> hq_url rq = fullURL \<and> hq_body rq = body \<and>
     header_get (hq_header rq) ''Authorization'' = ''DPoP '' @ token \<and>
     (\<exists>w1 w2. client_proof env meth fullURL token nonce w1 = (Inr (header_get (hq_header rq) ''DPoP''), w2))"

definition posts_form :: "('w, 'k) outbound_env \<Rightarrow> string \<Rightarrow> (string \<times> string) list \<Rightarrow> string \<Rightarrow> http_request \<Rightarrow> bool" where
  "posts_form env tokenURL form nonce rq \<longleftrightarrow>
     hq_method rq = ''POST'' \<and> hq_url rq = tokenURL \<and> hq_body rq = Some (encode_values form) \<and>
     header_get (hq_header rq) ''Authorization'' = '''' \<and>
     (\<exists>w1 w2. client_proof env ''POST'' tokenURL '''' nonce w1 = (Inr (header_get (hq_header rq) ''DPoP''), w2))"

lemma token_request_posts:
  "client_proof env ''POST'' tokenURL '''' nonce w = (Inr pf, w1) \<Longrightarrow> posts_form env tokenURL form nonce (token_request env tokenURL form pf)"
  by (auto simp: posts_form_def token_request_def header_get_set_other canonical_names header_get_def [of "[]"])

lemma resourceNonce_set [simp]: "resourceNonce (setResourceNonce a n c) a = n"
  by (simp add: resourceNonce_def setResourceNonce_def gomap_simps)

lemma background_attempt:
  assumes "background_attempts env send nonceKey token meth fullURL rh body (Suc left) c w = ((r, rqs), x)"
  shows "r \<noteq> Inl NonceNotSatisfied \<and> length rqs \<le> 1 \<and> list_all (presents env meth fullURL token body (resourceNonce c nonceKey)) rqs \<and> fst x = c
    \<or> left = 1 \<and> (\<exists>rq rest n w1. rqs = rq # rest \<and> presents env meth fullURL token body (resourceNonce c nonceKey) rq \<and> challenged send rq n \<and>
        background_attempts env send nonceKey token meth fullURL rh body left (setResourceNonce nonceKey n c) w1 = ((r, rest), x))"
proof -
  obtain q w1 where p: "client_proof env meth fullURL token (resourceNonce c nonceKey) w = (q, w1)" by (metis prod.exhaust)
  show ?thesis
  proof (cases q)
    case (Inl e)
    with assms p show ?thesis by auto
  next
    case (Inr pf)
    let ?rq = "\<lparr>hq_method = meth, hq_url = fullURL, hq_header = background_header env rh token pf body, hq_body = body\<rparr>"
    have m: "presents env meth fullURL token body (resourceNonce c nonceKey) ?rq"
      using p Inr by (auto simp: presents_def background_header_token background_header_proof)
    obtain s w2 where s: "send w1 ?rq = (s, w2)" by (metis prod.exhaust)
    show ?thesis
    proof (cases "\<exists>resp. oe_request_ok env meth fullURL \<and> s = Inr resp \<and> hp_status resp = 401 \<and> header_get (hp_header resp) ''DPoP-Nonce'' \<noteq> '''' \<and> left = 1")
      case True
      then obtain resp n where c: "oe_request_ok env meth fullURL" "s = Inr resp" "hp_status resp = 401" "header_get (hp_header resp) ''DPoP-Nonce'' = n" "n \<noteq> ''''" "left = 1"
        by blast
      obtain r1 rest x1 where l: "background_attempts env send nonceKey token meth fullURL rh body left (setResourceNonce nonceKey n c) w2 = ((r1, rest), x1)" by (metis prod.exhaust)
      have "r = r1" "rqs = ?rq # rest" "x = x1"
        using assms p Inr s c l unfolding background_attempts.simps(2) by (auto simp: Let_def simp del: background_attempts.simps One_nat_def split: prod.splits)
      moreover have "challenged (send) ?rq n" using s c unfolding challenged_def by blast
      ultimately show ?thesis using m l c(6) by blast
    next
      case False
      with assms p Inr s m show ?thesis by (auto simp: Let_def split: if_splits sum.splits)
    qed
  qed
qed

lemma framework_attempt:
  assumes "framework_attempts env nonceKey token meth fullURL body (Suc left) c w = ((r, rqs), x)"
  shows "r \<noteq> Inl NonceNotSatisfied \<and> length rqs \<le> 1
      \<and> list_all (\<lambda>rq. cid_clear env \<longrightarrow> presents env meth fullURL token body (resourceNonce c nonceKey) rq) rqs \<and> fst x = c
    \<or> left = 1 \<and> (\<exists>rq rest n w1. rqs = rq # rest \<and> (cid_clear env \<longrightarrow> presents env meth fullURL token body (resourceNonce c nonceKey) rq)
        \<and> challenged (oe_framework_do env) rq n
        \<and> framework_attempts env nonceKey token meth fullURL body left (setResourceNonce nonceKey n c) w1 = ((r, rest), x))"
proof -
  obtain q w1 where p: "client_proof env meth fullURL token (resourceNonce c nonceKey) w = (q, w1)" by (metis prod.exhaust)
  show ?thesis
  proof (cases q)
    case (Inl e)
    with assms p show ?thesis by auto
  next
    case (Inr pf)
    let ?rq = "\<lparr>hq_method = meth, hq_url = fullURL, hq_header = framework_header env token pf body, hq_body = body\<rparr>"
    have m: "cid_clear env \<longrightarrow> presents env meth fullURL token body (resourceNonce c nonceKey) ?rq"
      using p Inr by (auto simp: presents_def framework_header_set)
    obtain s w2 where s: "oe_framework_do env w1 ?rq = (s, w2)" by (metis prod.exhaust)
    show ?thesis
    proof (cases "\<exists>resp. oe_framework_url env fullURL \<and> s = Inr resp \<and> hp_status resp = 401 \<and> header_get (hp_header resp) ''DPoP-Nonce'' \<noteq> '''' \<and> left = 1")
      case True
      then obtain resp n where c: "oe_framework_url env fullURL" "s = Inr resp" "hp_status resp = 401" "header_get (hp_header resp) ''DPoP-Nonce'' = n" "n \<noteq> ''''" "left = 1"
        by blast
      obtain r1 rest x1 where l: "framework_attempts env nonceKey token meth fullURL body left (setResourceNonce nonceKey n c) w2 = ((r1, rest), x1)" by (metis prod.exhaust)
      have "r = r1" "rqs = ?rq # rest" "x = x1"
        using assms p Inr s c l unfolding framework_attempts.simps(2) by (auto simp: Let_def simp del: framework_attempts.simps One_nat_def split: prod.splits)
      moreover have "challenged (oe_framework_do env) ?rq n" using s c unfolding challenged_def by blast
      ultimately show ?thesis using m l c(6) by blast
    next
      case False
      with assms p Inr s m show ?thesis by (auto simp: Let_def split: if_splits sum.splits)
    qed
  qed
qed

lemma post_attempt:
  assumes "post_attempts env tokenURL form (Suc left) nonce w = ((r, rqs), x)"
  shows "r \<noteq> Inl NonceNotSatisfied \<and> length rqs \<le> 1 \<and> list_all (posts_form env tokenURL form nonce) rqs
    \<or> left = 1 \<and> (\<exists>rq rest n w1. rqs = rq # rest \<and> posts_form env tokenURL form nonce rq \<and> challenged (oe_do env) rq n \<and>
        post_attempts env tokenURL form left n w1 = ((r, rest), x))"
proof -
  obtain q w1 where p: "client_proof env ''POST'' tokenURL '''' nonce w = (q, w1)" by (metis prod.exhaust)
  show ?thesis
  proof (cases q)
    case (Inl e)
    with assms p show ?thesis by auto
  next
    case (Inr pf)
    let ?rq = "token_request env tokenURL form pf"
    have m: "posts_form env tokenURL form nonce ?rq" by (rule token_request_posts) (use p Inr in simp)
    obtain s w2 where s: "oe_do env w1 ?rq = (s, w2)" by (metis prod.exhaust)
    show ?thesis
    proof (cases "\<exists>resp. oe_request_ok env ''POST'' tokenURL \<and> s = Inr resp \<and> hp_status resp = 401 \<and> header_get (hp_header resp) ''DPoP-Nonce'' \<noteq> '''' \<and> left = 1")
      case True
      then obtain resp n where c: "oe_request_ok env ''POST'' tokenURL" "s = Inr resp" "hp_status resp = 401" "header_get (hp_header resp) ''DPoP-Nonce'' = n" "n \<noteq> ''''" "left = 1"
        by blast
      obtain r1 rest x1 where l: "post_attempts env tokenURL form left n w2 = ((r1, rest), x1)" by (metis prod.exhaust)
      have "r = r1" "rqs = ?rq # rest" "x = x1"
        using assms p Inr s c l unfolding post_attempts.simps(2) by (auto simp: Let_def simp del: post_attempts.simps One_nat_def split: prod.splits)
      moreover have "challenged (oe_do env) ?rq n" using s c unfolding challenged_def by blast
      ultimately show ?thesis using m l c(6) by blast
    next
      case False
      with assms p Inr s m show ?thesis by (auto simp: Let_def split: if_splits sum.splits option.splits)
    qed
  qed
qed

interpretation background: nonce_retry "background_attempts env send nonceKey token meth fullURL rh body" "\<lambda>c. resourceNonce c nonceKey"
  "setResourceNonce nonceKey" "\<lambda>c x. fst x = c" send "presents env meth fullURL token body" "Inl NonceNotSatisfied"
  for env send nonceKey token meth fullURL rh body
  by unfold_locales (simp, rule background_attempt)

interpretation framework: nonce_retry "framework_attempts env nonceKey token meth fullURL body" "\<lambda>c. resourceNonce c nonceKey"
  "setResourceNonce nonceKey" "\<lambda>c x. fst x = c" "oe_framework_do env" "\<lambda>n rq. cid_clear env \<longrightarrow> presents env meth fullURL token body n rq"
  "Inl NonceNotSatisfied" for env nonceKey token meth fullURL body
  by unfold_locales (simp, rule framework_attempt)

interpretation endpoint: nonce_retry "post_attempts env tokenURL form" "\<lambda>n. n" "\<lambda>n _. n" "\<lambda>_ _. True" "oe_do env"
  "posts_form env tokenURL form" "Inl NonceNotSatisfied" for env tokenURL form
  by unfold_locales (simp, use post_attempt in \<open>simp add: post_attempt\<close>)

lemma background_chain:
  "doBackgroundWith env send nonceKey token meth fullURL rh body c w = ((r, rqs), c', w') \<Longrightarrow>
     r \<noteq> Inl NonceNotSatisfied \<and> length rqs \<le> 2 \<and> nonce_chain send (presents env (ascii_upper meth) fullURL token body) (resourceNonce c nonceKey) rqs
     \<and> (c' = c \<or> (\<exists>n. challenged send (hd rqs) n \<and> c' = setResourceNonce nonceKey n c))"
  unfolding doBackgroundWith_def by (drule background.retries_once) simp

text \<open>
  C11: Each of the three senders, to a resource with the caller's own header, to a resource
  through the web framework and to the token endpoint, sends at most two requests and comes to
  an answer. Every request carries a proof made by the client's key for it and its token, and
  presents that token, or the form alone at the token endpoint; the first uses the nonce
  remembered for the callee, or none at the token endpoint, and there is a second only after a
  401 with a nonce, which is used and, for a resource, remembered. Nothing else of the client
  changes.
\<close>

theorem calls_retry_once:
  assumes "doBackgroundWith env send nonceKey token meth fullURL rh body c w = ((r, rqs), c', w')"
    and "cid_clear env" "doWithDPoP env nonceKey token meth fullURL body c w = ((fr, fqs), c'', w'')"
    and "postTokenForm env tokenURL form w = ((tr, tqs), w3)"
  shows "(r \<noteq> Inl NonceNotSatisfied \<and> length rqs \<le> 2
      \<and> nonce_chain send (presents env (ascii_upper meth) fullURL token body) (resourceNonce c nonceKey) rqs
      \<and> (c' = c \<or> (\<exists>n. challenged send (hd rqs) n \<and> c' = setResourceNonce nonceKey n c)))
    \<and> (fr \<noteq> Inl NonceNotSatisfied \<and> length fqs \<le> 2
      \<and> nonce_chain (oe_framework_do env) (presents env (ascii_upper meth) fullURL token body) (resourceNonce c nonceKey) fqs
      \<and> (c'' = c \<or> (\<exists>n. challenged (oe_framework_do env) (hd fqs) n \<and> c'' = setResourceNonce nonceKey n c)))
    \<and> tr \<noteq> Inl NonceNotSatisfied \<and> length tqs \<le> 2 \<and> nonce_chain (oe_do env) (posts_form env tokenURL form) '''' tqs"
  using background_chain [OF assms(1)] framework.retries_once [OF assms(3) [unfolded doWithDPoP_def]]
    endpoint.retries_once [OF assms(4) [unfolded postTokenForm_def]] assms(2) by simp

section \<open>An authority and a resource to run against\<close>

text \<open>
  The world is the clock, in seconds. The authority issues tokens named after the form's tenant,
  for five minutes; subject tokens expire at second 600; everything read is unchanged; one resource
  wants the nonce \<open>n1\<close>.
\<close>

definition demo_token_of :: "url_values \<Rightarrow> string" where
  "demo_token_of q = (case map_of q ''tenant'' of Some t \<Rightarrow> t | None \<Rightarrow> ''plain'')"

definition token_json :: "token_response \<Rightarrow> json" where
  "token_json t = Obj [(''access_token'', Str (tr_AccessToken t)), (''token_type'', Str (tr_TokenType t)), (''expires_in'', Num (format_int (tr_ExpiresIn t)))]"

lemma tokenResponse_reads:
  assumes "utf8_valid (tr_AccessToken t)" "utf8_valid (tr_TokenType t)" "- (2 ^ 63) \<le> tr_ExpiresIn t" "tr_ExpiresIn t < 2 ^ 63"
  shows "tokenResponse (marshal (token_json t)) = Some t"
proof -
  have "utf8_valid ''access_token''" "utf8_valid ''token_type''" "utf8_valid ''expires_in''"
    by (simp_all add: utf8_valid_def rune_error_def is_ascii_def ord_def)
  then have "json_ok (token_json t)" using assms(1,2) by (simp add: json_ok_def token_json_def number_ok_format_int maxNestingDepth_def)
  then have "tokenResponse (marshal (token_json t)) = decode_struct token_fields \<lparr>tr_AccessToken = '''', tr_TokenType = '''', tr_ExpiresIn = 0\<rparr> (token_json t)"
    by (simp add: tokenResponse_def unmarshal_marshal)
  then show ?thesis
    using parse_format_int64 [OF assms(3,4)] by (simp add: token_json_def token_fields_def field_named_def field_def)
qed

definition demo_answer :: "string \<Rightarrow> bytes" where
  "demo_answer t = marshal (token_json \<lparr>tr_AccessToken = t, tr_TokenType = ''DPoP'', tr_ExpiresIn = 300\<rparr>)"

definition demo_fits :: "string \<Rightarrow> bool" where
  "demo_fits t \<longleftrightarrow> utf8_valid t \<and> length (demo_answer t) \<le> 2 ^ 20"

lemma demo_fits_tenants: "demo_fits ''t1''" "demo_fits ''t2''" "demo_fits ''plain''"
proof -
  have "length (demo_answer ''t1'') \<le> 99" "length (demo_answer ''t2'') \<le> 99" "length (demo_answer ''plain'') \<le> 99" by code_simp+
  then show "demo_fits ''t1''" "demo_fits ''t2''" "demo_fits ''plain''"
    by (simp_all add: demo_fits_def utf8_valid_def rune_error_def is_ascii_def ord_def)
qed

lemma demo_answer_reads: "demo_fits t \<Longrightarrow> tokenResponse (take (2 ^ 20) (demo_answer t)) = Some \<lparr>tr_AccessToken = t, tr_TokenType = ''DPoP'', tr_ExpiresIn = 300\<rparr>"
proof -
  assume f: "demo_fits t"
  have "utf8_valid ''DPoP''" by (simp add: utf8_valid_def rune_error_def is_ascii_def ord_def)
  with f show ?thesis unfolding demo_fits_def by (simp add: demo_answer_def tokenResponse_reads)
qed

definition demo_env :: "(nat, nat) outbound_env" where
  "demo_env = \<lparr>oe_jwk = demo_jwks, oe_url = demo_url, oe_sha256 = id, oe_sign = (\<lambda>k h c. Some (''p'' @ pc_Nonce c)), oe_key = 7,
     oe_rand = (\<lambda>w. (Some ''id'', w)), oe_now = (\<lambda>w. (int w * second, w)), oe_request_ok = (\<lambda>m u. True),
     oe_do = (\<lambda>w rq. (Inr (if hq_method rq = ''GET'' then \<lparr>hp_status = 304, hp_header = [], hp_body = []\<rparr>
       else \<lparr>hp_status = 200, hp_header = [], hp_body = demo_answer (demo_token_of (the (parse_values (the (hq_body rq)))))\<rparr>), Suc w)),
     oe_expiry = (\<lambda>st. Some (100 * second)), oe_cid = '''', oe_cid_header = '''',
     oe_do_within = (\<lambda>d w rq. (Inl ''deadline'', w)), oe_framework_url = (\<lambda>u. True), oe_framework_do = (\<lambda>w rq. (Inl ''down'', w))\<rparr>"

definition demo_client :: outbound where
  "demo_client = \<lparr>ob_cfg = default_cfg, ob_tokenURL = ''https://auth/token'', ob_tokens = [], ob_nonces = []\<rparr>"

definition demo_resource :: "nat transport" where
  "demo_resource w rq = (Inr (if header_get (hq_header rq) ''DPoP'' = ''pn1'' then \<lparr>hp_status = 200, hp_header = [], hp_body = ''ok''\<rparr>
     else \<lparr>hp_status = 401, hp_header = [(''Dpop-Nonce'', ''n1'')], hp_body = []\<rparr>), Suc w)"

lemma demo_client_proof: "client_proof demo_env m u tok n w = (Inr (''p'' @ n), w)"
  by (simp add: client_proof_def demo_env_def generateProof_def normalizeHTU_def demo_url_def randomID_def publicJWKHeader_def
      demo_jwks_def Let_def)

lemma demo_post:
  assumes "demo_fits (demo_token_of form)" and "form \<noteq> []" and "distinct (map fst form)"
  shows "\<exists>rqs. postTokenForm demo_env u form w = ((Inr (demo_token_of form, 300 * second), rqs), Suc w)"
proof -
  have "wrap64 (300 * second) = 300 * second" by (simp add: wrap64_def second_def)
  moreover have "demo_token_of (sort_key fst form) = demo_token_of form"
    using assms(3) by (simp add: demo_token_of_def map_of_sort_key)
  ultimately show ?thesis
    using demo_answer_reads [OF assms(1)] unfolding postTokenForm_def numeral_2_eq_2 post_attempts.simps demo_client_proof
    by (simp add: demo_env_def token_request_def parse_encode_values [OF assms(2)])
qed

lemma call_form_keys: "call_form c cl \<noteq> []" "distinct (map fst (call_form c cl))"
  by (cases cl; simp add: service_form_def exchange_form_def)+

lemma demo_acquire:
  assumes "demo_fits (demo_token_of (call_form c cl))" and "cached_token_for c (int w * second) (call_key demo_env cl) = None"
    and "call_until demo_env cl = Some na"
  shows "acquire demo_env cl c w = (Inr (demo_token_of (call_form c cl)),
     store_token c (int (Suc w) * second) (call_key demo_env cl)
       \<lparr>ct_token = demo_token_of (call_form c cl), ct_exp = int (Suc w) * second + 300 * second, ct_notAfter = na\<rparr>, Suc w)"
proof -
  obtain rqs where "postTokenForm demo_env (ob_tokenURL c) (call_form c cl) w = ((Inr (demo_token_of (call_form c cl), 300 * second), rqs), Suc w)"
    using demo_post [OF assms(1) call_form_keys] by blast
  with assms(2,3) show ?thesis by (simp add: acquire_eq demo_env_def)
qed

lemma demo_no_nonce: "resourceNonce demo_client a = ''''"
  by (simp add: resourceNonce_def demo_client_def)

lemma demo_challenge: "header_get [(''Dpop-Nonce'', n)] ''DPoP-Nonce'' = n"
  by (simp add: header_get_def canonical_names)

lemma demo_request_ok: "oe_request_ok demo_env m u"
  by (simp add: demo_env_def)

theorem calls_retry_once_witness:
  "\<exists>rqs w'. doBackgroundWith demo_env demo_resource ''a'' ''tok'' ''get'' ''https://api/x'' [] None demo_client 0
       = ((Inr \<lparr>hp_status = 200, hp_header = [], hp_body = ''ok''\<rparr>, rqs), setResourceNonce ''a'' ''n1'' demo_client, w') \<and> length rqs \<le> 2"
proof -
  obtain r rqs c' w' where e: "doBackgroundWith demo_env demo_resource ''a'' ''tok'' ''get'' ''https://api/x'' [] None demo_client 0
      = ((r, rqs), c', w')" by (metis prod.exhaust)
  then have "r = Inr \<lparr>hp_status = 200, hp_header = [], hp_body = ''ok''\<rparr>" "c' = setResourceNonce ''a'' ''n1'' demo_client"
    unfolding doBackgroundWith_def numeral_2_eq_2 background_attempts.simps demo_client_proof
    by (auto simp: demo_no_nonce demo_challenge demo_request_ok demo_resource_def background_header_proof Let_def self_le_power)
  moreover obtain fr fqs c'' w'' where f: "doWithDPoP demo_env ''a'' ''tok'' ''get'' ''https://api/x'' None demo_client 0 = ((fr, fqs), c'', w'')"
    by (metis prod.exhaust)
  moreover obtain tr tqs w3 where t: "postTokenForm demo_env ''https://auth/token'' [] 0 = ((tr, tqs), w3)" by (metis prod.exhaust)
  moreover have "cid_clear demo_env" by (simp add: cid_clear_def demo_env_def canonical_name_def)
  from calls_retry_once [OF e this f t] have "length rqs \<le> 2" by blast
  ultimately show ?thesis using e by blast
qed

end
