(* ===== verification/Service_Call.thy ===== *)
theory Service_Call
  imports Outbound
begin

text \<open>
  One service calling another: the outbound calls of one auth client (\<open>background.go\<close>) answered
  by the gate of another (\<open>middleware.go\<close> around the next handler). How the framework hands a
  request to the middleware and writes its answer is an argument, with what is relied on of it
  in \<open>server_contract\<close>. The world of the caller is the callee's gate and whatever answers the
  clocks and the randomness.
\<close>

section \<open>A service behind its gate\<close>

record server =
  sv_seen :: "http_request \<Rightarrow> request"
  sv_render :: "gate_response \<Rightarrow> http_response"
  sv_next :: "http_request \<Rightarrow> (string, string list) gomap option \<Rightarrow> http_response"

record 'x surroundings =
  sr_rand :: "'x \<Rightarrow> bytes option \<times> 'x"
  sr_now :: "'x \<Rightarrow> gotime \<times> 'x"
  sr_times :: "'x \<Rightarrow> gate_times \<times> 'x"

definition serve :: "('k, memory) gate_lib \<Rightarrow> server \<Rightarrow> 'x surroundings \<Rightarrow> (('k, memory) gate \<times> 'x) transport" where
  "serve lib sv sr w rq =
     (case w of (g, x) \<Rightarrow> case sr_times sr x of (ts, x1) \<Rightarrow>
      case authenticate lib (sv_next sv rq) g ts (sv_seen sv rq) of
        (Inl resp, g1) \<Rightarrow> (Inr (sv_render sv resp), (g1, x1))
      | (Inr answer, g1) \<Rightarrow> (Inr answer, (g1, x1)))"

definition calling :: "('k, memory) gate_lib \<Rightarrow> server \<Rightarrow> 'x surroundings \<Rightarrow> (('k, memory) gate \<times> 'x, 'k) outbound_env
    \<Rightarrow> (('k, memory) gate \<times> 'x, 'k) outbound_env" where
  "calling lib sv sr env = env\<lparr>oe_rand := (\<lambda>(g, x). case sr_rand sr x of (r, x1) \<Rightarrow> (r, (g, x1))),
     oe_now := (\<lambda>(g, x). case sr_now sr x of (t, x1) \<Rightarrow> (t, (g, x1))), oe_do := serve lib sv sr\<rparr>"

text \<open>
  The framework shows the middleware the request's method, its two headers and an address that
  is the called one but for query and fragment, answers a refusal with 401, and writes the
  nonce header.
\<close>

definition server_contract :: "(string \<Rightarrow> url option) \<Rightarrow> string \<Rightarrow> server \<Rightarrow> bool" where
  "server_contract url_parse fullURL sv \<longleftrightarrow>
     (\<forall>rq. rq_method (sv_seen sv rq) = hq_method rq
        \<and> rq_header (sv_seen sv rq) ''Authorization'' = header_get (hq_header rq) ''Authorization''
        \<and> rq_header (sv_seen sv rq) ''DPoP'' = header_get (hq_header rq) ''DPoP''
        \<and> (hq_url rq = fullURL \<longrightarrow> normalizeHTU url_parse (requestURL (sv_seen sv rq)) = normalizeHTU url_parse fullURL))
   \<and> (\<forall>resp p. gr_error resp = PublicError p \<longrightarrow> hp_status (sv_render sv resp) = 401)
   \<and> (\<forall>resp n. map_of (gr_headers resp) ''DPoP-Nonce'' = Some n \<longrightarrow> header_get (hp_header (sv_render sv resp)) ''DPoP-Nonce'' = n)"

definition nonce_ok :: "('k, 's) gate_lib \<Rightarrow> ('k, 's) gate \<Rightarrow> gate_times \<Rightarrow> string \<Rightarrow> bool" where
  "nonce_ok lib g ts n \<longleftrightarrow> (DPoPNonceEnabled (g_cfg g) \<longrightarrow> (\<exists>i. g_nonce g = Some i \<and>
     nonce_verify (gl_hmac lib) i (t_nonce ts) n (TokenClockSkewLeeway (g_cfg g)) = Inr ()))"

text \<open>A visible token: no space and nothing outside ASCII.\<close>

definition visible :: "string \<Rightarrow> bool" where
  "visible s \<longleftrightarrow> s \<noteq> [] \<and> list_all (\<lambda>c. is_ascii c \<and> \<not> is_space c) s"

lemma visible_trim: "visible s \<Longrightarrow> trim_space s = s"
  by (rule trim_space_id) (auto simp: visible_def list_all_iff)

lemma bearer_visible:
  assumes "visible tok"
  shows "bearerToken (''DPoP '' @ tok) = tok"
proof -
  have t: "trim_space (''DPoP '' @ tok) = ''DPoP '' @ tok"
    by (rule trim_space_id) (use assms in \<open>auto simp: visible_def list_all_iff is_ascii_def is_space_def ord_def\<close>)
  have "cut_at (CHR '' '') (''DPoP'' @ CHR '' '' # tok) = (''DPoP'', tok, True)" by (rule cut_at_found) simp
  moreover have "ascii_lower ''DPoP'' = ''dpop''" by (simp add: eval_simps)
  ultimately show ?thesis using t visible_trim [OF assms] by (simp add: bearerToken_def Let_def)
qed

section \<open>What the gate answers a caller\<close>

text \<open>Both sides run the same libraries, which keep their contracts.\<close>

definition libraries_agree :: "('k, memory) gate_lib \<Rightarrow> ('w, 'k) outbound_env \<Rightarrow> (string \<Rightarrow> proof_header option)
    \<Rightarrow> ('k \<Rightarrow> string \<Rightarrow> proof_claims option) \<Rightarrow> bool" where
  "libraries_agree lib env header_of checked \<longleftrightarrow>
     gl_jwk lib = oe_jwk env \<and> gl_url lib = oe_url env \<and> gl_sha256 lib = oe_sha256 env \<and> gl_check_and_set lib = checkAndSet
     \<and> jwt_contract (gl_proof_parse lib) header_of checked \<and> signer_contract (oe_sign env) header_of checked
     \<and> jwk_contract (oe_jwk env) (oe_key env)"

text \<open>The callee knows the token, which is bound to the caller's key, and can issue nonces where it asks for them.\<close>

definition token_known :: "('k, memory) gate_lib \<Rightarrow> ('w, 'k) outbound_env \<Rightarrow> ('k, memory) gate \<Rightarrow> string \<Rightarrow> claims \<Rightarrow> bool" where
  "token_known lib env g tok cl \<longleftrightarrow> visible tok \<and> thumbprint cl \<noteq> '''' \<and> thumbprintOf (oe_jwk env) (oe_key env) = Inr (thumbprint cl)
     \<and> cfg_ok (g_cfg g) \<and> (DPoPNonceEnabled (g_cfg g) \<longrightarrow> g_nonce g \<noteq> None)"

text \<open>
  One attempt at its time: the caller can sign a proof, with an identifier the callee's store
  does not hold, and its clock is near the callee's, whose key cache verifies the token.
\<close>

definition timely :: "('k, memory) gate_lib \<Rightarrow> ('w, 'k) outbound_env \<Rightarrow> ('k, memory) gate \<Rightarrow> string \<Rightarrow> claims \<Rightarrow> string \<Rightarrow> string
    \<Rightarrow> bytes option \<Rightarrow> gotime \<Rightarrow> gate_times \<Rightarrow> bool" where
  "timely lib env g tok cl meth fullURL r now ts \<longleftrightarrow>
     (\<exists>b. r = Some b \<and> \<not> refuses (g_replay g) (base64_encode base64_url b) (t_replay ts))
     \<and> (\<forall>n. \<exists>pf. generateProof (oe_jwk env) (oe_url env) (oe_sha256 env) (oe_sign env) (oe_key env) r now meth fullURL tok n = Inr pf)
     \<and> numeric_date now - TokenClockSkewLeeway (g_cfg g) \<le> t_proof ts
     \<and> t_proof ts \<le> numeric_date now + DPoPProofMaxAge (g_cfg g) + TokenClockSkewLeeway (g_cfg g)
     \<and> parseToken lib g ts tok = (Inr cl, g)"

definition challenge_response :: "string \<Rightarrow> gate_response" where
  "challenge_response n = \<lparr>gr_error = PublicError Unauthorized, gr_headers = [(''DPoP-Nonce'', n), www_dpop ''use_dpop_nonce''], gr_logged = None\<rparr>"

definition recorded :: "('k, memory) gate \<Rightarrow> gate_times \<Rightarrow> bytes option \<Rightarrow> ('k, memory) gate" where
  "recorded g ts r = g\<lparr>g_replay := snd (checkAndSet (g_replay g) (t_replay ts)
     (base64_encode base64_url (case r of None \<Rightarrow> '''' | Some b \<Rightarrow> b)) (replay_ttl (g_cfg g)))\<rparr>"

lemma gate_answers_caller:
  assumes "libraries_agree lib env header_of checked" "token_known lib env g tok cl" "timely lib env g tok cl meth fullURL r now ts"
    and "server_contract (oe_url env) fullURL sv" "list_all is_ascii meth" "hq_method rq = meth" "hq_url rq = fullURL"
    and "header_get (hq_header rq) ''Authorization'' = ''DPoP '' @ tok" "header_get (hq_header rq) ''DPoP'' = pf"
    and "generateProof (oe_jwk env) (oe_url env) (oe_sha256 env) (oe_sign env) (oe_key env) r now meth fullURL tok n = Inr pf"
  shows "handle lib g ts (sv_seen sv rq) =
    (if nonce_ok lib g ts n then (Inr (toUserClaims cl), recorded g ts r)
     else (Inl (challenge_response (issue (gl_hmac lib) (the (g_nonce g)) (t_issue ts))), g))"
proof -
  let ?rq = "sv_seen sv rq" and ?cfg = "g_cfg g"
  let ?opt = "proof_options ?cfg ?rq tok"
  obtain b where b: "r = Some b" "\<not> refuses (g_replay g) (base64_encode base64_url b) (t_replay ts)"
      and t: "numeric_date now - TokenClockSkewLeeway ?cfg \<le> t_proof ts"
        "t_proof ts \<le> numeric_date now + DPoPProofMaxAge ?cfg + TokenClockSkewLeeway ?cfg" "parseToken lib g ts tok = (Inr cl, g)"
    using assms(3) unfolding timely_def by blast
  have sv: "rq_method ?rq = meth" "rq_header ?rq ''Authorization'' = ''DPoP '' @ tok" "rq_header ?rq ''DPoP'' = pf"
      "normalizeHTU (oe_url env) (requestURL ?rq) = normalizeHTU (oe_url env) fullURL"
    using assms(4,6-9) unfolding server_contract_def by simp_all
  have tk: "visible tok" "thumbprint cl \<noteq> ''''" "thumbprintOf (oe_jwk env) (oe_key env) = Inr (thumbprint cl)"
      "cfg_ok ?cfg" "DPoPNonceEnabled ?cfg \<longrightarrow> g_nonce g \<noteq> None" using assms(2) unfolding token_known_def by simp_all
  have l: "gl_jwk lib = oe_jwk env" "gl_url lib = oe_url env" "gl_sha256 lib = oe_sha256 env" "gl_check_and_set lib = checkAndSet"
      "jwt_contract (gl_proof_parse lib) header_of checked" "signer_contract (oe_sign env) header_of checked" "jwk_contract (oe_jwk env) (oe_key env)"
    using assms(1) unfolding libraries_agree_def by simp_all
  have w: "window_ok ?opt" using tk(4) by (simp add: cfg_ok_def window_ok_def proof_options_def)
  have o: "vo_Method ?opt = meth" "normalizeHTU (oe_url env) (vo_URL ?opt) = normalizeHTU (oe_url env) fullURL" "vo_AccessToken ?opt = tok"
    using sv by (simp_all add: proof_options_def)
  have v: "dpop_verify (oe_jwk env) (oe_url env) (oe_sha256 env) (gl_proof_parse lib) (t_proof ts) pf ?opt =
      (if DPoPNonceEnabled ?cfg \<and> n = '''' then Inl ErrMissingNonce
       else Inr \<lparr>pr_Thumbprint = thumbprint cl, pr_JTI = base64_encode base64_url b, pr_Nonce = n\<rparr>)"
    using generated_proof_outcome [OF l(5-7) assms(10) [unfolded b(1)] assms(5) w o tk(3), of "t_proof ts"] t
    by (simp add: proof_options_def)
  have e: "n = '''' \<Longrightarrow> nonce_verify hm i tm n lw \<noteq> Inr ()" for hm i tm lw by (simp add: nonce_verify_def)
  have "validate lib g ts ?rq tok = validate_bound lib g ts ?rq tok cl" using t(3) tk(2) by (simp add: validate_def)
  also have "\<dots> = (if nonce_ok lib g ts n then (Inr (Authenticated (toUserClaims cl)), recorded g ts r)
      else (Inr (Challenge (issue (gl_hmac lib) (the (g_nonce g)) (t_issue ts))), g))"
    unfolding validate_bound_def Let_def l(1-4) sv(3) v
    using tk(5) b e by (auto simp: nonce_ok_def challenge_def recorded_def replay_ttl_def checkAndSet_unfold split: option.splits)
  finally show ?thesis unfolding handle_def sv(2) bearer_visible [OF tk(1)] by (simp add: challenge_response_def)
qed

section \<open>A call comes through\<close>

text \<open>One attempt's view of the surroundings: the caller's randomness and clock, then the callee's clocks.\<close>

definition call_round :: "'x surroundings \<Rightarrow> 'x \<Rightarrow> (bytes option \<times> gotime \<times> gate_times) \<times> 'x" where
  "call_round sr x = (case sr_rand sr x of (r, x1) \<Rightarrow> case sr_now sr x1 of (now, x2) \<Rightarrow> case sr_times sr x2 of (ts, x3) \<Rightarrow> ((r, now, ts), x3))"

lemma calling_simps [simp]:
  "oe_jwk (calling lib sv sr env) = oe_jwk env" "oe_url (calling lib sv sr env) = oe_url env"
  "oe_sha256 (calling lib sv sr env) = oe_sha256 env" "oe_sign (calling lib sv sr env) = oe_sign env"
  "oe_key (calling lib sv sr env) = oe_key env" "oe_request_ok (calling lib sv sr env) = oe_request_ok env"
  "oe_do (calling lib sv sr env) = serve lib sv sr"
  by (simp_all add: calling_def)

definition shortened :: "http_response \<Rightarrow> http_response" where
  "shortened a = a\<lparr>hp_body := take (2 ^ 24) (hp_body a)\<rparr>"

text \<open>What one attempt meets: the request it sends and the service's answer to it.\<close>

lemma one_attempt:
  assumes "libraries_agree lib env header_of checked" "token_known lib env g tok cl" "timely lib env g tok cl meth fullURL r now ts"
    and "server_contract (oe_url env) fullURL sv" "list_all is_ascii meth" "call_round sr x = ((r, now, ts), x1)"
  obtains pf w rq where "client_proof (calling lib sv sr env) meth fullURL tok n (g, x) = (Inr pf, w)"
    "rq = \<lparr>hq_method = meth, hq_url = fullURL, hq_header = background_header (calling lib sv sr env) rh tok pf body, hq_body = body\<rparr>"
    "serve lib sv sr w rq =
      (if nonce_ok lib g ts n then (Inr (sv_next sv rq (Some (toUserClaims cl))), (recorded g ts r, x1))
       else (Inr (sv_render sv (challenge_response (issue (gl_hmac lib) (the (g_nonce g)) (t_issue ts)))), (g, x1)))"
proof -
  obtain xa xb where x: "sr_rand sr x = (r, xa)" "sr_now sr xa = (now, xb)" "sr_times sr xb = (ts, x1)"
    using assms(6) by (auto simp: call_round_def split: prod.splits)
  obtain pf where pf: "generateProof (oe_jwk env) (oe_url env) (oe_sha256 env) (oe_sign env) (oe_key env) r now meth fullURL tok n = Inr pf"
    using assms(3) unfolding timely_def by blast
  let ?rq = "\<lparr>hq_method = meth, hq_url = fullURL, hq_header = background_header (calling lib sv sr env) rh tok pf body, hq_body = body\<rparr>"
  have c: "client_proof (calling lib sv sr env) meth fullURL tok n (g, x) = (Inr pf, (g, xb))"
    by (simp add: client_proof_def pf) (simp add: calling_def x pf)
  have "handle lib g ts (sv_seen sv ?rq) =
    (if nonce_ok lib g ts n then (Inr (toUserClaims cl), recorded g ts r)
     else (Inl (challenge_response (issue (gl_hmac lib) (the (g_nonce g)) (t_issue ts))), g))"
    by (rule gate_answers_caller [OF assms(1-5) _ _ _ _ pf]) (simp_all add: background_header_token background_header_proof)
  then have "serve lib sv sr (g, xb) ?rq =
      (if nonce_ok lib g ts n then (Inr (sv_next sv ?rq (Some (toUserClaims cl))), (recorded g ts r, x1))
       else (Inr (sv_render sv (challenge_response (issue (gl_hmac lib) (the (g_nonce g)) (t_issue ts)))), (g, x1)))"
    by (simp add: serve_def authenticate_def x)
  with c show ?thesis by (rule that [OF _ refl])
qed

lemma issue_not_empty: "issue hmac i t0 \<noteq> ''''"
proof -
  have "base64_decode False base64_url (issue hmac i t0) \<noteq> Some []"
    by (simp add: issue_def Let_def codec_simps) (metis length_be_bytes list.size(3) zero_neq_numeral)
  then show ?thesis by (auto simp: base64_decode_def)
qed

lemma ascii_upper_ascii: "list_all is_ascii s \<Longrightarrow> list_all is_ascii (ascii_upper s)"
  using ord_upper_char by (auto simp: ascii_upper_def list_all_iff is_ascii_def is_lower_def)

lemma issued_nonce_ok:
  assumes "\<And>k m. length (gl_hmac lib k m) = sha256_size" "in_int64 (unix_seconds t0)" "cfg_ok (g_cfg g)"
    and "DPoPNonceEnabled (g_cfg g) \<longrightarrow> g_nonce g \<noteq> None"
    and "\<And>i. g_nonce g = Some i \<Longrightarrow> 0 \<le> n_ttl i \<and> n_ttl i + TokenClockSkewLeeway (g_cfg g) < max_duration
        \<and> t_nonce ts \<le> t0 - t0 mod second + n_ttl i + TokenClockSkewLeeway (g_cfg g)"
  shows "nonce_ok lib g ts (issue (gl_hmac lib) (the (g_nonce g)) t0)"
  using assms(3-5) issued_window [of "gl_hmac lib", OF assms(1,2)] by (fastforce simp: nonce_ok_def cfg_ok_def)

text \<open>
  C12: A service that calls another with a token bound to its key comes through, whatever nonce
  it remembers for the callee: with one the callee still accepts it sends one request, with none
  or a stale one it is challenged, remembers the new nonce and sends a second, and is answered
  what the callee's handler answers the token's user. The callee has recorded the identifier of
  the proof it let through and of no other.
\<close>

theorem call_comes_through:
  assumes "libraries_agree lib env header_of checked" "token_known lib env g tok cl" "server_contract (oe_url env) fullURL sv"
    and "list_all is_ascii meth" "oe_request_ok env (ascii_upper meth) fullURL"
    and "call_round sr x = ((r1, now1, ts1), x1)" "timely lib env g tok cl (ascii_upper meth) fullURL r1 now1 ts1"
    and "call_round sr x1 = ((r2, now2, ts2), x2)" "timely lib env g tok cl (ascii_upper meth) fullURL r2 now2 ts2"
    and "\<And>k m. length (gl_hmac lib k m) = sha256_size" "in_int64 (unix_seconds (t_issue ts1))"
    and "\<And>i. g_nonce g = Some i \<Longrightarrow> 0 \<le> n_ttl i \<and> n_ttl i + TokenClockSkewLeeway (g_cfg g) < max_duration
        \<and> t_nonce ts2 \<le> t_issue ts1 - t_issue ts1 mod second + n_ttl i + TokenClockSkewLeeway (g_cfg g)"
    and "\<And>rq u. hp_status (sv_next sv rq u) = 401 \<Longrightarrow> header_get (hp_header (sv_next sv rq u)) ''DPoP-Nonce'' = ''''"
  shows "\<exists>rqs. length rqs = (if nonce_ok lib g ts1 (resourceNonce c nonceKey) then 1 else 2)
    \<and> doWithToken (calling lib sv sr env) nonceKey tok meth fullURL rh body c (g, x) =
      ((Inr (shortened (sv_next sv (last rqs) (Some (toUserClaims cl)))), rqs),
       if nonce_ok lib g ts1 (resourceNonce c nonceKey) then (c, recorded g ts1 r1, x1)
       else (setResourceNonce nonceKey (issue (gl_hmac lib) (the (g_nonce g)) (t_issue ts1)) c, recorded g ts2 r2, x2))"
proof -
  let ?m = "ascii_upper meth" and ?E = "calling lib sv sr env" and ?n = "issue (gl_hmac lib) (the (g_nonce g)) (t_issue ts1)"
  let ?c = "setResourceNonce nonceKey ?n c"
  note m = ascii_upper_ascii [OF assms(4)]
  have tk: "trim_space tok = tok" "tok \<noteq> ''''" "cfg_ok (g_cfg g)" "DPoPNonceEnabled (g_cfg g) \<longrightarrow> g_nonce g \<noteq> None"
    using assms(2) visible_trim unfolding token_known_def visible_def by auto
  have d: "doWithToken ?E nonceKey tok meth fullURL rh body c (g, x) =
      background_attempts ?E (serve lib sv sr) nonceKey tok ?m fullURL rh body (Suc 1) c (g, x)"
    using tk by (simp add: doWithToken_def doBackground_def doBackgroundWith_def numeral_2_eq_2)
  obtain pf1 w1 rq1 where a: "client_proof ?E ?m fullURL tok (resourceNonce c nonceKey) (g, x) = (Inr pf1, w1)"
      "rq1 = \<lparr>hq_method = ?m, hq_url = fullURL, hq_header = background_header ?E rh tok pf1 body, hq_body = body\<rparr>"
      "serve lib sv sr w1 rq1 = (if nonce_ok lib g ts1 (resourceNonce c nonceKey)
        then (Inr (sv_next sv rq1 (Some (toUserClaims cl))), (recorded g ts1 r1, x1))
        else (Inr (sv_render sv (challenge_response ?n)), (g, x1)))"
    by (rule one_attempt [OF assms(1,2,7,3) m assms(6)])
  show ?thesis
  proof (cases "nonce_ok lib g ts1 (resourceNonce c nonceKey)")
    case True
    with a assms(5,13) show ?thesis
      unfolding d background_attempts.simps(2) by (intro exI [of _ "[rq1]"]) (auto simp: Let_def shortened_def)
  next
    case False
    obtain pf2 w2 rq2 where b: "client_proof ?E ?m fullURL tok (resourceNonce ?c nonceKey) (g, x1) = (Inr pf2, w2)"
        "rq2 = \<lparr>hq_method = ?m, hq_url = fullURL, hq_header = background_header ?E rh tok pf2 body, hq_body = body\<rparr>"
        "serve lib sv sr w2 rq2 = (if nonce_ok lib g ts2 (resourceNonce ?c nonceKey)
          then (Inr (sv_next sv rq2 (Some (toUserClaims cl))), (recorded g ts2 r2, x2))
          else (Inr (sv_render sv (challenge_response (issue (gl_hmac lib) (the (g_nonce g)) (t_issue ts2)))), (g, x2)))"
      by (rule one_attempt [OF assms(1,2,9,3) m assms(8)])
    have n: "nonce_ok lib g ts2 (resourceNonce ?c nonceKey)"
      using issued_nonce_ok [OF assms(10,11) tk(3,4) assms(12)] by simp
    have l: "background_attempts ?E (serve lib sv sr) nonceKey tok ?m fullURL rh body 1 ?c (g, x1) =
        ((Inr (shortened (sv_next sv rq2 (Some (toUserClaims cl)))), [rq2]), ?c, (recorded g ts2 r2, x2))"
      using b n assms(5) unfolding One_nat_def background_attempts.simps(2) by (simp add: shortened_def Let_def)
    have "hp_status (sv_render sv (challenge_response ?n)) = 401"
        "header_get (hp_header (sv_render sv (challenge_response ?n))) ''DPoP-Nonce'' = ?n"
      using assms(3) unfolding server_contract_def by (simp_all add: challenge_response_def)
    with False a l assms(5) issue_not_empty show ?thesis
      unfolding d background_attempts.simps(2)
      by (intro exI [of _ "[rq1, rq2]"]) (simp add: Let_def del: background_attempts.simps One_nat_def)
  qed
qed

section \<open>Two services to try\<close>

definition call_claims :: "string \<Rightarrow> proof_claims" where
  "call_claims n = (demo_claims 0)\<lparr>pc_Nonce := n\<rparr>"

definition call_sign :: "nat \<Rightarrow> proof_header \<Rightarrow> proof_claims \<Rightarrow> string option" where
  "call_sign k h c = (if k = 7 \<and> h = demo_proof_header \<and> c = call_claims (pc_Nonce c) then Some (''proof'' @ pc_Nonce c) else None)"

definition call_header_of :: "string \<Rightarrow> proof_header option" where
  "call_header_of p = Some demo_proof_header"

definition call_checked :: "nat \<Rightarrow> string \<Rightarrow> proof_claims option" where
  "call_checked k p = (if k = 7 then Some (call_claims (drop 5 p)) else None)"

definition call_lib :: "(nat, memory) gate_lib" where
  "call_lib = (demo_lib 0)\<lparr>gl_proof_parse := run_parser call_header_of call_checked\<rparr>"

definition call_env :: "('w, nat) outbound_env" where
  "call_env = \<lparr>oe_jwk = demo_jwks, oe_url = demo_url, oe_sha256 = id, oe_sign = call_sign, oe_key = 7,
     oe_rand = (\<lambda>w. (None, w)), oe_now = (\<lambda>w. (0, w)), oe_request_ok = (\<lambda>_ _. True), oe_do = (\<lambda>w _. (Inl ''none'', w)),
     oe_expiry = (\<lambda>_. None), oe_cid = '''', oe_cid_header = '''',
     oe_do_within = (\<lambda>_ w _. (Inl ''none'', w)), oe_framework_url = (\<lambda>_. True), oe_framework_do = (\<lambda>w _. (Inl ''none'', w))\<rparr>"

definition call_server :: server where
  "call_server = \<lparr>
     sv_seen = (\<lambda>rq. \<lparr>rq_method = hq_method rq, rq_isTLS = False, rq_host = ''api'', rq_path = ''/x'',
       rq_header = (\<lambda>k. if k \<in> {''Authorization'', ''DPoP''} then header_get (hq_header rq) k else '''')\<rparr>),
     sv_render = (\<lambda>resp. \<lparr>hp_status = (case gr_error resp of PublicError _ \<Rightarrow> 401 | InternalError _ \<Rightarrow> 500),
       hp_header = (case map_of (gr_headers resp) ''DPoP-Nonce'' of None \<Rightarrow> [] | Some n \<Rightarrow> [(''Dpop-Nonce'', n)]), hp_body = []\<rparr>),
     sv_next = (\<lambda>rq u. \<lparr>hp_status = 200, hp_header = [], hp_body = ''ok''\<rparr>)\<rparr>"

definition call_surroundings :: "unit surroundings" where
  "call_surroundings = \<lparr>sr_rand = Pair (Some ''id''), sr_now = Pair 5, sr_times = Pair (all_at 0)\<rparr>"

lemma call_generated:
  "generateProof demo_jwks demo_url id call_sign 7 (Some ''id'') 5 ''GET'' ''http://api/x'' ''tok'' n = Inr (''proof'' @ n)"
  by (simp add: generateProof_def normalizeHTU_def demo_url_def url_String_def randomID_def publicJWKHeader_def demo_jwks_def
      call_sign_def demo_proof_header_def call_claims_def demo_claims_def numeric_date_def second_def ascii_upper_def upper_char_def is_lower_def ord_def)

lemma call_libraries: "libraries_agree call_lib (call_env :: ('w, nat) outbound_env) call_header_of call_checked"
proof -
  have "signer_contract call_sign call_header_of call_checked"
    by (auto simp: signer_contract_def call_sign_def call_header_of_def call_checked_def)
  then show ?thesis
    using demo_contracts(2) by (simp add: libraries_agree_def call_lib_def demo_lib_on_def call_env_def run_parser_contract)
qed

lemma call_server_ok: "server_contract demo_url ''http://api/x'' call_server"
  by (auto simp: server_contract_def call_server_def normalizeHTU_def requestURL_def firstForwardedValue_def Let_def demo_challenge
      split: option.splits)

lemma call_token_known: "token_known call_lib (call_env :: ('w, nat) outbound_env) nonce_gate ''tok'' demo_user"
  by (simp add: token_known_def visible_def call_env_def thumbprintOf_def demo_jwks_def thumbprint_def demo_user_def nonce_gate_def cfg_ok_def
      default_cfg_def is_ascii_def is_space_def ord_def eval_simps)

lemma call_parsed: "parseToken call_lib nonce_gate (all_at 0) ''tok'' = (Inr demo_user, nonce_gate)"
  by (simp add: parseToken_def Let_def call_lib_def demo_lib_on_def nonce_gate_def demo_gate_def all_at_def run_parser_def demo_token_header_def
      demo_token_checked_def key_for_def cached_key_def mget_def eval_simps)

lemma call_timely: "timely call_lib (call_env :: ('w, nat) outbound_env) nonce_gate ''tok'' demo_user ''GET'' ''http://api/x'' (Some ''id'') 5 (all_at 0)"
proof -
  have "\<not> refuses (g_replay nonce_gate) k 0" for k
    by (simp add: nonce_gate_def demo_gate_def refuses_def newMemory_def mget_def)
  then show ?thesis
    by (simp add: timely_def call_parsed call_env_def call_generated) (simp add: nonce_gate_def default_cfg_def all_at_def numeric_date_def second_def)
qed

theorem call_comes_through_witness:
  "\<exists>rqs. length rqs = 2 \<and> fst (doWithToken (calling call_lib call_server call_surroundings call_env) ''svc'' ''tok'' ''get'' ''http://api/x''
     [] None demo_client (nonce_gate, ())) = (Inr \<lparr>hp_status = 200, hp_header = [], hp_body = ''ok''\<rparr>, rqs)"
proof -
  have s: "server_contract (oe_url (call_env :: ((nat, memory) gate \<times> unit, nat) outbound_env)) ''http://api/x'' call_server"
    using call_server_ok by (simp add: call_env_def)
  have g: "ascii_upper ''get'' = ''GET''" "list_all is_ascii ''get''" by (simp_all add: eval_simps is_ascii_def ord_def)
  have o: "oe_request_ok (call_env :: ((nat, memory) gate \<times> unit, nat) outbound_env) (ascii_upper ''get'') ''http://api/x''" by (simp add: call_env_def)
  have r: "call_round call_surroundings () = ((Some ''id'', 5, all_at 0), ())" by (simp add: call_round_def call_surroundings_def)
  note t = call_timely [folded g(1)]
  have h: "length (gl_hmac call_lib k m) = sha256_size" for k m by (simp add: call_lib_def demo_lib_on_def length_demo_hmac)
  have u: "in_int64 (unix_seconds (t_issue (all_at 0)))" by (simp add: all_at_def unix_seconds_def eval_simps)
  have i: "g_nonce nonce_gate = Some i \<Longrightarrow> 0 \<le> n_ttl i \<and> n_ttl i + TokenClockSkewLeeway (g_cfg nonce_gate) < max_duration
      \<and> t_nonce (all_at 0) \<le> t_issue (all_at 0) - t_issue (all_at 0) mod second + n_ttl i + TokenClockSkewLeeway (g_cfg nonce_gate)" for i
    by (auto simp: nonce_gate_def demo_issuer_def default_cfg_def all_at_def minute_def second_def max_duration_def)
  have x: "hp_status (sv_next call_server rq us) = 401 \<Longrightarrow> header_get (hp_header (sv_next call_server rq us)) ''DPoP-Nonce'' = ''''" for rq us
    by (simp add: call_server_def)
  have n: "\<not> nonce_ok call_lib nonce_gate (all_at 0) (resourceNonce demo_client ''svc'')"
    by (simp add: nonce_ok_def demo_no_nonce nonce_verify_def) (simp add: nonce_gate_def)
  have a: "shortened (sv_next call_server rq us) = \<lparr>hp_status = 200, hp_header = [], hp_body = ''ok''\<rparr>" for rq us
    by (simp add: shortened_def call_server_def)
  obtain rqs where "length rqs = 2" "fst (doWithToken (calling call_lib call_server call_surroundings call_env) ''svc'' ''tok'' ''get'' ''http://api/x''
     [] None demo_client (nonce_gate, ())) = (Inr (shortened (sv_next call_server (last rqs) (Some (toUserClaims demo_user)))), rqs)"
    using call_comes_through [OF call_libraries call_token_known s g(2) o r t r t h u i x, where c = demo_client and nonceKey = "''svc''" and rh = "[]"
        and body = None] n by auto
  then show ?thesis unfolding a by blast
qed

end
