(* ===== verification/Sign_In.thy ===== *)
theory Sign_In
  imports Outbound Identity_Code
begin

text \<open>
  Package \<open>asclient\<close>, a confidential back-end's client of the Auth Service: the addresses the
  browser is sent to, the calls made with a session's key (\<open>src/asclient/client.go\<close>), the checks
  of a sign-in (\<open>oidc.go\<close>), proof keys (\<open>pkce.go\<close>), what is read from a token unchecked
  (\<open>token.go\<close>) and the connected apps (\<open>connections.go\<close>). The environment is that of the
  outbound calls, with the session's key, and the readers of times and ID tokens beside it.
\<close>

section \<open>The client\<close>

record 'k as_client =
  ac_publicURL :: string
  ac_internalURL :: string
  ac_clientID :: string
  ac_clientSecret :: string
  ac_redirectURI :: string
  ac_issuer :: string
  ac_keysURL :: string
  ac_keys :: "'k jwks"

definition jwksCacheTTL :: duration where "jwksCacheTTL = 15 * minute"
definition clockSkew :: duration where "clockSkew = 30 * second"
definition scopeOpenID :: string where "scopeOpenID = ''openid''"
definition idTokenAlg :: string where "idTokenAlg = ''ES256''"

definition withClientSecret :: "string \<Rightarrow> 'k as_client \<Rightarrow> 'k as_client" where
  "withClientSecret secret c = c\<lparr>ac_clientSecret := secret\<rparr>"

definition withIssuer :: "string \<Rightarrow> 'k as_client \<Rightarrow> 'k as_client" where
  "withIssuer iss c = c\<lparr>ac_issuer := iss\<rparr>"

definition newClient :: "string \<Rightarrow> string \<Rightarrow> string \<Rightarrow> string \<Rightarrow> ('k as_client \<Rightarrow> 'k as_client) list \<Rightarrow> 'k as_client" where
  "newClient publicURL internalURL clientID redirectURI opts =
     (let c = foldl (\<lambda>c opt. opt c)
            \<lparr>ac_publicURL = trim_suffix publicURL ''/'', ac_internalURL = trim_suffix internalURL ''/'', ac_clientID = clientID,
             ac_clientSecret = '''', ac_redirectURI = redirectURI, ac_issuer = '''', ac_keysURL = '''',
             ac_keys = newJwks jwksCacheTTL []\<rparr> opts
      in c\<lparr>ac_keysURL := ac_internalURL c @ ''/.well-known/jwks.json'', ac_keys := newJwks jwksCacheTTL []\<rparr>)"

section \<open>Where the browser is sent\<close>

definition authorizeQuery :: "'k as_client \<Rightarrow> string \<Rightarrow> string \<Rightarrow> string \<Rightarrow> url_values" where
  "authorizeQuery c chal state acrValues =
     [(''client_id'', ac_clientID c), (''response_type'', ''code''), (''code_challenge'', chal),
      (''code_challenge_method'', ''S256''), (''redirect_uri'', ac_redirectURI c), (''state'', state)]
     @ (if acrValues \<noteq> '''' then [(''acr_values'', acrValues)] else [])"

definition authorizeURL :: "'k as_client \<Rightarrow> string \<Rightarrow> string \<Rightarrow> string \<Rightarrow> string" where
  "authorizeURL c chal state acrValues =
     ac_publicURL c @ ''/authorize?'' @ encode_values (authorizeQuery c chal state acrValues)"

definition browserLogoutURL :: "'k as_client \<Rightarrow> string \<Rightarrow> string \<Rightarrow> string" where
  "browserLogoutURL c redirectURI loginMethod =
     ac_publicURL c @ ''/logout?'' @ encode_values ([(''client_id'', ac_clientID c), (''redirect_uri'', redirectURI)]
       @ (if loginMethod \<noteq> '''' then [(''login_method'', loginMethod)] else []))"

record authorization_request =
  ar_CodeChallenge :: string
  ar_State :: string
  ar_Nonce :: string
  ar_ACRValues :: string
  ar_Prompt :: string
  ar_MaxAge :: "duration option"

definition signInQuery :: "'k as_client \<Rightarrow> authorization_request \<Rightarrow> url_values" where
  "signInQuery c req = authorizeQuery c (ar_CodeChallenge req) (ar_State req) (ar_ACRValues req)
     @ [(''scope'', scopeOpenID), (''nonce'', ar_Nonce req)]
     @ (if ar_Prompt req \<noteq> '''' then [(''prompt'', ar_Prompt req)] else [])
     @ (case ar_MaxAge req of None \<Rightarrow> [] | Some d \<Rightarrow> [(''max_age'', format_int (quot d second))])"

definition authorizationURL :: "'k as_client \<Rightarrow> authorization_request \<Rightarrow> string" where
  "authorizationURL c req = ac_publicURL c @ ''/authorize?'' @ encode_values (signInQuery c req)"

section \<open>Calls to the Auth Service\<close>

record seal =
  sl_ID :: string
  sl_Label :: string
  sl_Certificate :: string

record capabilities =
  cp_SignIdentityID :: string
  cp_SigningCertificate :: string
  cp_AuthCertificate :: string
  cp_Seals :: "seal list"
  cp_SealsKnown :: bool

record tokens =
  tk_AccessToken :: string
  tk_TokenType :: string
  tk_ExpiresIn :: int
  tk_RefreshToken :: string
  tk_IDToken :: string
  tk_Capabilities :: "capabilities option"

record identity =
  id_Subject :: string
  id_Name :: string
  id_GivenName :: string
  id_FamilyName :: string
  id_SerialNumber :: string
  id_LoA :: string
  id_LoginMethod :: string
  id_Scopes :: "string list"
  id_PermittedFlows :: "string list"

record connection =
  cn_ID :: string
  cn_App :: string
  cn_ConnectedAt :: gotime
  cn_LastUsed :: "gotime option"

record own_assistant =
  oa_Key :: string
  oa_Name :: string
  oa_Connections :: "connection list"

record id_token_claims =
  ic_Issuer :: string
  ic_Subject :: string
  ic_Audience :: "string list"
  ic_ExpiresAt :: "gotime option"
  ic_IssuedAt :: "gotime option"
  ic_Nonce :: string
  ic_AuthTime :: "gotime option"
  ic_ACR :: string
  ic_AMR :: "string list"
  ic_SID :: string

text \<open>How the answers are read; the reader of a \<open>time.Time\<close> is an argument.\<close>

definition zero_seal :: seal where
  "zero_seal = \<lparr>sl_ID = '''', sl_Label = '''', sl_Certificate = ''''\<rparr>"

definition decode_seal :: "seal decoder" where
  "decode_seal = decode_struct [(''id'', field sl_ID sl_ID_update decode_string), (''label'', field sl_Label sl_Label_update decode_string),
     (''certificate'', field sl_Certificate sl_Certificate_update decode_string)]"

definition zero_capabilities :: capabilities where
  "zero_capabilities = \<lparr>cp_SignIdentityID = '''', cp_SigningCertificate = '''', cp_AuthCertificate = '''', cp_Seals = [], cp_SealsKnown = False\<rparr>"

definition decode_capabilities :: "capabilities decoder" where
  "decode_capabilities = decode_struct [(''sign_identity_id'', field cp_SignIdentityID cp_SignIdentityID_update decode_string),
     (''signing_certificate'', field cp_SigningCertificate cp_SigningCertificate_update decode_string),
     (''auth_certificate'', field cp_AuthCertificate cp_AuthCertificate_update decode_string),
     (''seals'', field cp_Seals cp_Seals_update (decode_slice zero_seal decode_seal)),
     (''seals_known'', field cp_SealsKnown cp_SealsKnown_update decode_bool)]"

definition zero_tokens :: "tokens" where
  "zero_tokens = \<lparr>tk_AccessToken = '''', tk_TokenType = '''', tk_ExpiresIn = 0, tk_RefreshToken = '''', tk_IDToken = '''', tk_Capabilities = None\<rparr>"

definition decode_tokens :: "tokens decoder" where
  "decode_tokens = decode_struct [(''access_token'', field tk_AccessToken tk_AccessToken_update decode_string),
     (''token_type'', field tk_TokenType tk_TokenType_update decode_string), (''expires_in'', field tk_ExpiresIn tk_ExpiresIn_update decode_int),
     (''refresh_token'', field tk_RefreshToken tk_RefreshToken_update decode_string), (''id_token'', field tk_IDToken tk_IDToken_update decode_string),
     (''capabilities'', field tk_Capabilities tk_Capabilities_update (decode_pointer zero_capabilities decode_capabilities))]"

definition zero_identity :: identity where
  "zero_identity = \<lparr>id_Subject = '''', id_Name = '''', id_GivenName = '''', id_FamilyName = '''', id_SerialNumber = '''', id_LoA = '''',
     id_LoginMethod = '''', id_Scopes = [], id_PermittedFlows = []\<rparr>"

definition decode_identity :: "identity decoder" where
  "decode_identity = decode_struct [(''sub'', field id_Subject id_Subject_update decode_string), (''name'', field id_Name id_Name_update decode_string),
     (''given_name'', field id_GivenName id_GivenName_update decode_string), (''family_name'', field id_FamilyName id_FamilyName_update decode_string),
     (''serial_number'', field id_SerialNumber id_SerialNumber_update decode_string), (''loa'', field id_LoA id_LoA_update decode_string),
     (''login_method'', field id_LoginMethod id_LoginMethod_update decode_string),
     (''scopes'', field id_Scopes id_Scopes_update (decode_slice '''' decode_string)),
     (''permitted_flows'', field id_PermittedFlows id_PermittedFlows_update (decode_slice '''' decode_string))]"

definition zero_connection :: connection where
  "zero_connection = \<lparr>cn_ID = '''', cn_App = '''', cn_ConnectedAt = zero_time, cn_LastUsed = None\<rparr>"

definition decode_connection :: "gotime decoder \<Rightarrow> connection decoder" where
  "decode_connection tm = decode_struct [(''id'', field cn_ID cn_ID_update decode_string), (''app'', field cn_App cn_App_update decode_string),
     (''connectedAt'', field cn_ConnectedAt cn_ConnectedAt_update tm),
     (''lastUsed'', field cn_LastUsed cn_LastUsed_update (decode_pointer zero_time tm))]"

definition zero_assistant :: own_assistant where
  "zero_assistant = \<lparr>oa_Key = '''', oa_Name = '''', oa_Connections = []\<rparr>"

definition decode_assistant :: "gotime decoder \<Rightarrow> own_assistant decoder" where
  "decode_assistant tm = decode_struct [(''key'', field oa_Key oa_Key_update decode_string), (''name'', field oa_Name oa_Name_update decode_string),
     (''connections'', field oa_Connections oa_Connections_update (decode_slice zero_connection (decode_connection tm)))]"

definition assistantsBody :: "gotime decoder \<Rightarrow> bytes \<Rightarrow> own_assistant list option" where
  "assistantsBody tm = unmarshal [] (decode_struct [(''assistants'', decode_slice zero_assistant (decode_assistant tm))])"

definition connectionsBody :: "gotime decoder \<Rightarrow> bytes \<Rightarrow> connection list option" where
  "connectionsBody tm = unmarshal [] (decode_struct [(''connections'', decode_slice zero_connection (decode_connection tm))])"

text \<open>What the ID token's parser is given beside the clock and its key function.\<close>

record id_options =
  io_methods :: "string list"
  io_issuer :: string
  io_audience :: string
  io_leeway :: duration

record ('w, 'k) as_env =
  ae_out :: "('w, 'k) outbound_env"
  ae_read_error :: "http_response \<Rightarrow> string option"
  ae_time :: "gotime decoder"
  ae_id_parse :: "id_options \<Rightarrow> gotime \<Rightarrow> ('k, jwks_error, 'k jwks, string option, id_token_claims) jwt_parser"
  ae_key_fetch :: "'w \<Rightarrow> ((gotime \<times> gotime \<times> gotime \<times> gotime) \<times> http_reply) \<times> 'w"
  ae_unmarshal :: "bytes \<Rightarrow> (string \<times> 'k) list option"
  ae_unverified :: "string \<Rightarrow> claims option"

datatype as_error =
    SignProof dpop_error | NoSuchRequest | CallFailed string | ReadFailed string | NonceRetryFailed
  | Responded nat bytes | Undecodable | NothingNamed
  | WrongIssuer | NoIssuerNamed
  | IDTokenRefused string

text \<open>The request of one attempt of \<open>dpopDo\<close>, with the correlation id last.\<close>

definition as_request :: "('w, 'k) as_env \<Rightarrow> 'k as_client \<Rightarrow> string \<Rightarrow> string \<Rightarrow> string \<Rightarrow> string \<Rightarrow> bytes option \<Rightarrow> string \<Rightarrow> http_request" where
  "as_request env c meth fullURL accessToken contentType body pf =
     (let h1 = header_set [] ''DPoP'' pf;
          h2 = (if accessToken \<noteq> '''' then header_set h1 ''Authorization'' (''DPoP '' @ accessToken)
                else if ac_clientSecret c \<noteq> ''''
                then header_set h1 ''Authorization''
                  (''Basic '' @ base64_padded (query_escape (ac_clientID c) @ '':'' @ query_escape (ac_clientSecret c)))
                else h1);
          h3 = (if contentType \<noteq> '''' then header_set h2 ''Content-Type'' contentType else h2);
          h4 = (if oe_cid (ae_out env) \<noteq> '''' then header_set h3 (oe_cid_header (ae_out env)) (oe_cid (ae_out env)) else h3)
      in \<lparr>hq_method = meth, hq_url = fullURL, hq_header = h4, hq_body = body\<rparr>)"

fun dpop_attempts :: "('w, 'k) as_env \<Rightarrow> 'k as_client \<Rightarrow> 'k \<Rightarrow> string \<Rightarrow> string \<Rightarrow> string \<Rightarrow> string \<Rightarrow> bytes option \<Rightarrow> nat \<Rightarrow> string \<Rightarrow> 'w
    \<Rightarrow> ((as_error, bytes \<times> nat) result \<times> http_request list) \<times> 'w" where
  "dpop_attempts env c sk meth fullURL accessToken contentType body 0 nonce w = ((Inl NonceRetryFailed, []), w)"
| "dpop_attempts env c sk meth fullURL accessToken contentType body (Suc left) nonce w =
     (case client_proof ((ae_out env)\<lparr>oe_key := sk\<rparr>) meth fullURL accessToken nonce w of
        (Inl e, w1) \<Rightarrow> ((Inl (SignProof e), []), w1)
      | (Inr pf, w1) \<Rightarrow>
          if \<not> oe_request_ok (ae_out env) meth fullURL then ((Inl NoSuchRequest, []), w1)
          else let rq = as_request env c meth fullURL accessToken contentType body pf in
            case oe_do (ae_out env) w1 rq of
              (Inl e, w2) \<Rightarrow> ((Inl (CallFailed e), [rq]), w2)
            | (Inr resp, w2) \<Rightarrow> (case ae_read_error env resp of
                Some e \<Rightarrow> ((Inl (ReadFailed e), [rq]), w2)
              | None \<Rightarrow>
                  if hp_status resp = 401 \<and> left = 1 \<and> header_get (hp_header resp) ''DPoP-Nonce'' \<noteq> ''''
                  then (case dpop_attempts env c sk meth fullURL accessToken contentType body left
                               (header_get (hp_header resp) ''DPoP-Nonce'') w2 of
                          ((r, rqs), w3) \<Rightarrow> ((r, rq # rqs), w3))
                  else ((Inr (hp_body resp, hp_status resp), [rq]), w2)))"

definition dpopDo :: "('w, 'k) as_env \<Rightarrow> 'k as_client \<Rightarrow> 'k \<Rightarrow> string \<Rightarrow> string \<Rightarrow> string \<Rightarrow> string \<Rightarrow> bytes option \<Rightarrow> 'w
    \<Rightarrow> ((as_error, bytes \<times> nat) result \<times> http_request list) \<times> 'w" where
  "dpopDo env c sk meth path accessToken contentType body w =
     dpop_attempts env c sk meth (ac_internalURL c @ path) accessToken contentType body 2 '''' w"

definition form_type :: string where "form_type = ''application/x-www-form-urlencoded''"

text \<open>A status other than the one asked for is an error with the body; the right one is read on.\<close>

definition expect_status :: "nat \<Rightarrow> (bytes \<Rightarrow> (as_error, 'a) result) \<Rightarrow> ((as_error, bytes \<times> nat) result \<times> http_request list) \<times> 'w
    \<Rightarrow> ((as_error, 'a) result \<times> http_request list) \<times> 'w" where
  "expect_status want f answered =
     (case answered of
        ((Inl e, rqs), w) \<Rightarrow> ((Inl e, rqs), w)
      | ((Inr (body, status), rqs), w) \<Rightarrow>
          if status \<noteq> want then ((Inl (Responded status body), rqs), w) else ((f body, rqs), w))"

definition decoded :: "(bytes \<Rightarrow> 'a option) \<Rightarrow> bytes \<Rightarrow> (as_error, 'a) result" where
  "decoded dec body = (case dec body of None \<Rightarrow> Inl Undecodable | Some x \<Rightarrow> Inr x)"

definition revoke :: "('w, 'k) as_env \<Rightarrow> 'k as_client \<Rightarrow> 'k \<Rightarrow> string \<Rightarrow> 'w \<Rightarrow> ((as_error, unit) result \<times> http_request list) \<times> 'w" where
  "revoke env c sk refreshToken w =
     expect_status 200 (\<lambda>_. Inr ()) (dpopDo env c sk ''POST'' ''/revoke'' '''' form_type
       (Some (encode_values [(''token'', refreshToken), (''token_type_hint'', ''refresh_token''), (''client_id'', ac_clientID c)])) w)"

definition as_tokenRequest :: "('w, 'k) as_env \<Rightarrow> 'k as_client \<Rightarrow> 'k \<Rightarrow> url_values \<Rightarrow> 'w \<Rightarrow> ((as_error, tokens) result \<times> http_request list) \<times> 'w" where
  "as_tokenRequest env c sk form w =
     expect_status 200 (decoded (unmarshal zero_tokens decode_tokens)) (dpopDo env c sk ''POST'' ''/token'' '''' form_type (Some (encode_values form)) w)"

definition exchangeCode :: "('w, 'k) as_env \<Rightarrow> 'k as_client \<Rightarrow> 'k \<Rightarrow> string \<Rightarrow> string \<Rightarrow> 'w \<Rightarrow> ((as_error, tokens) result \<times> http_request list) \<times> 'w" where
  "exchangeCode env c sk authcode verifier w =
     as_tokenRequest env c sk [(''grant_type'', ''authorization_code''), (''code'', authcode), (''client_id'', ac_clientID c),
       (''code_verifier'', verifier), (''redirect_uri'', ac_redirectURI c)] w"

definition refreshTokens :: "('w, 'k) as_env \<Rightarrow> 'k as_client \<Rightarrow> 'k \<Rightarrow> string \<Rightarrow> 'w \<Rightarrow> ((as_error, tokens) result \<times> http_request list) \<times> 'w" where
  "refreshTokens env c sk refreshToken w =
     as_tokenRequest env c sk [(''grant_type'', ''refresh_token''), (''refresh_token'', refreshToken), (''client_id'', ac_clientID c)] w"

definition readIdentity :: "('w, 'k) as_env \<Rightarrow> 'k as_client \<Rightarrow> 'k \<Rightarrow> string \<Rightarrow> 'w \<Rightarrow> ((as_error, identity) result \<times> http_request list) \<times> 'w" where
  "readIdentity env c sk accessToken w =
     expect_status 200 (decoded (unmarshal zero_identity decode_identity)) (dpopDo env c sk ''GET'' ''/identity'' accessToken '''' None w)"

section \<open>The checks of a sign-in\<close>

definition checkIssuer :: "'k as_client \<Rightarrow> string \<Rightarrow> (as_error, unit) result" where
  "checkIssuer c iss = (if ac_issuer c = '''' then Inl NoIssuerNamed else if iss \<noteq> ac_issuer c then Inl WrongIssuer else Inr ())"

record id_token_check =
  tc_Nonce :: string
  tc_MaxAge :: "duration option"
  tc_Started :: gotime
  tc_ACRValues :: string

record id_token =
  it_Subject :: string
  it_AuthTime :: gotime
  it_ACR :: string
  it_AMR :: "string list"
  it_SessionID :: string

definition id_parser_options :: "'k as_client \<Rightarrow> id_options" where
  "id_parser_options c = \<lparr>io_methods = [idTokenAlg], io_issuer = ac_issuer c, io_audience = ac_clientID c, io_leeway = clockSkew\<rparr>"

text \<open>
  The claims' checks after the parser; \<open>now\<close> is the clock should \<open>Started\<close> be zero. The model
  reads the clock, and asks for the reply of a key fetch, whether or not the code comes to need
  them; what is not needed is not used.
\<close>

definition check_claims :: "id_token_check \<Rightarrow> gotime \<Rightarrow> id_token_claims \<Rightarrow> (as_error, id_token) result" where
  "check_claims chk now cl =
     (if length (ic_Audience cl) \<noteq> 1 then Inl (IDTokenRefused ''it names audiences beside this client'')
      else if ic_Subject cl = '''' \<or> ic_IssuedAt cl = None then Inl (IDTokenRefused ''it names no subject or no issue time'')
      else if tc_ACRValues chk \<noteq> '''' \<and> ic_ACR cl \<notin> set (Go_Strings.fields (tc_ACRValues chk))
      then Inl (IDTokenRefused ''it was met by a method the request did not name'')
      else if ic_Nonce cl = '''' \<or> ic_Nonce cl \<noteq> tc_Nonce chk
      then Inl (IDTokenRefused ''it does not carry the nonce this sign-in sent'')
      else let tok = \<lparr>it_Subject = ic_Subject cl, it_AuthTime = (case ic_AuthTime cl of None \<Rightarrow> zero_time | Some t \<Rightarrow> t),
                      it_ACR = ic_ACR cl, it_AMR = ic_AMR cl, it_SessionID = ic_SID cl\<rparr>
        in case tc_MaxAge chk of
             None \<Rightarrow> Inr tok
           | Some maxAge \<Rightarrow>
               if it_AuthTime tok = zero_time then Inl (IDTokenRefused ''an age was asked and it names no authentication time'')
               else if it_AuthTime tok < (if tc_Started chk = zero_time then now else tc_Started chk) + wrap64 (- maxAge - clockSkew)
               then Inl (IDTokenRefused ''the authentication is older than the age asked'')
               else Inr tok)"

definition checkIDToken :: "('w, 'k) as_env \<Rightarrow> 'k as_client \<Rightarrow> string \<Rightarrow> id_token_check \<Rightarrow> 'w
    \<Rightarrow> (as_error, id_token) result \<times> 'k as_client \<times> 'w" where
  "checkIDToken env c raw chk w =
     (if raw = '''' then (Inl (IDTokenRefused ''the answer carries none''), c, w)
      else case ae_key_fetch env w of ((ts, reply), w1) \<Rightarrow>
        case oe_now (ae_out env) w1 of (parsed_at, w2) \<Rightarrow>
        case ae_id_parse env (id_parser_options c) parsed_at
               (\<lambda>kid jw. key_for (ae_unmarshal env) jw ts reply (case kid of None \<Rightarrow> '''' | Some k \<Rightarrow> k)) raw (ac_keys c) of
          (Inl _, jw) \<Rightarrow> (Inl (IDTokenRefused ''the token does not verify''), c\<lparr>ac_keys := jw\<rparr>, w2)
        | (Inr cl, jw) \<Rightarrow> (case oe_now (ae_out env) w2 of (now, w3) \<Rightarrow> (check_claims chk now cl, c\<lparr>ac_keys := jw\<rparr>, w3)))"

definition exchangeSignIn :: "('w, 'k) as_env \<Rightarrow> 'k as_client \<Rightarrow> 'k \<Rightarrow> string \<Rightarrow> string \<Rightarrow> id_token_check \<Rightarrow> 'w
    \<Rightarrow> ((as_error, tokens \<times> id_token) result \<times> http_request list) \<times> 'k as_client \<times> 'w" where
  "exchangeSignIn env c sk authcode verifier chk w =
     (if ac_issuer c = '''' then ((Inl (IDTokenRefused ''this client names no issuer''), []), c, w)
      else if tc_Nonce chk = '''' then ((Inl (IDTokenRefused ''no nonce to check it against''), []), c, w)
      else case exchangeCode env c sk authcode verifier w of
        ((Inl e, rqs), w1) \<Rightarrow> ((Inl e, rqs), c, w1)
      | ((Inr t, rqs), w1) \<Rightarrow> (case checkIDToken env c (tk_IDToken t) chk w1 of
          (Inl e, c1, w2) \<Rightarrow>
            if tk_RefreshToken t \<noteq> ''''
            then (case revoke env c1 sk (tk_RefreshToken t) w2 of ((_, rqs'), w3) \<Rightarrow> ((Inl e, rqs @ rqs'), c1, w3))
            else ((Inl e, rqs), c1, w2)
        | (Inr tok, c1, w2) \<Rightarrow> ((Inr (t, tok), rqs), c1, w2)))"

section \<open>Proof keys\<close>

text \<open>\<open>rand\<close> is the answer of \<open>crypto/rand\<close>: as many bytes as asked, or an error.\<close>

definition randomToken :: "(nat \<Rightarrow> bytes option) \<Rightarrow> nat \<Rightarrow> string option" where
  "randomToken rand n = map_option (base64_encode base64_url) (rand n)"

definition pkce :: "(bytes \<Rightarrow> bytes) \<Rightarrow> (nat \<Rightarrow> bytes option) \<Rightarrow> (string \<times> string) option" where
  "pkce sha256 rand = (case randomToken rand 48 of
     None \<Rightarrow> None | Some verifier \<Rightarrow> Some (verifier, base64_encode base64_url (sha256 verifier)))"

section \<open>What is read from a token unchecked\<close>

definition parseUnverified :: "('w, 'k) as_env \<Rightarrow> string \<Rightarrow> claims option" where
  "parseUnverified env tok = ae_unverified env tok"

definition subjectFromToken :: "('w, 'k) as_env \<Rightarrow> string \<Rightarrow> string" where
  "subjectFromToken env tok = (case parseUnverified env tok of None \<Rightarrow> '''' | Some cl \<Rightarrow> Subject cl)"

definition serialFromToken :: "('w, 'k) as_env \<Rightarrow> string \<Rightarrow> string" where
  "serialFromToken env tok = (case parseUnverified env tok of
     None \<Rightarrow> '''' | Some cl \<Rightarrow> if SerialNumber cl = '''' then '''' else Identity_Code.key (SerialNumber cl))"

definition loginBindingFromToken :: "('w, 'k) as_env \<Rightarrow> string \<Rightarrow> string" where
  "loginBindingFromToken env tok = (case parseUnverified env tok of
     None \<Rightarrow> ''''
   | Some cl \<Rightarrow> if LoginMethod cl = '''' \<and> LoA cl = '''' then '''' else ''lm:'' @ LoginMethod cl @ ''|loa:'' @ LoA cl)"

section \<open>Connected apps\<close>

definition segment :: "string \<Rightarrow> string option" where
  "segment name =
     (if trim_space name = '''' \<or> name = ''.'' \<or> name = ''..'' \<or> list_ex (\<lambda>c. c \<in> set (CHR 0x5C # ''/?#%'')) name then None
      else Some (path_escape name))"

definition connectionsRead :: "('w, 'k) as_env \<Rightarrow> 'k as_client \<Rightarrow> 'k \<Rightarrow> string \<Rightarrow> string \<Rightarrow> (bytes \<Rightarrow> 'a option) \<Rightarrow> 'w
    \<Rightarrow> ((as_error, 'a) result \<times> http_request list) \<times> 'w" where
  "connectionsRead env c sk accessToken path dec w =
     (if trim_space accessToken = '''' then ((Inl NothingNamed, []), w)
      else expect_status 200 (decoded dec) (dpopDo env c sk ''GET'' path accessToken '''' None w))"

definition connectionsEnd :: "('w, 'k) as_env \<Rightarrow> 'k as_client \<Rightarrow> 'k \<Rightarrow> string \<Rightarrow> string \<Rightarrow> 'w
    \<Rightarrow> ((as_error, unit) result \<times> http_request list) \<times> 'w" where
  "connectionsEnd env c sk accessToken path w =
     (if trim_space accessToken = '''' then ((Inl NothingNamed, []), w)
      else expect_status 204 (\<lambda>_. Inr ()) (dpopDo env c sk ''DELETE'' path accessToken '''' None w))"

text \<open>A name that is no segment is refused before anything is sent.\<close>

definition named :: "string \<Rightarrow> (string \<Rightarrow> 'w \<Rightarrow> ((as_error, 'a) result \<times> http_request list) \<times> 'w) \<Rightarrow> 'w
    \<Rightarrow> ((as_error, 'a) result \<times> http_request list) \<times> 'w" where
  "named name f w = (case segment name of None \<Rightarrow> ((Inl NothingNamed, []), w) | Some seg \<Rightarrow> f seg w)"

definition ownConnections where
  "ownConnections env c sk accessToken w = connectionsRead env c sk accessToken ''/identity/connections'' (assistantsBody (ae_time env)) w"

definition signOutOwnConnection where
  "signOutOwnConnection env c sk accessToken cid w =
     named cid (\<lambda>seg. connectionsEnd env c sk accessToken (''/identity/connections/'' @ seg)) w"

definition assistantConnections where
  "assistantConnections env c sk accessToken assistant w =
     named assistant (\<lambda>seg. connectionsRead env c sk accessToken (''/identity/assistants/'' @ seg @ ''/connections'') (connectionsBody (ae_time env))) w"

definition signOutAssistantConnection where
  "signOutAssistantConnection env c sk accessToken assistant cid w =
     named assistant (\<lambda>a. named cid (\<lambda>seg.
       connectionsEnd env c sk accessToken (''/identity/assistants/'' @ a @ ''/connections/'' @ seg))) w"

definition endAssistantConnections where
  "endAssistantConnections env c sk accessToken assistant w =
     named assistant (\<lambda>seg. connectionsEnd env c sk accessToken (''/identity/assistants/'' @ seg @ ''/connections'')) w"

lemmas sign_in_eval [eval_simps] = jwksCacheTTL_def clockSkew_def scopeOpenID_def idTokenAlg_def withClientSecret_def withIssuer_def
  newClient_def authorizeQuery_def authorizeURL_def browserLogoutURL_def signInQuery_def authorizationURL_def as_request_def dpopDo_def
  form_type_def expect_status_def decoded_def revoke_def as_tokenRequest_def exchangeCode_def refreshTokens_def readIdentity_def
  checkIssuer_def id_parser_options_def check_claims_def checkIDToken_def exchangeSignIn_def randomToken_def pkce_def
  parseUnverified_def subjectFromToken_def serialFromToken_def loginBindingFromToken_def segment_def connectionsRead_def
  connectionsEnd_def named_def ownConnections_def signOutOwnConnection_def assistantConnections_def signOutAssistantConnection_def
  endAssistantConnections_def

section \<open>Every call proves the session's key\<close>

definition credentials :: "'k as_client \<Rightarrow> string \<Rightarrow> string" where
  "credentials c accessToken =
     (if accessToken \<noteq> '''' then ''DPoP '' @ accessToken
      else if ac_clientSecret c \<noteq> '''' then ''Basic '' @ base64_padded (query_escape (ac_clientID c) @ '':'' @ query_escape (ac_clientSecret c))
      else '''')"

definition made_by :: "('w, 'k) as_env \<Rightarrow> 'k as_client \<Rightarrow> 'k \<Rightarrow> string \<Rightarrow> string \<Rightarrow> string \<Rightarrow> bytes option \<Rightarrow> string \<Rightarrow> http_request \<Rightarrow> bool" where
  "made_by env c sk meth fullURL accessToken body nonce rq \<longleftrightarrow>
     hq_method rq = meth \<and> hq_url rq = fullURL \<and> hq_body rq = body \<and>
     header_get (hq_header rq) ''Authorization'' = credentials c accessToken \<and>
     (\<exists>w1 w2. client_proof ((ae_out env)\<lparr>oe_key := sk\<rparr>) meth fullURL accessToken nonce w1 = (Inr (header_get (hq_header rq) ''DPoP''), w2))"

lemma as_request_header:
  assumes "cid_clear (ae_out env)"
  shows "header_get (hq_header (as_request env c meth u tok ct body pf)) ''Authorization'' = credentials c tok"
    and "header_get (hq_header (as_request env c meth u tok ct body pf)) ''DPoP'' = pf"
  using assms
  by (auto simp: as_request_def credentials_def Let_def header_get_set_other canonical_names cid_clear_def eq_commute [of "canonical_name _"]
      header_get_def [of "[]"])

lemma as_request_made:
  assumes "cid_clear (ae_out env)" and "client_proof ((ae_out env)\<lparr>oe_key := sk\<rparr>) meth u tok nonce w = (Inr pf, w1)"
  shows "made_by env c sk meth u tok body nonce (as_request env c meth u tok ct body pf)"
  using assms by (auto simp: made_by_def as_request_header) (auto simp: as_request_def Let_def)

lemma dpop_attempt:
  assumes "dpop_attempts env c sk meth u tok ct body (Suc left) nonce w = ((r, rqs), x)"
  shows "r \<noteq> Inl NonceRetryFailed \<and> length rqs \<le> 1
      \<and> list_all (\<lambda>rq. cid_clear (ae_out env) \<longrightarrow> made_by env c sk meth u tok body nonce rq) rqs
    \<or> left = 1 \<and> (\<exists>rq rest n w1. rqs = rq # rest \<and> (cid_clear (ae_out env) \<longrightarrow> made_by env c sk meth u tok body nonce rq)
        \<and> challenged (oe_do (ae_out env)) rq n \<and> dpop_attempts env c sk meth u tok ct body left n w1 = ((r, rest), x))"
proof -
  obtain q w1 where p: "client_proof ((ae_out env)\<lparr>oe_key := sk\<rparr>) meth u tok nonce w = (q, w1)" by (metis prod.exhaust)
  show ?thesis
  proof (cases q)
    case (Inl e)
    with assms p show ?thesis by auto
  next
    case (Inr pf)
    let ?rq = "as_request env c meth u tok ct body pf"
    have m: "cid_clear (ae_out env) \<longrightarrow> made_by env c sk meth u tok body nonce ?rq" using as_request_made [OF _ p [unfolded Inr]] by blast
    obtain s w2 where s: "oe_do (ae_out env) w1 ?rq = (s, w2)" by (metis prod.exhaust)
    show ?thesis
    proof (cases "\<exists>resp. oe_request_ok (ae_out env) meth u \<and> s = Inr resp \<and> ae_read_error env resp = None \<and> hp_status resp = 401 \<and>
        left = 1 \<and> header_get (hp_header resp) ''DPoP-Nonce'' \<noteq> ''''")
      case False
      with assms p Inr s m show ?thesis by (auto simp: Let_def split: if_splits sum.splits option.splits)
    next
      case True
      then obtain resp n where resp: "oe_request_ok (ae_out env) meth u" "s = Inr resp" "ae_read_error env resp = None" "hp_status resp = 401"
          "left = 1" "header_get (hp_header resp) ''DPoP-Nonce'' = n" "n \<noteq> ''''" by blast
      obtain r1 rest x1 where l: "dpop_attempts env c sk meth u tok ct body left n w2 = ((r1, rest), x1)" by (metis prod.exhaust)
      have "r = r1" "rqs = ?rq # rest" "x = x1"
        using assms p Inr s resp l unfolding dpop_attempts.simps(2)
        by (simp_all add: Let_def del: dpop_attempts.simps One_nat_def)
      moreover have "challenged (oe_do (ae_out env)) ?rq n" using s resp unfolding challenged_def by blast
      ultimately show ?thesis using m l resp(5) by blast
    qed
  qed
qed

interpretation session: nonce_retry "dpop_attempts env c sk meth u tok ct body" "\<lambda>n. n" "\<lambda>n _. n" "\<lambda>_ _. True" "oe_do (ae_out env)"
  "\<lambda>n rq. cid_clear (ae_out env) \<longrightarrow> made_by env c sk meth u tok body n rq" "Inl NonceRetryFailed" for env c sk meth u tok ct body
  by unfold_locales (simp, use dpop_attempt in \<open>simp add: dpop_attempt\<close>)

text \<open>
  Every call to the Auth Service sends at most two requests and comes to an answer: the
  first without a nonce, a second only after a 401 that carries one, with that nonce. Each goes to
  the in-network address with a proof by the session's key for this request and token; a call
  with the person's token carries that token and never the client's secret, and a call the client
  makes as itself carries the secret when it has one.
\<close>

theorem session_calls_prove_key:
  assumes "cid_clear (ae_out env)" and "dpopDo env c sk meth path tok ct body w = ((r, rqs), w')"
  shows "length rqs \<le> 2 \<and> r \<noteq> Inl NonceRetryFailed \<and>
    nonce_chain (oe_do (ae_out env)) (made_by env c sk meth (ac_internalURL c @ path) tok body) '''' rqs"
  using session.retries_once [OF assms(2) [unfolded dpopDo_def]] assms(1) by simp

section \<open>A sign-in is proved\<close>

text \<open>
  What the code relies on of the JWT library for ID tokens: the parser's contract, and that
  claims it passes meet the options it was given, the issuer and, when one is named, the audience,
  an expiry and the times, each with the leeway.
\<close>

definition id_contract :: "('w, 'k) as_env \<Rightarrow> (string \<Rightarrow> string option option) \<Rightarrow> (id_options \<Rightarrow> gotime \<Rightarrow> 'k \<Rightarrow> string \<Rightarrow> id_token_claims option) \<Rightarrow> bool" where
  "id_contract env header_of checked \<longleftrightarrow>
     (\<forall>opts t. jwt_contract (ae_id_parse env opts t) header_of (checked opts t)) \<and>
     (\<forall>opts t k s cl. checked opts t k s = Some cl \<longrightarrow>
        (io_issuer opts \<noteq> '''' \<longrightarrow> ic_Issuer cl = io_issuer opts) \<and> (io_audience opts \<noteq> '''' \<longrightarrow> io_audience opts \<in> set (ic_Audience cl)) \<and>
        (\<exists>e. ic_ExpiresAt cl = Some e \<and> t < e + io_leeway opts) \<and> (\<forall>i. ic_IssuedAt cl = Some i \<longrightarrow> i \<le> t + io_leeway opts))"

lemma id_contract_claims:
  assumes "id_contract env header_of checked" and "checked opts t k s = Some cl"
  shows "io_issuer opts \<noteq> '''' \<Longrightarrow> ic_Issuer cl = io_issuer opts" "io_audience opts \<noteq> '''' \<Longrightarrow> io_audience opts \<in> set (ic_Audience cl)"
    "\<exists>e. ic_ExpiresAt cl = Some e \<and> t < e + io_leeway opts"
  using assms unfolding id_contract_def by blast+

text \<open>
  What the claims of a proved sign-in say, given what was asked. An age is counted back from the
  start of the sign-in, or from \<open>now\<close> when no start is given.
\<close>

definition answers_request :: "'k as_client \<Rightarrow> id_token_check \<Rightarrow> id_token_claims \<Rightarrow> bool" where
  "answers_request c chk cl \<longleftrightarrow>
     ic_Issuer cl = ac_issuer c \<and> ic_Audience cl = [ac_clientID c] \<and> ic_Subject cl \<noteq> '''' \<and> ic_Nonce cl = tc_Nonce chk \<and> tc_Nonce chk \<noteq> '''' \<and>
     (tc_ACRValues chk = '''' \<or> ic_ACR cl \<in> set (Go_Strings.fields (tc_ACRValues chk)))"

definition recent_enough :: "id_token_check \<Rightarrow> gotime \<Rightarrow> id_token_claims \<Rightarrow> bool" where
  "recent_enough chk now cl \<longleftrightarrow> (case tc_MaxAge chk of None \<Rightarrow> True | Some d \<Rightarrow>
     (case ic_AuthTime cl of None \<Rightarrow> False | Some t \<Rightarrow> t \<noteq> zero_time \<and>
        (if tc_Started chk = zero_time then now else tc_Started chk) + wrap64 (- d - clockSkew) \<le> t))"

lemma check_claims_ok:
  assumes "check_claims chk now cl = Inr tok"
  shows "length (ic_Audience cl) = 1" "ic_Subject cl \<noteq> ''''" "ic_IssuedAt cl \<noteq> None" "ic_Nonce cl = tc_Nonce chk" "ic_Nonce cl \<noteq> ''''"
    "tc_ACRValues chk = '''' \<or> ic_ACR cl \<in> set (Go_Strings.fields (tc_ACRValues chk))" "recent_enough chk now cl"
    "tok = \<lparr>it_Subject = ic_Subject cl, it_AuthTime = (case ic_AuthTime cl of None \<Rightarrow> zero_time | Some t \<Rightarrow> t),
       it_ACR = ic_ACR cl, it_AMR = ic_AMR cl, it_SessionID = ic_SID cl\<rparr>"
  using assms by (auto simp: check_claims_def recent_enough_def Let_def split: if_splits option.splits)

lemma checkIDToken_ok:
  assumes "checkIDToken env c raw chk w = (Inr tok, c', w')" and "id_contract env header_of checked"
    and "ae_key_fetch env w = ((ts, reply), w1)" "oe_now (ae_out env) w1 = (at, w2)" "oe_now (ae_out env) w2 = (now, w3)"
  obtains kid k cl where
    "header_of raw = Some kid" "key_for (ae_unmarshal env) (ac_keys c) ts reply (case kid of None \<Rightarrow> '''' | Some x \<Rightarrow> x) = (Inr k, ac_keys c')"
    "checked (id_parser_options c) at k raw = Some cl" "check_claims chk now cl = Inr tok"
proof -
  let ?kf = "\<lambda>kid jw. key_for (ae_unmarshal env) jw ts reply (case kid of None \<Rightarrow> '''' | Some k \<Rightarrow> k)"
  obtain q jw where p: "ae_id_parse env (id_parser_options c) at ?kf raw (ac_keys c) = (q, jw)" by (metis prod.exhaust)
  obtain cl where q: "q = Inr cl" "check_claims chk now cl = Inr tok" "c' = c\<lparr>ac_keys := jw\<rparr>"
    using assms(1,3-5) p by (cases q) (auto simp: checkIDToken_def split: if_splits)
  have "jwt_contract (ae_id_parse env (id_parser_options c) at) header_of (checked (id_parser_options c) at)"
    using assms(2) by (simp add: id_contract_def)
  then obtain kid k where "header_of raw = Some kid" "?kf kid (ac_keys c) = (Inr k, jw)" "checked (id_parser_options c) at k raw = Some cl"
    using p q(1) unfolding jwt_contract_def by (auto split: option.splits prod.splits sum.splits)
  with q that [of kid k cl] show thesis by simp
qed

text \<open>
  C13: A sign-in is answered with tokens only when they are what the code was exchanged for, and
  their ID token verifies, by the clock right after the exchange, under a key of the Auth Service's
  published set: one the client holds within its time to live, or one of the reply to the
  fetch of this check. The token names this client's issuer, this client as its only audience, a
  person, the nonce of this sign-in, an expiry that has not passed by more than the leeway and, where
  asked, one of the methods named and an authentication no older than asked and the leeway,
  counted from the start of the sign-in or, when none is given, from the clock at the end of the check.
  What is answered of the person is that token's.
\<close>

theorem sign_in_is_proved:
  assumes "id_contract env header_of checked" and "ac_clientID c \<noteq> ''''"
    and "exchangeSignIn env c sk authcode verifier chk w = ((Inr (t, tok), rqs), c', w')"
    and "exchangeCode env c sk authcode verifier w = ((exchanged, sent), w1)"
    and "ae_key_fetch env w1 = ((ts, reply), w2)" "oe_now (ae_out env) w2 = (at, w3)" "oe_now (ae_out env) w3 = (now, w4)"
  shows "exchanged = Inr t \<and> rqs = sent \<and> (\<exists>kid k cl e. header_of (tk_IDToken t) = Some kid
    \<and> key_source (ae_unmarshal env) (ac_keys c) ts reply (case kid of None \<Rightarrow> '''' | Some x \<Rightarrow> x) k
    \<and> checked (id_parser_options c) at k (tk_IDToken t) = Some cl \<and> ic_ExpiresAt cl = Some e \<and> at < e + clockSkew
    \<and> answers_request c chk cl \<and> recent_enough chk now cl
    \<and> tok = \<lparr>it_Subject = ic_Subject cl, it_AuthTime = (case ic_AuthTime cl of None \<Rightarrow> zero_time | Some a \<Rightarrow> a),
         it_ACR = ic_ACR cl, it_AMR = ic_AMR cl, it_SessionID = ic_SID cl\<rparr>)"
proof -
  have i: "ac_issuer c \<noteq> ''''" using assms(3) by (auto simp: exchangeSignIn_def)
  obtain t' where q: "exchanged = Inr t'" using assms(3,4) by (cases exchanged) (auto simp: exchangeSignIn_def split: if_splits)
  obtain r c1 w5 where k: "checkIDToken env c (tk_IDToken t') chk w1 = (r, c1, w5)" by (metis prod.exhaust)
  have r: "r = Inr tok" "t' = t" "sent = rqs" "c1 = c'"
    using assms(3,4) q k by (cases r; auto simp: exchangeSignIn_def split: if_splits prod.splits)+
  obtain kid sk' cl where h: "header_of (tk_IDToken t) = Some kid"
      "key_for (ae_unmarshal env) (ac_keys c) ts reply (case kid of None \<Rightarrow> '''' | Some x \<Rightarrow> x) = (Inr sk', ac_keys c')"
      "checked (id_parser_options c) at sk' (tk_IDToken t) = Some cl" "check_claims chk now cl = Inr tok"
    by (rule checkIDToken_ok [OF k [unfolded r] assms(1,5-7)])
  obtain e where e: "ic_ExpiresAt cl = Some e" "at < e + clockSkew" and a: "ic_Issuer cl = ac_issuer c" "ac_clientID c \<in> set (ic_Audience cl)"
    using id_contract_claims [OF assms(1) h(3)] assms(2) i by (auto simp: id_parser_options_def)
  note ok = check_claims_ok [OF h(4)]
  have "ic_Audience cl = [ac_clientID c]" using ok(1) a(2) by (cases "ic_Audience cl") auto
  then have "answers_request c chk cl" using ok a(1) by (auto simp: answers_request_def)
  with q r h(1,3) key_served_from [OF h(2)] e ok(7,8) show ?thesis by blast
qed

lemma expect_status_requests: "snd (fst (expect_status n f a)) = snd (fst a)"
  by (auto simp: expect_status_def split: prod.splits sum.splits)

lemma revoke_requests:
  assumes "cid_clear (ae_out env)" and "rq \<in> set (snd (fst (revoke env c sk refreshToken w)))"
  shows "hq_method rq = ''POST'' \<and> hq_url rq = ac_internalURL c @ ''/revoke'' \<and> header_get (hq_header rq) ''Authorization'' = credentials c ''''
     \<and> (\<exists>q. hq_body rq = Some q \<and> (\<exists>vs. parse_values q = Some vs \<and> map_of vs ''token'' = Some refreshToken))"
proof -
  let ?form = "[(''token'', refreshToken), (''token_type_hint'', ''refresh_token''), (''client_id'', ac_clientID c)]"
  obtain r rqs w' where d: "dpopDo env c sk ''POST'' ''/revoke'' '''' form_type (Some (encode_values ?form)) w = ((r, rqs), w')"
    by (metis prod.exhaust)
  have ch: "nonce_chain (oe_do (ae_out env)) (made_by env c sk ''POST'' (ac_internalURL c @ ''/revoke'') '''' (Some (encode_values ?form))) '''' rqs"
    using session.retries_once [OF d [unfolded dpopDo_def]] assms(1) by simp
  have "rq \<in> set rqs" using assms(2) d by (simp add: revoke_def expect_status_requests)
  then obtain n where m: "made_by env c sk ''POST'' (ac_internalURL c @ ''/revoke'') '''' (Some (encode_values ?form)) n rq"
    using nonce_chain_all [OF ch] by (auto simp: list_all_iff)
  have "parse_values (encode_values ?form) = Some (sort_key fst ?form)" by (rule parse_encode_values) simp
  moreover have "map_of (sort_key fst ?form) ''token'' = Some refreshToken" by (simp add: map_of_sort_key)
  ultimately show ?thesis using m by (auto simp: made_by_def)
qed

text \<open>
  C14: When an exchanged sign-in's ID token does not prove it, no tokens are answered and the
  session the exchange opened is revoked: a revocation is made with the answer's refresh token,
  its first request is sent whenever a proof can be made, and every request of it presents that
  token, as this client, at the Auth Service's revocation address.
\<close>

theorem refused_sign_in_is_revoked:
  assumes "cid_clear (ae_out env)" and "ac_issuer c \<noteq> ''''" and "tc_Nonce chk \<noteq> ''''"
    and "exchangeCode env c sk authcode verifier w = ((Inr t, rqs), w1)"
    and "checkIDToken env c (tk_IDToken t) chk w1 = (Inl e, c1, w2)" and "tk_RefreshToken t \<noteq> ''''"
  shows "\<exists>revoked w3. exchangeSignIn env c sk authcode verifier chk w = ((Inl e, rqs @ revoked), c1, w3)
    \<and> (\<forall>rq \<in> set revoked. hq_method rq = ''POST'' \<and> hq_url rq = ac_internalURL c @ ''/revoke'' \<and>
         (\<exists>q vs. hq_body rq = Some q \<and> parse_values q = Some vs \<and> map_of vs ''token'' = Some (tk_RefreshToken t)))
    \<and> (oe_request_ok (ae_out env) ''POST'' (ac_internalURL c @ ''/revoke'') \<longrightarrow>
       is_ok (fst (client_proof ((ae_out env)\<lparr>oe_key := sk\<rparr>) ''POST'' (ac_internalURL c @ ''/revoke'') '''' '''' w2)) \<longrightarrow> revoked \<noteq> [])"
proof -
  obtain r revoked w3 where v: "revoke env c1 sk (tk_RefreshToken t) w2 = ((r, revoked), w3)" by (metis prod.exhaust)
  have c1: "ac_internalURL c1 = ac_internalURL c"
    using assms(5) by (auto simp: checkIDToken_def split: if_splits prod.splits sum.splits)
  have x: "exchangeSignIn env c sk authcode verifier chk w = ((Inl e, rqs @ revoked), c1, w3)"
    using assms(2-6) v by (simp add: exchangeSignIn_def)
  have "revoked \<noteq> []" if "oe_request_ok (ae_out env) ''POST'' (ac_internalURL c @ ''/revoke'')"
      "is_ok (fst (client_proof ((ae_out env)\<lparr>oe_key := sk\<rparr>) ''POST'' (ac_internalURL c @ ''/revoke'') '''' '''' w2))"
  proof -
    have "revoked = snd (fst (revoke env c1 sk (tk_RefreshToken t) w2))" by (simp add: v)
    then show ?thesis
      using that c1 by (auto simp: revoke_def expect_status_requests dpopDo_def numeral_2_eq_2 is_ok_def Let_def
          split: prod.splits sum.splits option.splits if_splits)
  qed
  with x show ?thesis using revoke_requests [OF assms(1), of _ c1 sk "tk_RefreshToken t" w2] v c1 by auto
qed

section \<open>Names in addresses\<close>

text \<open>What a path is made of: fixed parts, and names a caller gives. Some names cannot be addressed.\<close>

datatype path_part = Fixed string | Name string

definition unusable :: "string \<Rightarrow> bool" where
  "unusable name \<longleftrightarrow> trim_space name = '''' \<or> name = ''.'' \<or> name = ''..'' \<or> (\<exists>x \<in> {CHR ''/'', CHR 0x5C, CHR ''?'', CHR ''#'', CHR ''%''}. x \<in> set name)"

text \<open>A segment that stands for a part: the fixed one itself, or one that reads back as the name and is a segment to any reader.\<close>

fun stands_for :: "path_part \<Rightarrow> string \<Rightarrow> bool" where
  "stands_for (Fixed f) seg \<longleftrightarrow> seg = f"
| "stands_for (Name name) seg \<longleftrightarrow> unescape False seg = Some name \<and> seg \<notin> {'''', ''.'', ''..''} \<and> CHR ''/'' \<notin> set seg \<and> CHR ''?'' \<notin> set seg \<and> CHR ''#'' \<notin> set seg"

definition segments_path :: "string list \<Rightarrow> string" where
  "segments_path segs = concat (map (Cons (CHR ''/'')) segs)"

text \<open>
  A call whose path has these parts: refused with nothing sent when it carries no token or a name
  that cannot be addressed; otherwise what it sends is a call with the session's key, the method and
  the token at a path of exactly one segment per part, and so is every request's address.
\<close>

definition addressed :: "('w, 'k) as_env \<Rightarrow> 'k as_client \<Rightarrow> 'k \<Rightarrow> string \<Rightarrow> string \<Rightarrow> path_part list \<Rightarrow> 'w
    \<Rightarrow> ((as_error, 'a) result \<times> http_request list) \<times> 'w \<Rightarrow> bool" where
  "addressed env c sk tok meth parts w answer \<longleftrightarrow>
     (if trim_space tok = '''' \<or> (\<exists>name. Name name \<in> set parts \<and> unusable name) then answer = ((Inl NothingNamed, []), w)
      else \<exists>segs. list_all2 stands_for parts segs
        \<and> snd (fst answer) = snd (fst (dpopDo env c sk meth (segments_path segs) tok '''' None w))
        \<and> (\<forall>rq \<in> set (snd (fst answer)). hq_method rq = meth
             \<and> split_on (CHR ''/'') (hq_url rq) = split_on (CHR ''/'') (ac_internalURL c) @ segs))"

lemma unusable_segment: "segment name = (if unusable name then None else Some (path_escape name))"
  by (auto simp: segment_def unusable_def list_ex_iff)

lemma path_escape_stands: "\<not> unusable name \<Longrightarrow> stands_for (Name name) (path_escape name)"
  using path_escape_no_sep [of name] path_unescape [of name]
  by (auto simp: unusable_def trim_space_def trim_right_space.simps)

lemma segments_path_simps [simp]: "segments_path [] = ''''" "segments_path (s # segs) = CHR ''/'' # s @ segments_path segs"
  by (simp_all add: segments_path_def)

lemma split_segments:
  assumes "list_all (\<lambda>s. CHR ''/'' \<notin> set s) segs"
  shows "split_on (CHR ''/'') (a @ segments_path segs) = split_on (CHR ''/'') a @ segs"
  using assms
proof (induction segs arbitrary: a)
  case (Cons s segs)
  have "a @ segments_path (s # segs) = (a @ CHR ''/'' # s) @ segments_path segs" by simp
  then show ?case using Cons by (simp add: split_on_sep del: append.simps)
qed simp

lemma as_request_line: "hq_method (as_request env c meth u tok ct body pf) = meth" "hq_url (as_request env c meth u tok ct body pf) = u"
  by (simp_all add: as_request_def Let_def)

lemma dpop_attempts_sent:
  "rq \<in> set (snd (fst (dpop_attempts env c sk meth u tok ct body left nonce w))) \<Longrightarrow> hq_method rq = meth \<and> hq_url rq = u"
proof (induction left arbitrary: nonce w)
  case (Suc left)
  obtain q w1 where p: "client_proof ((ae_out env)\<lparr>oe_key := sk\<rparr>) meth u tok nonce w = (q, w1)" by (metis prod.exhaust)
  show ?case
  proof (cases q)
    case (Inr pf)
    let ?rq = "as_request env c meth u tok ct body pf"
    obtain s w2 where s: "oe_do (ae_out env) w1 ?rq = (s, w2)" by (metis prod.exhaust)
    have "rq = ?rq \<or> (\<exists>n. rq \<in> set (snd (fst (dpop_attempts env c sk meth u tok ct body left n w2))))"
      using Suc.prems p Inr s by (auto simp: Let_def simp del: One_nat_def split: if_splits sum.splits option.splits prod.splits)
        (metis fst_conv snd_conv)
    with Suc.IH show ?thesis by (auto simp: as_request_line)
  qed (use Suc.prems p in simp)
qed simp

lemma sent_to_segments:
  assumes "list_all (\<lambda>s. CHR ''/'' \<notin> set s) segs" "rq \<in> set (snd (fst (dpopDo env c sk meth (segments_path segs) tok ct body w)))"
  shows "hq_method rq = meth \<and> split_on (CHR ''/'') (hq_url rq) = split_on (CHR ''/'') (ac_internalURL c) @ segs"
  using dpop_attempts_sent [OF assms(2) [unfolded dpopDo_def]] split_segments [OF assms(1)] by simp

lemma connections_addressed:
  assumes "\<And>name. Name name \<in> set parts \<Longrightarrow> \<not> unusable name" "list_all2 stands_for parts segs" "list_all (\<lambda>s. CHR ''/'' \<notin> set s) segs"
  shows "addressed env c sk tok ''GET'' parts w (connectionsRead env c sk tok (segments_path segs) dec w)"
    and "addressed env c sk tok ''DELETE'' parts w (connectionsEnd env c sk tok (segments_path segs) w)"
proof -
  note sent = sent_to_segments [OF assms(3), of _ env c sk _ tok "''''" None w]
  have u: "(\<exists>name. Name name \<in> set parts \<and> unusable name) = False" using assms(1) by blast
  show "addressed env c sk tok ''GET'' parts w (connectionsRead env c sk tok (segments_path segs) dec w)"
    "addressed env c sk tok ''DELETE'' parts w (connectionsEnd env c sk tok (segments_path segs) w)"
    unfolding addressed_def connectionsRead_def connectionsEnd_def u using assms(2) sent [of _ "''GET''"] sent [of _ "''DELETE''"]
    by (simp_all add: expect_status_requests exI [of _ segs])
qed

text \<open>
  C40: The four calls that name a connection or an assistant - to sign out one's own connection, to
  read an assistant's connections, to sign out one of them and to end them all - are refused
  with nothing sent when a name is blank, a dot segment or has a separator, a query, fragment or
  percent character or a backslash in it, or when the token is blank. Otherwise every request they send goes
  to an address that splits into the segments of the Auth Service's own, the fixed ones of the
  call, and one segment per name, from which the name is read back.
\<close>

theorem names_are_one_segment:
  "addressed env c sk tok ''DELETE'' [Fixed ''identity'', Fixed ''connections'', Name cid] w (signOutOwnConnection env c sk tok cid w)
 \<and> addressed env c sk tok ''GET'' [Fixed ''identity'', Fixed ''assistants'', Name assistant, Fixed ''connections''] w
     (assistantConnections env c sk tok assistant w)
 \<and> addressed env c sk tok ''DELETE'' [Fixed ''identity'', Fixed ''assistants'', Name assistant, Fixed ''connections'', Name cid] w
     (signOutAssistantConnection env c sk tok assistant cid w)
 \<and> addressed env c sk tok ''DELETE'' [Fixed ''identity'', Fixed ''assistants'', Name assistant, Fixed ''connections''] w
     (endAssistantConnections env c sk tok assistant w)"
proof (intro conjI)
  let ?e = path_escape
  show "addressed env c sk tok ''DELETE'' [Fixed ''identity'', Fixed ''connections'', Name cid] w (signOutOwnConnection env c sk tok cid w)"
  proof (cases "unusable cid")
    case False
    with connections_addressed(2) [of "[Fixed ''identity'', Fixed ''connections'', Name cid]" "[''identity'', ''connections'', ?e cid]" env c sk tok w]
      path_escape_stands [OF False] show ?thesis by (simp add: signOutOwnConnection_def named_def unusable_segment)
  qed (simp add: addressed_def signOutOwnConnection_def named_def unusable_segment)
  show "addressed env c sk tok ''GET'' [Fixed ''identity'', Fixed ''assistants'', Name assistant, Fixed ''connections''] w
     (assistantConnections env c sk tok assistant w)"
  proof (cases "unusable assistant")
    case False
    with connections_addressed(1) [of "[Fixed ''identity'', Fixed ''assistants'', Name assistant, Fixed ''connections'']"
        "[''identity'', ''assistants'', ?e assistant, ''connections'']" env c sk tok w "connectionsBody (ae_time env)"]
      path_escape_stands [OF False] show ?thesis by (simp add: assistantConnections_def named_def unusable_segment)
  qed (simp add: addressed_def assistantConnections_def named_def unusable_segment)
  show "addressed env c sk tok ''DELETE'' [Fixed ''identity'', Fixed ''assistants'', Name assistant, Fixed ''connections'', Name cid] w
     (signOutAssistantConnection env c sk tok assistant cid w)"
  proof (cases "unusable assistant \<or> unusable cid")
    case False
    with connections_addressed(2) [of "[Fixed ''identity'', Fixed ''assistants'', Name assistant, Fixed ''connections'', Name cid]"
        "[''identity'', ''assistants'', ?e assistant, ''connections'', ?e cid]" env c sk tok w]
      path_escape_stands [of assistant] path_escape_stands [of cid] show ?thesis by (auto simp: signOutAssistantConnection_def named_def unusable_segment)
  qed (auto simp: addressed_def signOutAssistantConnection_def named_def unusable_segment)
  show "addressed env c sk tok ''DELETE'' [Fixed ''identity'', Fixed ''assistants'', Name assistant, Fixed ''connections''] w
     (endAssistantConnections env c sk tok assistant w)"
  proof (cases "unusable assistant")
    case False
    with connections_addressed(2) [of "[Fixed ''identity'', Fixed ''assistants'', Name assistant, Fixed ''connections'']"
        "[''identity'', ''assistants'', ?e assistant, ''connections'']" env c sk tok w]
      path_escape_stands [OF False] show ?thesis by (simp add: endAssistantConnections_def named_def unusable_segment)
  qed (simp add: addressed_def endAssistantConnections_def named_def unusable_segment)
qed

text \<open>
  The Auth Service reads back from the browser's address exactly what this sign-in asks: this
  client and where it returns, the code challenge with its method, the state, the nonce, the
  openid scope, and the methods, the prompt and the age in whole seconds just when they were asked.
\<close>

theorem sign_in_request_read_back:
  "\<exists>q vs. authorizationURL c req = ac_publicURL c @ ''/authorize?'' @ q \<and> parse_values q = Some vs \<and>
     map_of vs ''client_id'' = Some (ac_clientID c) \<and> map_of vs ''redirect_uri'' = Some (ac_redirectURI c) \<and>
     map_of vs ''code_challenge'' = Some (ar_CodeChallenge req) \<and> map_of vs ''code_challenge_method'' = Some ''S256'' \<and>
     map_of vs ''state'' = Some (ar_State req) \<and> map_of vs ''nonce'' = Some (ar_Nonce req) \<and> map_of vs ''scope'' = Some ''openid'' \<and>
     map_of vs ''acr_values'' = (if ar_ACRValues req = '''' then None else Some (ar_ACRValues req)) \<and>
     map_of vs ''prompt'' = (if ar_Prompt req = '''' then None else Some (ar_Prompt req)) \<and>
     map_of vs ''max_age'' = map_option (\<lambda>d. format_int (quot d second)) (ar_MaxAge req)"
proof -
  let ?q = "signInQuery c req"
  have "parse_values (encode_values ?q) = Some (sort_key fst ?q)"
    by (rule parse_encode_values) (simp add: signInQuery_def)
  moreover have "map_of (sort_key fst ?q) = map_of ?q"
    by (rule map_of_sort_key) (auto simp: signInQuery_def authorizeQuery_def split: option.splits)
  ultimately show ?thesis
    by (intro exI [of _ "encode_values ?q"] exI [of _ "sort_key fst ?q"])
      (simp add: authorizationURL_def signInQuery_def authorizeQuery_def scopeOpenID_def split: option.splits)
qed

text \<open>A verifier is 64 characters of the unreserved alphabet, and its challenge 43.\<close>

lemma pkce_shape:
  assumes "pkce sha256 rand = Some (verifier, chal)" and "\<And>n b. rand n = Some b \<Longrightarrow> length b = n" and "\<And>b. length (sha256 b) = 32"
  shows "length verifier = 64 \<and> set verifier \<subseteq> set base64_url \<and> chal = base64_encode base64_url (sha256 verifier) \<and> length chal = 43"
proof -
  obtain b where b: "rand 48 = Some b" "verifier = base64_encode base64_url b" "chal = base64_encode base64_url (sha256 verifier)"
    using assms(1) by (auto simp: pkce_def randomToken_def split: option.splits)
  with assms(2,3) base64_encode_alphabet [of base64_url b] show ?thesis
    by (auto simp: length_base64_encode list_all_iff)
qed

section \<open>A sign-in to run\<close>

definition demo_id_claims :: "id_options \<Rightarrow> gotime \<Rightarrow> id_token_claims" where
  "demo_id_claims opts t = \<lparr>ic_Issuer = io_issuer opts, ic_Subject = ''u1'', ic_Audience = [io_audience opts],
     ic_ExpiresAt = Some (t - io_leeway opts + 1), ic_IssuedAt = Some (t + io_leeway opts), ic_Nonce = ''n'', ic_AuthTime = Some (t - 10 * second),
     ic_ACR = ''card'', ic_AMR = [], ic_SID = ''sid''\<rparr>"

definition demo_id_header :: "string \<Rightarrow> string option option" where
  "demo_id_header s = Some (Some ''k1'')"

definition demo_id_checked :: "id_options \<Rightarrow> gotime \<Rightarrow> nat \<Rightarrow> string \<Rightarrow> id_token_claims option" where
  "demo_id_checked opts t k s = (if k = 1 \<and> s = ''idt'' then Some (demo_id_claims opts t) else None)"

definition demo_tokens :: json where
  "demo_tokens = Obj [(''access_token'', Str ''at''), (''token_type'', Str ''DPoP''), (''expires_in'', Num ''300''), (''refresh_token'', Str ''rt''),
     (''id_token'', Str ''idt'')]"

lemma demo_tokens_read: "unmarshal zero_tokens decode_tokens (marshal demo_tokens) = Some \<lparr>tk_AccessToken = ''at'', tk_TokenType = ''DPoP'',
    tk_ExpiresIn = 300, tk_RefreshToken = ''rt'', tk_IDToken = ''idt'', tk_Capabilities = None\<rparr>"
proof -
  have "format_int 300 = ''300''" by code_simp
  with number_ok_format_int [of 300] parse_format_int64 [of 300] have n: "number_ok ''300''" "parse_int64 ''300'' = Some 300" by simp_all
  then have "json_ok demo_tokens"
    by (simp add: json_ok_def demo_tokens_def maxNestingDepth_def utf8_valid_def rune_error_def is_ascii_def ord_def)
  with n show ?thesis by (simp add: unmarshal_marshal) (simp add: demo_tokens_def decode_tokens_def zero_tokens_def field_named_def field_def)
qed

definition demo_as_out :: "(nat, nat) outbound_env" where
  "demo_as_out = demo_env\<lparr>oe_do := (\<lambda>w rq. (Inr \<lparr>hp_status = 200, hp_header = [], hp_body = marshal demo_tokens\<rparr>, Suc w))\<rparr>"

definition demo_as :: "(nat, nat) as_env" where
  "demo_as = \<lparr>ae_out = demo_as_out, ae_read_error = (\<lambda>_. None), ae_time = (\<lambda>old v. None),
     ae_id_parse = (\<lambda>opts t. run_parser demo_id_header (demo_id_checked opts t)),
     ae_key_fetch = (\<lambda>w. (((0, 0, 0, 0), NoReply ''down''), w)), ae_unmarshal = (\<lambda>_. None), ae_unverified = (\<lambda>_. None)\<rparr>"

definition demo_as_client :: "nat as_client" where
  "demo_as_client = \<lparr>ac_publicURL = ''https://login'', ac_internalURL = ''https://as'', ac_clientID = ''bff'', ac_clientSecret = ''s'',
     ac_redirectURI = ''https://app/cb'', ac_issuer = ''https://as'', ac_keysURL = '''',
     ac_keys = \<lparr>jw_ttl = 15 * minute, jw_minInterval = 30 * second, jw_keys = [(''k1'', 1)], jw_fetchedAt = 0, jw_lastAttempt = 0\<rparr>\<rparr>"

definition demo_check :: "string \<Rightarrow> id_token_check" where
  "demo_check n = \<lparr>tc_Nonce = n, tc_MaxAge = Some (60 * second), tc_Started = zero_time, tc_ACRValues = ''''\<rparr>"

lemma demo_as_contract: "id_contract demo_as demo_id_header demo_id_checked"
  by (auto simp: id_contract_def demo_as_def run_parser_contract demo_id_checked_def demo_id_claims_def split: if_splits)

lemma demo_cid_clear: "cid_clear (ae_out demo_as)"
  by (simp add: cid_clear_def demo_as_def demo_as_out_def demo_env_def canonical_name_def)

lemma demo_key: "(ae_out demo_as)\<lparr>oe_key := 7\<rparr> = demo_as_out"
  by (simp add: demo_as_def demo_as_out_def demo_env_def)

lemma demo_as_proof: "client_proof demo_as_out m u tok n w = (Inr (''p'' @ n), w)"
  using demo_client_proof [of m u tok n w] by (simp add: client_proof_def demo_as_out_def)

lemma demo_dpopDo: "\<exists>rq. dpopDo demo_as c 7 meth path tok ct b w = ((Inr (marshal demo_tokens, 200), [rq]), Suc w)"
  unfolding dpopDo_def numeral_2_eq_2 dpop_attempts.simps demo_key demo_as_proof
  by (simp add: demo_as_def demo_as_out_def demo_env_def as_request_def Let_def)

lemma demo_exchangeCode:
  "\<exists>rqs. exchangeCode demo_as demo_as_client 7 ''code'' ''ver'' 0 = ((Inr \<lparr>tk_AccessToken = ''at'', tk_TokenType = ''DPoP'', tk_ExpiresIn = 300,
     tk_RefreshToken = ''rt'', tk_IDToken = ''idt'', tk_Capabilities = None\<rparr>, rqs), 1)"
proof -
  let ?form = "[(''grant_type'', ''authorization_code''), (''code'', ''code''), (''client_id'', ac_clientID demo_as_client),
       (''code_verifier'', ''ver''), (''redirect_uri'', ac_redirectURI demo_as_client)]"
  obtain rq where "dpopDo demo_as demo_as_client 7 ''POST'' ''/token'' '''' form_type (Some (encode_values ?form)) 0
      = ((Inr (marshal demo_tokens, 200), [rq]), Suc 0)"
    using demo_dpopDo by blast
  then show ?thesis unfolding exchangeCode_def as_tokenRequest_def by (simp add: expect_status_def decoded_def demo_tokens_read)
qed

lemma demo_checkIDToken:
  "checkIDToken demo_as demo_as_client ''idt'' (demo_check n) 1 =
     (if n = ''n'' then Inr \<lparr>it_Subject = ''u1'', it_AuthTime = - 9 * second, it_ACR = ''card'', it_AMR = [], it_SessionID = ''sid''\<rparr>
      else Inl (IDTokenRefused ''it does not carry the nonce this sign-in sent''), demo_as_client, 1)"
proof -
  have "\<not> 15 * minute < time_sub 0 0" by (simp add: eval_simps)
  moreover have "second - 10 * second \<noteq> zero_time" "\<not> second - 10 * second < second + wrap64 (- (60 * second) - clockSkew)"
    by (simp_all add: zero_time_def second_def clockSkew_def wrap64_def)
  ultimately show ?thesis
    by (simp add: checkIDToken_def demo_as_def demo_as_out_def demo_env_def run_parser_def demo_id_header_def key_for_def cached_key_def demo_as_client_def
        mget_def demo_id_checked_def check_claims_def demo_id_claims_def demo_check_def eq_commute)
qed

theorem session_calls_prove_key_witness:
  "\<exists>r rq w'. dpopDo demo_as demo_as_client 7 ''DELETE'' ''/identity/connections/c1'' ''at'' '''' None 0 = ((r, [rq]), w') \<and>
     header_get (hq_header rq) ''Authorization'' = ''DPoP at''"
proof -
  obtain body rq where d: "dpopDo demo_as demo_as_client 7 ''DELETE'' ''/identity/connections/c1'' ''at'' '''' None 0 = ((Inr (body, 200), [rq]), Suc 0)"
    using demo_dpopDo by blast
  from session_calls_prove_key [OF demo_cid_clear d] have "header_get (hq_header rq) ''Authorization'' = ''DPoP at''"
    by (simp add: made_by_def credentials_def)
  with d show ?thesis by blast
qed

theorem sign_in_is_proved_witness:
  "\<exists>t tok rqs c' w'. exchangeSignIn demo_as demo_as_client 7 ''code'' ''ver'' (demo_check ''n'') 0 = ((Inr (t, tok), rqs), c', w')
     \<and> it_Subject tok \<noteq> '''' \<and> second - 60 * second - clockSkew \<le> it_AuthTime tok"
proof -
  obtain t rqs where x: "exchangeCode demo_as demo_as_client 7 ''code'' ''ver'' 0 = ((Inr t, rqs), 1)" "tk_IDToken t = ''idt''"
    using demo_exchangeCode by fastforce
  have i: "ac_issuer demo_as_client \<noteq> ''''" "tc_Nonce (demo_check ''n'') \<noteq> ''''" "ac_clientID demo_as_client \<noteq> ''''"
    by (simp_all add: demo_as_client_def demo_check_def)
  with x demo_checkIDToken [of "''n''"] obtain tok where s: "exchangeSignIn demo_as demo_as_client 7 ''code'' ''ver'' (demo_check ''n'') 0
      = ((Inr (t, tok), rqs), demo_as_client, 1)"
    by (auto simp: exchangeSignIn_def)
  have f: "ae_key_fetch demo_as 1 = (((0, 0, 0, 0), NoReply ''down''), 1)" "oe_now (ae_out demo_as) 1 = (second, 1)"
    by (simp_all add: demo_as_def demo_as_out_def demo_env_def)
  have "wrap64 (- (60 * second) - clockSkew) = - 60 * second - clockSkew" by (simp add: second_def clockSkew_def wrap64_def)
  with sign_in_is_proved [OF demo_as_contract i(3) s x(1) f(1,2,2)] have "it_Subject tok \<noteq> ''''" "second - 60 * second - clockSkew \<le> it_AuthTime tok"
    by (auto simp: answers_request_def recent_enough_def demo_check_def split: option.splits)
  with s show ?thesis by blast
qed

theorem names_are_one_segment_witness:
  "\<exists>r rq. signOutOwnConnection demo_as demo_as_client 7 ''at'' ''c 1'' 0 = ((r, [rq]), 1) \<and> hq_method rq = ''DELETE''
     \<and> split_on (CHR ''/'') (hq_url rq) = [''https:'', '''', ''as'', ''identity'', ''connections'', ''c%201'']
     \<and> signOutOwnConnection demo_as demo_as_client 7 ''at'' ''a/b'' 0 = ((Inl NothingNamed, []), 0)"
proof -
  have u: "\<not> unusable ''c 1''" "unusable ''a/b''" "trim_space ''at'' \<noteq> ''''" by (simp_all add: unusable_def eval_simps)
  have e: "path_escape ''c 1'' = ''c%201''" by code_simp
  obtain body rq where d: "dpopDo demo_as demo_as_client 7 ''DELETE'' ''/identity/connections/c%201'' ''at'' '''' None 0 = ((Inr (body, 200), [rq]), 1)"
    using demo_dpopDo by fastforce
  have s: "signOutOwnConnection demo_as demo_as_client 7 ''at'' ''c 1'' 0 = ((Inl (Responded 200 body), [rq]), 1)"
    using u(1,3) d by (simp add: signOutOwnConnection_def named_def unusable_segment e connectionsEnd_def expect_status_def)
  note all = names_are_one_segment [of demo_as demo_as_client 7 "''at''" _ 0 "''a''", THEN conjunct1]
  from all [of "''a/b''"] u(2) have "signOutOwnConnection demo_as demo_as_client 7 ''at'' ''a/b'' 0 = ((Inl NothingNamed, []), 0)"
    by (auto simp: addressed_def)
  moreover from all [of "''c 1''"] u s obtain seg where seg: "hq_method rq = ''DELETE''"
      "split_on (CHR ''/'') (hq_url rq) = split_on (CHR ''/'') (ac_internalURL demo_as_client) @ [''identity'', ''connections'', seg]"
    by (auto simp: addressed_def list_all2_Cons1)
  moreover have "split_on (CHR ''/'') (hq_url rq) = [''https:'', '''', ''as'', ''identity'', ''connections'', ''c%201'']"
    using dpop_attempts_sent [of rq demo_as demo_as_client 7 "''DELETE''" "''https://as/identity/connections/c%201''" "''at''" "''''" None 2 "''''" 0] d
    by (simp add: dpopDo_def) (simp add: demo_as_client_def)
  ultimately show ?thesis using s by blast
qed

theorem refused_sign_in_is_revoked_witness:
  "\<exists>e rqs revoked c' w'. exchangeSignIn demo_as demo_as_client 7 ''code'' ''ver'' (demo_check ''other'') 0 = ((Inl e, rqs @ revoked), c', w')
     \<and> revoked \<noteq> []"
proof -
  obtain t rqs where x: "exchangeCode demo_as demo_as_client 7 ''code'' ''ver'' 0 = ((Inr t, rqs), 1)" "tk_IDToken t = ''idt''" "tk_RefreshToken t \<noteq> ''''"
    using demo_exchangeCode by fastforce
  have i: "ac_issuer demo_as_client \<noteq> ''''" "tc_Nonce (demo_check ''other'') \<noteq> ''''"
    by (simp_all add: demo_as_client_def demo_check_def)
  have k: "checkIDToken demo_as demo_as_client (tk_IDToken t) (demo_check ''other'') 1
      = (Inl (IDTokenRefused ''it does not carry the nonce this sign-in sent''), demo_as_client, 1)"
    using demo_checkIDToken [of "''other''"] x(2) by simp
  have "oe_request_ok (ae_out demo_as) ''POST'' u" "is_ok (fst (client_proof ((ae_out demo_as)\<lparr>oe_key := 7\<rparr>) ''POST'' u '''' '''' 1))" for u
    unfolding demo_key demo_as_proof by (simp_all add: demo_as_def demo_as_out_def demo_env_def)
  with refused_sign_in_is_revoked [OF demo_cid_clear i x(1) k x(3)] show ?thesis by blast
qed

end
