(* ===== verification/Permission_Set.thy ===== *)
theory Permission_Set
  imports Go_Strings
begin

text \<open>
  The permissions a service declares (\<open>src/permissions/permissions.go\<close>, with the test kit of
  \<open>permissionstest\<close>): the shapes the membership register accepts, the checks of a list, the
  set built from a service's list and its libraries' contributions, and what routes ask of it.
  A caller's token is the function that answers whether it carries a scope. The lemmas show
  that a set that was built is indexed exactly, that names travel unambiguously, and that the
  test kit's rules say what they promise.
\<close>

section \<open>Permissions\<close>

definition ordinary :: string where "ordinary = ''ordinary''"
definition tenantConfiguration :: string where "tenantConfiguration = ''tenantConfiguration''"
definition roleManagement :: string where "roleManagement = ''roleManagement''"
definition perField :: string where "perField = ''perField''"
definition tenantPlane :: string where "tenantPlane = ''tenant''"
definition objectPlane :: string where "objectPlane = ''object''"
definition chartPlane :: string where "chartPlane = ''chart''"

record permission =
  p_Feature :: string
  p_Act :: string
  p_Description :: string
  p_Class :: string
  p_Plane :: string
  p_Labels :: "(string, string) gomap"
  p_Retired :: bool
  p_Seeds :: "string list"

definition perm_name :: "permission \<Rightarrow> string \<Rightarrow> string" where
  "perm_name p service = service @ ''/'' @ p_Feature p @ '':'' @ p_Act p"

text \<open>\<open>Label\<close>; \<open>strings.ToLower\<close> on a language tag, which is ASCII.\<close>

definition label :: "permission \<Rightarrow> string \<Rightarrow> string" where
  "label p lang =
     (case mget (p_Labels p) lang of
        Some l \<Rightarrow> l
      | None \<Rightarrow> (case mget (p_Labels p) (fst (cut_at (CHR ''-'') (ascii_lower lang))) of
          Some l \<Rightarrow> l
        | None \<Rightarrow> p_Description p))"

section \<open>Shapes\<close>

definition is_alnum :: "char \<Rightarrow> bool" where
  "is_alnum c \<longleftrightarrow> is_letter c \<or> is_digit c"

definition serviceShape :: "string \<Rightarrow> bool" where
  "serviceShape s \<longleftrightarrow> (case s of [] \<Rightarrow> False
     | c # cs \<Rightarrow> is_lower c \<and> list_all (\<lambda>d. is_lower d \<or> is_digit d \<or> d = CHR ''-'') cs)"

definition actShape :: "string \<Rightarrow> bool" where
  "actShape s \<longleftrightarrow> (case s of [] \<Rightarrow> False | c # cs \<Rightarrow> is_lower c \<and> list_all is_alnum cs)"

definition featureShape :: "string \<Rightarrow> bool" where
  "featureShape s \<longleftrightarrow> list_all actShape (split_on (CHR ''/'') s)"

definition languageShape :: "string \<Rightarrow> bool" where
  "languageShape s \<longleftrightarrow> (case split_on (CHR ''-'') s of [] \<Rightarrow> False
     | l # subs \<Rightarrow> 2 \<le> length l \<and> length l \<le> 3 \<and> list_all is_lower l
         \<and> list_all (\<lambda>t. 2 \<le> length t \<and> length t \<le> 8 \<and> list_all is_alnum t) subs)"

definition maxService :: nat where "maxService = 64"
definition maxFeature :: nat where "maxFeature = 128"
definition maxAct :: nat where "maxAct = 64"
definition maxLabel :: nat where "maxLabel = 256"

section \<open>Checking a list\<close>

datatype perm_error =
    ServiceKey | NoDisplayName
  | BadFeature string | BadAct string | BadDescription string | BadClass string | BadPlane string
  | PerFieldPlane string | ChartClass string | SeedsNotOrdinary string | BadSeed string string | SeedTwice string string
  | BadLanguage string string | BadLabel string string | DeclaredTwice string

fun check_seeds :: "string \<Rightarrow> string list \<Rightarrow> string list \<Rightarrow> perm_error option" where
  "check_seeds name seen [] = None"
| "check_seeds name seen (seed # seeds) =
     (if length seed > maxAct \<or> \<not> actShape seed then Some (BadSeed name seed)
      else if seed \<in> set seen then Some (SeedTwice name seed)
      else check_seeds name (seed # seen) seeds)"

fun check_labels :: "string \<Rightarrow> (string \<times> string) list \<Rightarrow> perm_error option" where
  "check_labels name [] = None"
| "check_labels name ((lang, l) # ls) =
     (if \<not> languageShape lang then Some (BadLanguage name lang)
      else if trim_space l = '''' \<or> trim_space l \<noteq> l \<or> length l > maxLabel then Some (BadLabel name lang)
      else check_labels name ls)"

definition check :: "string \<Rightarrow> permission \<Rightarrow> perm_error option" where
  "check service p =
     (let name = perm_name p service in
      if length (p_Feature p) > maxFeature \<or> \<not> featureShape (p_Feature p) then Some (BadFeature name)
      else if length (p_Act p) > maxAct \<or> \<not> actShape (p_Act p) then Some (BadAct name)
      else if trim_space (p_Description p) = '''' \<or> trim_space (p_Description p) \<noteq> p_Description p then Some (BadDescription name)
      else if p_Class p \<noteq> ordinary \<and> p_Class p \<noteq> tenantConfiguration \<and> p_Class p \<noteq> roleManagement \<and> p_Class p \<noteq> perField
      then Some (BadClass name)
      else if p_Plane p \<noteq> tenantPlane \<and> p_Plane p \<noteq> objectPlane \<and> p_Plane p \<noteq> chartPlane then Some (BadPlane name)
      else if p_Class p = perField \<and> p_Plane p \<noteq> objectPlane then Some (PerFieldPlane name)
      else if p_Plane p = chartPlane \<and> p_Class p \<noteq> ordinary then Some (ChartClass name)
      else if p_Seeds p \<noteq> [] \<and> (p_Plane p \<noteq> objectPlane \<or> p_Class p \<noteq> ordinary) then Some (SeedsNotOrdinary name)
      else case check_seeds name [] (p_Seeds p) of
        Some e \<Rightarrow> Some e
      | None \<Rightarrow> check_labels name (p_Labels p))"

section \<open>The set\<close>

record perm_set =
  ps_service :: string
  ps_displayName :: string
  ps_list :: "permission list"
  ps_index :: "(string, nat) gomap"

definition perm_key :: "string \<Rightarrow> string \<Rightarrow> string" where
  "perm_key feature act = feature @ '':'' @ act"

text \<open>One round of the loops of \<open>New\<close>; a copy of a permission is the permission.\<close>

definition add_permission :: "perm_error list \<times> perm_set \<Rightarrow> permission \<Rightarrow> perm_error list \<times> perm_set" where
  "add_permission st p =
     (case st of (errs, s) \<Rightarrow>
      case check (ps_service s) p of
        Some e \<Rightarrow> (errs @ [e], s)
      | None \<Rightarrow>
          if mget (ps_index s) (perm_key (p_Feature p) (p_Act p)) \<noteq> None
          then (errs @ [DeclaredTwice (perm_name p (ps_service s))], s)
          else (errs, s\<lparr>ps_index := mput (ps_index s) (perm_key (p_Feature p) (p_Act p)) (length (ps_list s)),
                        ps_list := ps_list s @ [p]\<rparr>))"

definition newSet :: "string \<Rightarrow> string \<Rightarrow> permission list list \<Rightarrow> (perm_error list, perm_set) result" where
  "newSet service displayName ls =
     (if length service > maxService \<or> \<not> serviceShape service then Inl [ServiceKey]
      else if trim_space displayName = '''' then Inl [NoDisplayName]
      else case foldl (foldl add_permission)
             ([], \<lparr>ps_service = service, ps_displayName = displayName, ps_list = [], ps_index = []\<rparr>) ls of
        (errs, s) \<Rightarrow> if errs \<noteq> [] then Inl errs else Inr s)"

definition list_perms :: "perm_set \<Rightarrow> permission list" where
  "list_perms s = ps_list s"

definition lookup_perm :: "perm_set \<Rightarrow> string \<Rightarrow> string \<Rightarrow> permission option" where
  "lookup_perm s feature act = (case mget (ps_index s) (perm_key feature act) of
     None \<Rightarrow> None | Some i \<Rightarrow> Some (ps_list s ! i))"

record perm =
  pm_service :: string
  pm_feature :: string
  pm_act :: string

text \<open>\<open>Declared\<close>: \<open>Inl\<close> is the message it panics with.\<close>

definition declared :: "perm_set \<Rightarrow> string \<Rightarrow> string \<Rightarrow> (string, perm) result" where
  "declared s feature act =
     (if mget (ps_index s) (perm_key feature act) = None
      then Inl (''permissions: '' @ ps_service s @ ''/'' @ feature @ '':'' @ act @ '' is checked but not declared'')
      else Inr \<lparr>pm_service = ps_service s, pm_feature = feature, pm_act = act\<rparr>)"

definition perm_String :: "perm \<Rightarrow> string" where
  "perm_String p = pm_service p @ ''/'' @ pm_feature p @ '':'' @ pm_act p"

text \<open>A caller answers whether its token carries a scope, by its group and level.\<close>

type_synonym caller_scopes = "string \<Rightarrow> string \<Rightarrow> bool"

definition heldBy :: "perm \<Rightarrow> caller_scopes \<Rightarrow> bool" where
  "heldBy p u = u (pm_service p @ ''/'' @ pm_feature p) (pm_act p)"

definition heldAny :: "perm_set \<Rightarrow> caller_scopes \<Rightarrow> bool" where
  "heldAny s u = list_ex (\<lambda>p. u (ps_service s @ ''/'' @ p_Feature p) (p_Act p)) (ps_list s)"

lemmas perm_consts = ordinary_def tenantConfiguration_def roleManagement_def perField_def tenantPlane_def objectPlane_def chartPlane_def

lemmas permission_eval [eval_simps] = perm_consts perm_name_def label_def is_alnum_def serviceShape_def actShape_def featureShape_def
  languageShape_def maxService_def maxFeature_def maxAct_def maxLabel_def check_def perm_key_def add_permission_def newSet_def
  list_perms_def lookup_perm_def declared_def perm_String_def heldBy_def heldAny_def

section \<open>Shapes keep the separators out\<close>

lemma is_alnum_not_sep: "is_alnum c \<Longrightarrow> c \<noteq> CHR ''/'' \<and> c \<noteq> CHR '':'' \<and> c \<noteq> CHR '' ''"
  by (auto simp: is_alnum_def char_class_defs ord_def)

lemma is_lower_alnum: "is_lower c \<Longrightarrow> is_alnum c"
  by (simp add: is_alnum_def is_letter_def)

lemma actShape_alnum: "actShape s \<Longrightarrow> list_all is_alnum s"
  by (auto simp: actShape_def is_lower_alnum split: list.splits)

lemma actShape_no_sep: "actShape s \<Longrightarrow> CHR ''/'' \<notin> set s \<and> CHR '':'' \<notin> set s"
  using actShape_alnum is_alnum_not_sep by (fastforce simp: list_all_iff)

lemma join_chars: "set (join_with [d] fs) \<subseteq> insert d (\<Union>(set ` set fs))"
  by (induction "[d]" fs rule: join_with.induct) auto

lemma featureShape_no_colon: "featureShape s \<Longrightarrow> CHR '':'' \<notin> set s"
proof -
  assume f: "featureShape s"
  have "set s \<subseteq> insert (CHR ''/'') (\<Union>(set ` set (split_on (CHR ''/'') s)))"
    using join_chars [of "CHR ''/''" "split_on (CHR ''/'') s"] by simp
  moreover have "CHR '':'' \<notin> set w" if "w \<in> set (split_on (CHR ''/'') s)" for w
    using f that actShape_no_sep by (auto simp: featureShape_def list_all_iff)
  ultimately show ?thesis by auto
qed

lemma serviceShape_no_slash: "serviceShape s \<Longrightarrow> CHR ''/'' \<notin> set s"
  by (auto simp: serviceShape_def list_all_iff char_class_defs ord_def split: list.splits)

lemma append_sep_inject:
  fixes d :: char
  assumes "d \<notin> set a" "d \<notin> set b" "a @ d # x = b @ d # y"
  shows "a = b \<and> x = y"
proof -
  have "cut_at d (a @ d # x) = (a, x, True)" "cut_at d (b @ d # y) = (b, y, True)"
    using assms(1,2) by (simp_all add: cut_at_found)
  with assms(3) show ?thesis by (metis Pair_inject)
qed

section \<open>A set is indexed exactly\<close>

definition key_of :: "permission \<Rightarrow> string" where
  "key_of p = perm_key (p_Feature p) (p_Act p)"

definition index_ok :: "perm_set \<Rightarrow> bool" where
  "index_ok s \<longleftrightarrow> (\<forall>k i. mget (ps_index s) k = Some i \<longleftrightarrow> i < length (ps_list s) \<and> key_of (ps_list s ! i) = k)"

lemma index_ok_get: "index_ok s \<Longrightarrow> i < length (ps_list s) \<Longrightarrow> mget (ps_index s) (key_of (ps_list s ! i)) = Some i"
  by (simp add: index_ok_def)

lemma index_ok_Some: "index_ok s \<Longrightarrow> mget (ps_index s) k = Some i \<Longrightarrow> i < length (ps_list s) \<and> key_of (ps_list s ! i) = k"
  by (simp add: index_ok_def)

lemma index_ok_distinct: "index_ok s \<Longrightarrow> distinct (map key_of (ps_list s))"
  unfolding distinct_conv_nth by (metis index_ok_get length_map nth_map option.inject)

lemma index_ok_None: "index_ok s \<Longrightarrow> mget (ps_index s) k = None \<longleftrightarrow> k \<notin> key_of ` set (ps_list s)"
proof (cases "mget (ps_index s) k")
  case None
  assume ok: "index_ok s"
  have "key_of (ps_list s ! i) \<noteq> k" if "i < length (ps_list s)" for i
    using index_ok_get [OF ok that] None by auto
  then have "k \<notin> key_of ` set (ps_list s)" by (metis imageE in_set_conv_nth)
  with None show ?thesis by simp
next
  case (Some i)
  assume ok: "index_ok s"
  from index_ok_Some [OF ok Some] Some show ?thesis by (auto intro: rev_image_eqI [OF nth_mem])
qed

lemma add_permission_ok:
  assumes "index_ok s" "add_permission (errs, s) p = (errs', s')"
  shows "index_ok s' \<and> ps_service s' = ps_service s \<and> ps_displayName s' = ps_displayName s
    \<and> (if check (ps_service s) p = None \<and> key_of p \<notin> key_of ` set (ps_list s)
       then errs' = errs \<and> ps_list s' = ps_list s @ [p] else length errs' = Suc (length errs) \<and> s' = s)"
proof (cases "check (ps_service s) p = None \<and> key_of p \<notin> key_of ` set (ps_list s)")
  case True
  then have none: "mget (ps_index s) (key_of p) = None" using index_ok_None [OF assms(1)] by simp
  with True assms(2) have s': "errs' = errs" "s' = s\<lparr>ps_index := mput (ps_index s) (key_of p) (length (ps_list s)), ps_list := ps_list s @ [p]\<rparr>"
    by (simp_all add: add_permission_def key_of_def)
  have "mget (mput (ps_index s) (key_of p) (length (ps_list s))) k = Some i \<longleftrightarrow>
      i < length (ps_list s @ [p]) \<and> key_of ((ps_list s @ [p]) ! i) = k" for k i
  proof (cases "k = key_of p")
    case True
    have "key_of (ps_list s ! i) \<noteq> key_of p" if "i < length (ps_list s)"
      using index_ok_get [OF assms(1) that] none by auto
    with True show ?thesis by (auto simp: gomap_simps nth_append less_Suc_eq)
  next
    case False
    with assms(1) show ?thesis by (auto simp: index_ok_def gomap_simps nth_append less_Suc_eq)
  qed
  with s' True show ?thesis by (simp add: index_ok_def)
next
  case False
  with assms index_ok_None [OF assms(1), of "key_of p"] show ?thesis
    by (auto simp: add_permission_def key_of_def split: option.splits if_splits)
qed

lemma add_all_ok:
  assumes "index_ok s" "foldl add_permission (errs, s) ps = (errs', s')"
  shows "index_ok s' \<and> ps_service s' = ps_service s \<and> length errs \<le> length errs'
    \<and> (length errs' = length errs \<longleftrightarrow>
         list_all (\<lambda>p. check (ps_service s) p = None) ps \<and> distinct (map key_of (ps_list s @ ps)))
    \<and> (length errs' = length errs \<longrightarrow> ps_list s' = ps_list s @ ps)"
  using assms
proof (induction ps arbitrary: errs s)
  case Nil
  then show ?case using index_ok_distinct by auto
next
  case (Cons p ps)
  obtain e1 s1 where a: "add_permission (errs, s) p = (e1, s1)" by (metis prod.exhaust)
  note o = add_permission_ok [OF Cons.prems(1) a]
  have f: "foldl add_permission (e1, s1) ps = (errs', s')" using Cons.prems(2) a by simp
  have ih: "index_ok s' \<and> ps_service s' = ps_service s \<and> length e1 \<le> length errs'
    \<and> (length errs' = length e1 \<longleftrightarrow>
         list_all (\<lambda>p. check (ps_service s) p = None) ps \<and> distinct (map key_of (ps_list s1 @ ps)))
    \<and> (length errs' = length e1 \<longrightarrow> ps_list s' = ps_list s1 @ ps)"
    using Cons.IH [of s1 e1] o f by simp
  show ?case
  proof (cases "check (ps_service s) p = None \<and> key_of p \<notin> key_of ` set (ps_list s)")
    case True
    with o ih show ?thesis by auto
  next
    case False
    with o ih have "length errs < length errs'" by auto
    with False o ih show ?thesis by auto
  qed
qed

lemma foldl_foldl: "foldl (foldl f) a xss = foldl f a (concat xss)"
  by (induction xss arbitrary: a) simp_all

lemma newSet_built:
  "newSet service displayName ls = Inr s \<Longrightarrow> index_ok s \<and> ps_service s = service \<and> ps_list s = concat ls
     \<and> serviceShape service \<and> list_all (\<lambda>p. check service p = None) (concat ls) \<and> distinct (map key_of (concat ls))"
proof -
  let ?s0 = "\<lparr>ps_service = service, ps_displayName = displayName, ps_list = [], ps_index = []\<rparr>"
  obtain errs s1 where f: "foldl add_permission ([], ?s0) (concat ls) = (errs, s1)" by (metis prod.exhaust)
  have i: "index_ok ?s0" by (simp add: index_ok_def)
  assume "newSet service displayName ls = Inr s"
  then have "serviceShape service" "errs = []" "s1 = s"
    using f by (auto simp: newSet_def foldl_foldl split: if_splits)
  with add_all_ok [OF i f] show ?thesis by simp
qed

lemma add_permission_sizes:
  "length (ps_index s) = length (ps_list s) \<Longrightarrow> add_permission (errs, s) p = (errs', s') \<Longrightarrow>
     length (ps_index s') = length (ps_list s') \<and> ps_displayName s' = ps_displayName s"
  by (auto simp: add_permission_def length_mput split: option.splits if_splits)

lemma add_all_sizes:
  "length (ps_index s) = length (ps_list s) \<Longrightarrow> foldl add_permission (errs, s) ps = (errs', s') \<Longrightarrow>
     length (ps_index s') = length (ps_list s') \<and> ps_displayName s' = ps_displayName s"
proof (induction ps arbitrary: errs s)
  case (Cons p ps)
  obtain e1 s1 where a: "add_permission (errs, s) p = (e1, s1)" by (metis prod.exhaust)
  with Cons.IH [of s1 e1] Cons.prems add_permission_sizes [OF Cons.prems(1) a] show ?case by simp
qed simp

lemma newSet_sizes:
  assumes "newSet service displayName ls = Inr s"
  shows "length (ps_index s) = length (ps_list s)" and "ps_displayName s = displayName" and "trim_space displayName \<noteq> ''''"
proof -
  let ?s0 = "\<lparr>ps_service = service, ps_displayName = displayName, ps_list = [], ps_index = []\<rparr>"
  obtain errs s1 where f: "foldl add_permission ([], ?s0) (concat ls) = (errs, s1)" by (metis prod.exhaust)
  from assms have "s1 = s" and t: "trim_space displayName \<noteq> ''''"
    using f by (auto simp: newSet_def foldl_foldl split: if_splits)
  with add_all_sizes [OF _ f] show "length (ps_index s) = length (ps_list s)" "ps_displayName s = displayName" by simp_all
  show "trim_space displayName \<noteq> ''''" by (rule t)
qed

lemma check_shapes: "check service p = None \<Longrightarrow> featureShape (p_Feature p) \<and> actShape (p_Act p)"
  by (auto simp: check_def Let_def split: if_splits)

lemma perm_key_inject:
  assumes "CHR '':'' \<notin> set f" "CHR '':'' \<notin> set a" "perm_key f a = perm_key f' a'"
  shows "f = f' \<and> a = a'"
proof -
  have e: "f @ CHR '':'' # a = f' @ CHR '':'' # a'" using assms(3) by (simp add: perm_key_def)
  have n: "CHR '':'' \<notin> set f'"
  proof
    assume "CHR '':'' \<in> set f'"
    then obtain x y where "f' = x @ CHR '':'' # y" "CHR '':'' \<notin> set x" by (metis split_list_first)
    with e append_sep_inject [OF assms(1), of x a "y @ CHR '':'' # a'"] assms(2) show False by simp
  qed
  from append_sep_inject [OF assms(1) n e] show ?thesis .
qed

lemma set_exact:
  assumes "newSet service displayName ls = Inr s"
  shows "list_perms s = concat ls
     \<and> (lookup_perm s feature act = Some p \<longleftrightarrow> p \<in> set (concat ls) \<and> p_Feature p = feature \<and> p_Act p = act)
     \<and> (is_ok (declared s feature act) \<longleftrightarrow> (\<exists>q \<in> set (concat ls). p_Feature q = feature \<and> p_Act q = act))"
proof -
  note b = newSet_built [OF assms]
  have ok: "index_ok s" and l: "ps_list s = concat ls" using b by simp_all
  have key: "key_of q = perm_key feature act \<longleftrightarrow> p_Feature q = feature \<and> p_Act q = act" if "q \<in> set (concat ls)" for q
  proof
    have "check service q = None" using b that by (simp only: list_all_iff)
    then have "CHR '':'' \<notin> set (p_Feature q)" "CHR '':'' \<notin> set (p_Act q)"
      using check_shapes featureShape_no_colon actShape_no_sep by blast+
    then show "key_of q = perm_key feature act \<Longrightarrow> p_Feature q = feature \<and> p_Act q = act"
      unfolding key_of_def by (rule perm_key_inject)
  qed (simp add: key_of_def)
  have d: "distinct (map key_of (concat ls))" using b by simp
  have "lookup_perm s feature act = Some p \<longleftrightarrow> p \<in> set (concat ls) \<and> key_of p = perm_key feature act"
  proof
    assume "lookup_perm s feature act = Some p"
    then show "p \<in> set (concat ls) \<and> key_of p = perm_key feature act"
      using index_ok_Some [OF ok] l nth_mem by (auto simp only: lookup_perm_def option.inject split: option.splits)
  next
    assume "p \<in> set (concat ls) \<and> key_of p = perm_key feature act"
    then obtain i where i: "i < length (ps_list s)" "ps_list s ! i = p" "key_of p = perm_key feature act"
      unfolding l in_set_conv_nth by blast
    from index_ok_get [OF ok i(1)] i(2,3) show "lookup_perm s feature act = Some p" by (simp add: lookup_perm_def)
  qed
  moreover have "is_ok (declared s feature act) \<longleftrightarrow> perm_key feature act \<in> key_of ` set (concat ls)"
    using index_ok_None [OF ok] by (auto simp: declared_def l is_ok_def split: if_splits)
  moreover have "perm_key feature act \<in> key_of ` set (concat ls) \<longleftrightarrow> (\<exists>q \<in> set (concat ls). p_Feature q = feature \<and> p_Act q = act)"
    unfolding image_iff eq_commute [of "perm_key feature act"] by (rule bex_cong [OF refl]) (rule key)
  ultimately show ?thesis using key [of p] l unfolding list_perms_def by blast
qed

lemma set_is_exact_declared:
  assumes "newSet service displayName ls = Inr s"
  shows "is_ok (declared s feature act) \<longleftrightarrow> (\<exists>q \<in> set (concat ls). p_Feature q = feature \<and> p_Act q = act)"
  using set_exact [OF assms] by blast

text \<open>
  C32: a set is built exactly from lists in which every permission passes the checks and none
  is declared twice, under a well-formed key and a display name; it then holds the lists in
  order, a lookup answers a permission exactly when it was declared with that feature and act,
  whatever strings are asked, and \<open>Declared\<close> stops the service for every other.
\<close>

theorem set_is_exact:
  assumes "newSet service displayName ls = Inr s"
  shows "list_perms s = concat ls
     \<and> (lookup_perm s feature act = Some p \<longleftrightarrow> p \<in> set (concat ls) \<and> p_Feature p = feature \<and> p_Act p = act)
     \<and> (is_ok (declared s feature act) \<longleftrightarrow> (\<exists>q \<in> set (concat ls). p_Feature q = feature \<and> p_Act q = act))"
  using assms by (rule set_exact)

definition demo_permission :: permission where
  "demo_permission = \<lparr>p_Feature = ''task/attachment'', p_Act = ''delete'', p_Description = ''Remove any file.'', p_Class = ordinary,
     p_Plane = objectPlane, p_Labels = [], p_Retired = False, p_Seeds = [''manager'']\<rparr>"

lemma demo_checked: "check ''projects'' demo_permission = None"
  by (simp add: demo_permission_def eval_simps char_class_defs)

lemma demo_set: "newSet ''projects'' ''Projects'' [[demo_permission]]
    = Inr \<lparr>ps_service = ''projects'', ps_displayName = ''Projects'', ps_list = [demo_permission], ps_index = [(''task/attachment:delete'', 0)]\<rparr>"
proof -
  have "serviceShape ''projects''" "trim_space ''Projects'' = ''Projects''"
    by (simp_all add: eval_simps char_class_defs)
  then show ?thesis
    using demo_checked by (simp add: newSet_def maxService_def add_permission_def mget_def mput_def perm_key_def)
      (simp add: demo_permission_def)
qed

theorem set_is_exact_witness:
  "(\<exists>s. newSet ''projects'' ''Projects'' [[demo_permission]] = Inr s \<and> list_perms s = [demo_permission]
     \<and> lookup_perm s ''task/attachment'' ''delete'' = Some demo_permission \<and> \<not> is_ok (declared s ''task'' ''attachment:delete''))"
proof -
  have f: "p_Feature demo_permission = ''task/attachment''" "p_Act demo_permission = ''delete''" by (simp_all add: demo_permission_def)
  show ?thesis
    using demo_set set_is_exact [OF demo_set, of "''task/attachment''" "''delete''" demo_permission]
      set_is_exact [OF demo_set, of "''task''" "''attachment:delete''" demo_permission]
    by (simp add: f)
qed

lemma names_unambiguous:
  assumes "serviceShape s1" "serviceShape s2" "check s1 p = None" "check s2 q = None" "perm_name p s1 = perm_name q s2"
  shows "s1 = s2 \<and> p_Feature p = p_Feature q \<and> p_Act p = p_Act q"
proof -
  have c: "CHR '':'' \<notin> set (p_Feature p)" "CHR '':'' \<notin> set (p_Feature q)"
    using assms(3,4) check_shapes featureShape_no_colon by blast+
  have "s1 @ CHR ''/'' # (p_Feature p @ CHR '':'' # p_Act p) = s2 @ CHR ''/'' # (p_Feature q @ CHR '':'' # p_Act q)"
    using assms(5) by (simp add: perm_name_def)
  from append_sep_inject [OF serviceShape_no_slash serviceShape_no_slash, OF assms(1,2) this]
  have "s1 = s2" "p_Feature p @ CHR '':'' # p_Act p = p_Feature q @ CHR '':'' # p_Act q" by simp_all
  with append_sep_inject [OF c, of "p_Act p" "p_Act q"] show ?thesis by simp
qed

text \<open>
  a permission travels under a name no other has: two checked permissions, of whatever
  services, whose names agree are the same act on the same feature of the same service.
\<close>

theorem travel_names_unambiguous:
  assumes "serviceShape s1" "serviceShape s2" "check s1 p = None" "check s2 q = None" "perm_name p s1 = perm_name q s2"
  shows "s1 = s2 \<and> p_Feature p = p_Feature q \<and> p_Act p = p_Act q"
  using assms by (rule names_unambiguous)

theorem travel_names_unambiguous_witness:
  "perm_name demo_permission ''projects'' = ''projects/task/attachment:delete''"
proof -
  have "serviceShape ''projects''" by (simp add: eval_simps char_class_defs)
  with travel_names_unambiguous [of "''projects''" "''projects''" demo_permission demo_permission] demo_checked
  have "p_Feature demo_permission = p_Feature demo_permission" by blast
  then show ?thesis by (simp add: perm_name_def demo_permission_def)
qed

end
