(* ===== verification/Permission_Section.thy ===== *)
theory Permission_Section
  imports Permission_Set Go_Json "HOL-Library.List_Lexorder" "HOL-Library.Char_ord"
begin

text \<open>
  The set of permissions as the membership register's document: \<open>Section\<close> of
  \<open>src/permissions/permissions.go\<close> to the byte, with the JSON names and the omitted empty
  members of \<open>Permission\<close>, and the \<open>permissions\<close> command of \<open>src/permissions/command.go\<close>
  that prints it. The lemmas show that the printed document reads back, and that two sets
  print the same bytes exactly when they declare the same permissions.
\<close>

section \<open>The document\<close>

text \<open>A map of strings is written with its keys in order.\<close>

definition map_json :: "(string, string) gomap \<Rightarrow> json" where
  "map_json m = Obj (map (\<lambda>(k, v). (k, Str v)) (sort_key fst m))"

definition permission_json :: "permission \<Rightarrow> json" where
  "permission_json p = Obj
     ([(''feature'', Str (p_Feature p)), (''act'', Str (p_Act p)), (''description'', Str (p_Description p)),
       (''class'', Str (p_Class p)), (''plane'', Str (p_Plane p))]
      @ (if p_Labels p \<noteq> [] then [(''labels'', map_json (p_Labels p))] else [])
      @ (if p_Retired p then [(''retired'', Bool True)] else [])
      @ (if p_Seeds p \<noteq> [] then [(''seeds'', Arr (map Str (p_Seeds p)))] else []))"

definition section_json :: "perm_set \<Rightarrow> json" where
  "section_json s = Obj [(''services'', Arr [Obj
     [(''key'', Str (ps_service s)), (''displayName'', Str (ps_displayName s)),
      (''permissions'', Arr (map permission_json (list_perms s)))]])]"

definition section_bytes :: "perm_set \<Rightarrow> bytes" where
  "section_bytes s = marshal_indent (section_json s)"

text \<open>
  What the command runs: writing these types as JSON does not fail, so what may is \<open>write\<close>, the
  standard output.
\<close>

definition run_command :: "(bytes \<Rightarrow> 'w \<Rightarrow> 'e option \<times> 'w) \<Rightarrow> perm_set \<Rightarrow> 'w \<Rightarrow> 'e option \<times> 'w" where
  "run_command write s w = write (section_bytes s @ [CHR 0x0A]) w"

section \<open>Texts\<close>

lemma rune_chunks_ascii: "list_all is_ascii s \<Longrightarrow> rune_chunks s = map (\<lambda>c. (ord c, [c])) s"
  by (induction s) (simp_all add: decode_rune_ascii)

lemma ascii_valid: "list_all is_ascii s \<Longrightarrow> utf8_valid s"
  by (auto simp: utf8_valid_def rune_chunks_ascii list_all_iff is_ascii_def rune_error_def)

lemma shape_chars_ascii: "is_lower c \<Longrightarrow> is_ascii c" "is_digit c \<Longrightarrow> is_ascii c" "is_alnum c \<Longrightarrow> is_ascii c"
  by (auto simp: char_class_defs is_alnum_def)

lemma serviceShape_ascii: "serviceShape s \<Longrightarrow> list_all is_ascii s"
proof (cases s)
  case (Cons c cs)
  moreover have "is_ascii (CHR ''-'')" by (simp add: is_ascii_def ord_def)
  moreover assume "serviceShape s"
  ultimately show ?thesis using shape_chars_ascii(1,2) unfolding serviceShape_def by (auto simp: list_all_iff)
qed simp

lemma actShape_ascii: "actShape s \<Longrightarrow> list_all is_ascii s"
  by (cases s) (auto simp: actShape_def list_all_iff shape_chars_ascii)

lemma split_ascii: "is_ascii d \<Longrightarrow> list_all (list_all is_ascii) (split_on d s) \<Longrightarrow> list_all is_ascii s"
proof (induction s)
  case (Cons c s)
  then show ?case by (cases "c = d"; cases "split_on d s") auto
qed simp

lemma featureShape_ascii: "featureShape s \<Longrightarrow> list_all is_ascii s"
  by (rule split_ascii [of "CHR ''/''"])
    (simp add: is_ascii_def ord_def, simp add: featureShape_def list_all_iff [of "list_all is_ascii"] list_all_iff [of actShape] actShape_ascii)

lemma languageShape_ascii: "languageShape s \<Longrightarrow> list_all is_ascii s"
proof (rule split_ascii [of "CHR ''-''"])
  assume l: "languageShape s"
  obtain f fs where f: "split_on (CHR ''-'') s = f # fs" by (cases "split_on (CHR ''-'') s") auto
  with l have "list_all is_lower f" "list_all (list_all is_alnum) fs" by (auto simp: languageShape_def list_all_iff)
  then show "list_all (list_all is_ascii) (split_on (CHR ''-'') s)" unfolding f by (auto simp: list_all_iff shape_chars_ascii)
qed (simp add: is_ascii_def ord_def)

text \<open>What the checks leave free: the description and the labels.\<close>

lemma check_labels_languages: "check_labels n ls = None \<Longrightarrow> list_all (\<lambda>(lang, l). languageShape lang) ls"
  by (induction n ls rule: check_labels.induct) (auto split: if_splits)

lemma check_seeds_acts: "check_seeds n seen xs = None \<Longrightarrow> list_all actShape xs"
  by (induction n seen xs rule: check_seeds.induct) (auto split: if_splits)

lemma checked_texts:
  assumes "check service p = None"
  shows "utf8_valid (p_Feature p)" "utf8_valid (p_Act p)" "utf8_valid (p_Class p)" "utf8_valid (p_Plane p)"
    "list_all utf8_valid (p_Seeds p)" "list_all (\<lambda>(lang, l). utf8_valid lang) (p_Labels p)"
proof -
  have c: "featureShape (p_Feature p)" "actShape (p_Act p)" "p_Class p \<in> {ordinary, tenantConfiguration, roleManagement, perField}"
    "p_Plane p \<in> {tenantPlane, objectPlane, chartPlane}" "list_all actShape (p_Seeds p)" "list_all (\<lambda>(lang, l). languageShape lang) (p_Labels p)"
    using assms unfolding check_def Let_def
    by (auto split: if_splits option.splits dest: check_labels_languages check_seeds_acts)
  then show "utf8_valid (p_Feature p)" "utf8_valid (p_Act p)" "list_all utf8_valid (p_Seeds p)"
      "list_all (\<lambda>(lang, l). utf8_valid lang) (p_Labels p)"
    using ascii_valid featureShape_ascii actShape_ascii languageShape_ascii by (auto simp: list_all_iff)
  show "utf8_valid (p_Class p)" "utf8_valid (p_Plane p)"
    using c(3,4) by (auto simp: perm_consts is_ascii_def ord_def intro!: ascii_valid)
qed

definition permission_texts :: "permission \<Rightarrow> bool" where
  "permission_texts p \<longleftrightarrow> utf8_valid (p_Description p) \<and> list_all (\<lambda>(lang, l). utf8_valid l) (p_Labels p)"

definition set_texts :: "perm_set \<Rightarrow> bool" where
  "set_texts s \<longleftrightarrow> utf8_valid (ps_displayName s) \<and> list_all permission_texts (list_perms s)"

section \<open>The document reads back\<close>

lemma map_json_fine: "numbers_ok (map_json m)" "depth (map_json m) = 1"
    "texts_valid (map_json m) \<longleftrightarrow> list_all (\<lambda>(k, l). utf8_valid k \<and> utf8_valid l) m"
proof -
  have "fold max (map (\<lambda>(k, v). depth v) (map (\<lambda>(k, v). (k, Str v)) xs)) 0 = 0" for xs :: "(string \<times> string) list"
    by (induction xs) auto
  then show "depth (map_json m) = 1" by (simp add: map_json_def)
qed (auto simp: map_json_def list_all_iff)

lemma permission_json_fine: "numbers_ok (permission_json p)" "depth (permission_json p) \<le> 2"
proof -
  have s: "fold max (map depth (map Str xs)) 0 = 0" for xs by (induction xs) auto
  show "numbers_ok (permission_json p)" by (auto simp: permission_json_def map_json_fine list_all_iff)
  show "depth (permission_json p) \<le> 2" using s [of "p_Seeds p"] by (simp add: permission_json_def map_json_fine)
qed

lemma section_json_fine: "numbers_ok (section_json s)" "depth (section_json s) \<le> maxNestingDepth"
proof -
  show "numbers_ok (section_json s)" by (simp add: section_json_def permission_json_fine list_all_iff)
  have "fold max (map depth (map permission_json (list_perms s))) 0 \<le> 2"
    unfolding fold_max_le by (auto simp: permission_json_fine)
  then show "depth (section_json s) \<le> maxNestingDepth" by (simp add: section_json_def maxNestingDepth_def)
qed

text \<open>Whatever its texts, the document reads as written, with what is not UTF-8 replaced.\<close>

lemma read_section:
  "list_all json_space sp \<Longrightarrow> read_json (section_bytes s @ sp) = Some (coerced (section_json s))"
  unfolding section_bytes_def by (rule read_indented) (simp_all add: section_json_fine)

lemma permission_json_texts:
  "check service p = None \<Longrightarrow> permission_texts p \<Longrightarrow> texts_valid (permission_json p)"
proof -
  assume c: "check service p = None" and t: "permission_texts p"
  have n: "utf8_valid ''feature''" "utf8_valid ''act''" "utf8_valid ''description''" "utf8_valid ''class''" "utf8_valid ''plane''"
    "utf8_valid ''labels''" "utf8_valid ''retired''" "utf8_valid ''seeds''"
    by (simp_all add: ascii_valid is_ascii_def ord_def)
  have "list_all (\<lambda>(k, l). utf8_valid k \<and> utf8_valid l) (p_Labels p)"
    using checked_texts(6) [OF c] t by (auto simp: permission_texts_def list_all_iff)
  moreover have "list_all texts_valid (map Str (p_Seeds p))" using checked_texts(5) [OF c] by (simp add: list_all_iff)
  ultimately show ?thesis using n checked_texts(1-4) [OF c] t by (simp add: permission_json_def map_json_fine(3) permission_texts_def)
qed

lemma section_json_texts: "newSet service displayName ls = Inr s \<Longrightarrow> set_texts s \<Longrightarrow> texts_valid (section_json s)"
proof -
  assume n: "newSet service displayName ls = Inr s" and t: "set_texts s"
  have "utf8_valid (ps_service s)" using newSet_built [OF n] by (simp add: ascii_valid serviceShape_ascii)
  moreover have "list_all texts_valid (map permission_json (list_perms s))"
    using newSet_built [OF n] t by (auto simp: set_texts_def list_perms_def list_all_iff intro!: permission_json_texts [of "ps_service s"])
  moreover have "utf8_valid ''services''" "utf8_valid ''key''" "utf8_valid ''displayName''" "utf8_valid ''permissions''"
    by (simp_all add: ascii_valid is_ascii_def ord_def)
  ultimately show ?thesis using t by (simp add: section_json_def set_texts_def)
qed

lemma section_reads_back:
  "newSet service displayName ls = Inr s \<Longrightarrow> set_texts s \<Longrightarrow> list_all json_space sp \<Longrightarrow>
     read_json (section_bytes s @ sp) = Some (section_json s)"
  by (simp add: read_section coerced_valid section_json_texts)

text \<open>The document holds the set: its members in order say which permission, the labels as a map.\<close>

definition same_permission :: "permission \<Rightarrow> permission \<Rightarrow> bool" where
  "same_permission p q \<longleftrightarrow> p_Feature p = p_Feature q \<and> p_Act p = p_Act q \<and> p_Description p = p_Description q
     \<and> p_Class p = p_Class q \<and> p_Plane p = p_Plane q \<and> mget (p_Labels p) = mget (p_Labels q)
     \<and> p_Retired p = p_Retired q \<and> p_Seeds p = p_Seeds q"

lemma sorted_map_unique:
  assumes "gomap_ok m" "gomap_ok n"
  shows "sort_key fst m = sort_key fst n \<longleftrightarrow> mget m = mget (n :: ('k :: linorder, 'v) gomap)"
proof
  assume e: "sort_key fst m = sort_key fst n"
  then have "set m = set n" by (metis set_sort)
  with assms show "mget m = mget n" unfolding gomap_ok_def mget_def by (metis map_of_inject_set)
next
  assume "mget m = mget n"
  with assms have s: "set m = set n" unfolding gomap_ok_def mget_def by (metis map_of_inject_set)
  have i: "inj_on fst (set m)" "distinct m" "distinct n" using assms by (simp_all add: gomap_ok_def distinct_map)
  then show "sort_key fst m = sort_key fst n"
    by (intro map_sorted_distinct_set_unique [of fst]) (simp_all add: s distinct_map)
qed

lemma map_json_inject: "gomap_ok m \<Longrightarrow> gomap_ok n \<Longrightarrow> map_json m = map_json n \<longleftrightarrow> mget m = mget n"
proof -
  assume g: "gomap_ok m" "gomap_ok n"
  have "inj (\<lambda>(k, v). (k, Str v) :: string \<times> json)" by (auto intro!: injI)
  then have "map_json m = map_json n \<longleftrightarrow> sort_key fst m = sort_key fst n" by (auto simp: map_json_def dest: map_injective)
  with sorted_map_unique [OF g] show ?thesis by simp
qed

lemma permission_json_inject:
  assumes "gomap_ok (p_Labels p)" "gomap_ok (p_Labels q)"
  shows "permission_json p = permission_json q \<longleftrightarrow> same_permission p q"
proof -
  have "mget m = map_of m" for m :: "(string, string) gomap" by (intro ext) (simp add: mget_def)
  then have "mget m = Map.empty \<longleftrightarrow> m = []" for m :: "(string, string) gomap" by simp
  then have "mget (p_Labels p) = mget (p_Labels q) \<Longrightarrow> p_Labels p = [] \<longleftrightarrow> p_Labels q = []" by metis
  moreover have "inj Str" by (auto intro!: injI)
  ultimately show ?thesis
    using map_json_inject [OF assms] by (auto simp: permission_json_def same_permission_def inj_map_eq_map split: if_splits)
qed

lemma section_json_inject:
  assumes "list_all (\<lambda>p. gomap_ok (p_Labels p)) (list_perms s)" "list_all (\<lambda>p. gomap_ok (p_Labels p)) (list_perms t)"
  shows "section_json s = section_json t \<longleftrightarrow> ps_service s = ps_service t \<and> ps_displayName s = ps_displayName t
    \<and> list_all2 same_permission (list_perms s) (list_perms t)"
proof -
  have "map permission_json ps = map permission_json qs \<longleftrightarrow> list_all2 same_permission ps qs"
    if "list_all (\<lambda>p. gomap_ok (p_Labels p)) ps" "list_all (\<lambda>p. gomap_ok (p_Labels p)) qs" for ps qs
    using that
  proof (induction ps arbitrary: qs)
    case (Cons p ps)
    then show ?case by (cases qs) (simp_all add: permission_json_inject)
  qed auto
  from this [OF assms] show ?thesis by (simp add: section_json_def)
qed

text \<open>
  What an entry of the document must say of a permission, member by member and independent of how
  it is written: five texts, the labels as a map, the retired mark and the seeds only when
  there are any, and nothing else.
\<close>

fun describes :: "permission \<Rightarrow> json \<Rightarrow> bool" where
  "describes p (Obj ms) \<longleftrightarrow> distinct (map fst ms)
     \<and> map_of ms ''feature'' = Some (Str (p_Feature p)) \<and> map_of ms ''act'' = Some (Str (p_Act p))
     \<and> map_of ms ''description'' = Some (Str (p_Description p))
     \<and> map_of ms ''class'' = Some (Str (p_Class p)) \<and> map_of ms ''plane'' = Some (Str (p_Plane p))
     \<and> (case map_of ms ''labels'' of
          None \<Rightarrow> p_Labels p = []
        | Some v \<Rightarrow> p_Labels p \<noteq> [] \<and> (\<exists>ls. v = Obj ls \<and> distinct (map fst ls) \<and> map_of ls = map_option Str \<circ> mget (p_Labels p)))
     \<and> map_of ms ''retired'' = (if p_Retired p then Some (Bool True) else None)
     \<and> map_of ms ''seeds'' = (if p_Seeds p = [] then None else Some (Arr (map Str (p_Seeds p))))
     \<and> set (map fst ms) \<subseteq> {''feature'', ''act'', ''description'', ''class'', ''plane'', ''labels'', ''retired'', ''seeds''}"
| "describes p _ \<longleftrightarrow> False"

lemma map_json_describes:
  assumes "gomap_ok m"
  shows "\<exists>ls. map_json m = Obj ls \<and> distinct (map fst ls) \<and> map_of ls = map_option Str \<circ> mget m"
proof -
  have d: "distinct (map fst m)" using assms by (simp add: gomap_ok_def)
  have f: "fst \<circ> (\<lambda>(k, v). (k, Str v)) = fst" by (auto simp: fun_eq_iff)
  have "mget m = map_of (sort_key fst m)" using map_of_sort_key [OF d] by (auto simp: mget_def fun_eq_iff)
  then show ?thesis using d by (simp add: map_json_def map_of_map f) (simp add: distinct_map)
qed

lemma permission_json_describes: "gomap_ok (p_Labels p) \<Longrightarrow> describes p (permission_json p)"
  using map_json_describes [of "p_Labels p"] by (auto simp: permission_json_def)

text \<open>
  C31: The \<open>permissions\<close> command writes one document and a newline to its output, and what it
  wrote reads as JSON: one service, under the set's key and with its display name, whose
  permissions are described one by one in the order they were declared, each with its feature, act,
  description, class and plane, its labels as a map, its retired mark and its seeds, the last three left out
  when there are none, and nothing else; when the free texts (display name, descriptions, labels) are
  UTF-8: the checks of the list see to the other texts.
\<close>

theorem command_prints_document:
  assumes "newSet service displayName ls = Inr s" "utf8_valid displayName"
    and "list_all (\<lambda>p. permission_texts p \<and> gomap_ok (p_Labels p)) (concat ls)"
  shows "\<exists>body entries. run_command write s w = write (body @ [CHR 0x0A]) w
    \<and> read_json (body @ [CHR 0x0A]) = Some (Obj [(''services'', Arr [Obj
        [(''key'', Str service), (''displayName'', Str displayName), (''permissions'', Arr entries)]])])
    \<and> list_all2 describes (concat ls) entries"
proof (intro exI conjI)
  have b: "ps_service s = service" "ps_displayName s = displayName" "list_perms s = concat ls"
    using newSet_built [OF assms(1)] newSet_sizes(2) [OF assms(1)] by (simp_all add: list_perms_def)
  have t: "set_texts s" using assms(2,3) b by (simp add: set_texts_def list_all_iff)
  show "run_command write s w = write (section_bytes s @ [CHR 0x0A]) w" by (simp add: run_command_def)
  have "read_json (section_bytes s @ [CHR 0x0A]) = Some (section_json s)"
    by (rule section_reads_back [OF assms(1) t]) (simp add: json_space_def ord_def)
  then show "read_json (section_bytes s @ [CHR 0x0A]) = Some (Obj [(''services'', Arr [Obj
        [(''key'', Str service), (''displayName'', Str displayName), (''permissions'', Arr (map permission_json (concat ls)))]])])"
    by (simp add: section_json_def b)
  show "list_all2 describes (concat ls) (map permission_json (concat ls))"
    using assms(3) permission_json_describes by (simp add: list_all2_conv_all_nth list_all_length)
qed

definition labelled_permission :: "(string, string) gomap \<Rightarrow> permission" where
  "labelled_permission labels = \<lparr>p_Feature = ''task'', p_Act = ''edit'', p_Description = ''Edit <any> task'', p_Class = ordinary,
     p_Plane = objectPlane, p_Labels = labels, p_Retired = False, p_Seeds = [''worker'']\<rparr>"

definition demo_section :: "(string, string) gomap \<Rightarrow> perm_set" where
  "demo_section labels = \<lparr>ps_service = ''svc'', ps_displayName = ''S'', ps_list = [labelled_permission labels], ps_index = [(''task:edit'', 0)]\<rparr>"

definition demo_labels :: "(string, string) gomap" where
  "demo_labels = [(''lv'', ''Labot''), (''de'', ''Andern'')]"

lemma demo_built: "labels \<in> {demo_labels, rev demo_labels} \<Longrightarrow>
    newSet ''svc'' ''S'' [[labelled_permission labels]] = Inr (demo_section labels) \<and> set_texts (demo_section labels)"
  by (auto simp: demo_labels_def labelled_permission_def demo_section_def set_texts_def permission_texts_def utf8_valid_def
      rune_error_def ascii_valid is_ascii_def eval_simps)

theorem command_prints_document_witness:
  "\<exists>doc es e. run_command (\<lambda>b w. (None :: string option, w @ b)) (demo_section demo_labels) [] = (None, doc)
     \<and> read_json doc = Some (Obj [(''services'', Arr [Obj [(''key'', Str ''svc''), (''displayName'', Str ''S''), (''permissions'', Arr [Obj e])]])])
     \<and> map_of e ''description'' = Some (Str ''Edit <any> task'') \<and> map_of e ''seeds'' = Some (Arr [Str ''worker''])
     \<and> map_of e ''retired'' = None \<and> map_of e ''labels'' = Some (Obj es) \<and> map_of es ''lv'' = Some (Str ''Labot'')"
proof -
  have d: "utf8_valid ''S''" "list_all (\<lambda>p. permission_texts p \<and> gomap_ok (p_Labels p)) (concat [[labelled_permission demo_labels]])"
    by (auto simp: labelled_permission_def demo_labels_def permission_texts_def gomap_ok_def mkeys_def is_ascii_def ord_def intro!: ascii_valid)
  from command_prints_document [OF demo_built [of demo_labels, THEN conjunct1] d, of "\<lambda>b w. (None :: string option, w @ b)" "[]"]
  obtain body v where v: "run_command (\<lambda>b w. (None :: string option, w @ b)) (demo_section demo_labels) [] = (None, body @ [CHR 0x0A])"
      "read_json (body @ [CHR 0x0A]) = Some (Obj [(''services'', Arr [Obj [(''key'', Str ''svc''), (''displayName'', Str ''S''), (''permissions'', Arr [v])]])])"
      "describes (labelled_permission demo_labels) v"
    by (auto simp: list_all2_Cons1)
  from v(3) show ?thesis using v(1,2)
    by (cases v) (auto simp: labelled_permission_def demo_labels_def mget_def split: option.splits)
qed

text \<open>
  C30: The same list always renders the same bytes, and only it does: the sections of two sets
  are equal to the byte exactly when the sets have the same service and display name and declare
  the same permissions in the same order, whatever order their maps of labels happen to be in.
\<close>

theorem section_determined:
  assumes "newSet service displayName ls = Inr s" "set_texts s" "list_all (\<lambda>p. gomap_ok (p_Labels p)) (list_perms s)"
    and "newSet service' displayName' ls' = Inr t" "set_texts t" "list_all (\<lambda>p. gomap_ok (p_Labels p)) (list_perms t)"
  shows "section_bytes s = section_bytes t \<longleftrightarrow>
    ps_service s = ps_service t \<and> ps_displayName s = ps_displayName t \<and> list_all2 same_permission (list_perms s) (list_perms t)"
proof -
  have "json_ok (section_json s)" "json_ok (section_json t)"
    using section_json_texts assms(1,2,4,5) section_json_fine by (auto simp: json_ok_def)
  then have "section_bytes s = section_bytes t \<longleftrightarrow> section_json s = section_json t"
    unfolding section_bytes_def by (rule indent.enc_inject)
  with section_json_inject [OF assms(3,6)] show ?thesis by simp
qed

theorem section_determined_witness:
  "demo_labels \<noteq> rev demo_labels \<and> section_bytes (demo_section demo_labels) = section_bytes (demo_section (rev demo_labels))"
proof
  show "demo_labels \<noteq> rev demo_labels" by (simp add: demo_labels_def)
  have "list_all (\<lambda>p. gomap_ok (p_Labels p)) (list_perms (demo_section demo_labels))"
    "list_all (\<lambda>p. gomap_ok (p_Labels p)) (list_perms (demo_section (rev demo_labels)))"
    by (simp_all add: demo_labels_def labelled_permission_def demo_section_def eval_simps)
  moreover have "list_all2 same_permission (list_perms (demo_section demo_labels)) (list_perms (demo_section (rev demo_labels)))"
    by (auto simp: demo_labels_def labelled_permission_def demo_section_def same_permission_def list_perms_def mget_def fun_eq_iff)
  ultimately show "section_bytes (demo_section demo_labels) = section_bytes (demo_section (rev demo_labels))"
    using section_determined [of "''svc''" "''S''" "[[labelled_permission demo_labels]]" "demo_section demo_labels"
      "''svc''" "''S''" "[[labelled_permission (rev demo_labels)]]" "demo_section (rev demo_labels)"]
      demo_built [of demo_labels] demo_built [of "rev demo_labels"] by (simp add: demo_section_def)
qed

end
