(* ===== verification/Route_Gate.thy ===== *)
theory Route_Gate
  imports Permission_Section Json_Decode
begin

text \<open>
  The guards of a service's routes (\<open>src/permissions/gate.go\<close>) and the rules its own tests
  hold them to (\<open>src/permissions/permissionstest/permissionstest.go\<close>). A guarded handler is
  a function of the caller's scopes that answers the handler's result, or the sentence a
  refusal names; registering a route also records what it accepts.
\<close>

section \<open>Levels and gates\<close>

record level =
  lv_Name :: string
  lv_Holds :: "(caller_scopes \<Rightarrow> bool) option"

definition zero_level :: level where
  "zero_level = \<lparr>lv_Name = '''', lv_Holds = None\<rparr>"

definition levels :: "string \<Rightarrow> string list \<Rightarrow> level" where
  "levels grp ls =
     \<lparr>lv_Name = join_with '' or '' (map (\<lambda>l. grp @ '':'' @ l) ls),
      lv_Holds = Some (\<lambda>u. list_ex (\<lambda>l. u grp l) ls)\<rparr>"

record route_gate =
  rg_set :: perm_set
  rg_accepted :: "(perm, bool) gomap"

definition newRouteGate :: "perm_set \<Rightarrow> route_gate" where
  "newRouteGate s = \<lparr>rg_set = s, rg_accepted = []\<rparr>"

definition join_or :: "string \<Rightarrow> string \<Rightarrow> string" where
  "join_or a b = (if a = '''' then b else a @ '' or '' @ b)"

text \<open>\<open>holds\<close>, with its early return.\<close>

fun holds :: "caller_scopes \<Rightarrow> perm list \<Rightarrow> bool \<Rightarrow> bool" where
  "holds u [] all = all"
| "holds u (p # ps) all = (if heldBy p u \<noteq> all then \<not> all else holds u ps all)"

definition level_holds :: "level \<Rightarrow> caller_scopes \<Rightarrow> bool" where
  "level_holds lv u = (case lv_Holds lv of None \<Rightarrow> False | Some f \<Rightarrow> f u)"

definition required_for :: "level \<Rightarrow> perm list \<Rightarrow> bool \<Rightarrow> string" where
  "required_for lv perms all =
     (let names = map perm_String perms in
      if all \<and> names \<noteq> [] then join_or (lv_Name lv) (''all of '' @ join_with '' '' names)
      else if names \<noteq> [] then join_or (lv_Name lv) (join_with '' or '' names)
      else lv_Name lv)"

definition guard :: "route_gate \<Rightarrow> level \<Rightarrow> perm list \<Rightarrow> bool \<Rightarrow> 'a \<Rightarrow> (caller_scopes \<Rightarrow> (string, 'a) result) \<times> route_gate" where
  "guard g lv perms all h =
     (\<lambda>u. if level_holds lv u then Inr h
          else if perms \<noteq> [] \<and> holds u perms all then Inr h
          else Inl (required_for lv perms all),
      g\<lparr>rg_accepted := foldl (\<lambda>m p. mput m p True) (rg_accepted g) perms\<rparr>)"

definition oneOf :: "route_gate \<Rightarrow> level \<Rightarrow> 'a \<Rightarrow> perm list \<Rightarrow> (caller_scopes \<Rightarrow> (string, 'a) result) \<times> route_gate" where
  "oneOf g lv h accepts = guard g lv accepts False h"

definition allOf :: "route_gate \<Rightarrow> level \<Rightarrow> 'a \<Rightarrow> perm list \<Rightarrow> (caller_scopes \<Rightarrow> (string, 'a) result) \<times> route_gate" where
  "allOf g lv h needs = guard g lv needs True h"

definition member :: "route_gate \<Rightarrow> level \<Rightarrow> 'a \<Rightarrow> caller_scopes \<Rightarrow> (string, 'a) result" where
  "member g lv h u =
     (if level_holds lv u \<or> heldAny (rg_set g) u then Inr h
      else Inl (join_or (lv_Name lv) (''any '' @ ps_service (rg_set g) @ ''/ permission'')))"

definition accepted :: "route_gate \<Rightarrow> perm list" where
  "accepted g = mkeys (rg_accepted g)"

section \<open>The rules a service's tests hold its routes to\<close>

definition declaredIsChecked :: "perm_set \<Rightarrow> route_gate list \<Rightarrow> string list" where
  "declaredIsChecked s gates =
     (let acc = concat (map (\<lambda>g. map perm_String (accepted g)) gates);
          names = map (\<lambda>p. perm_name p (ps_service s)) (list_perms s)
      in map (\<lambda>p. perm_name p (ps_service s) @ '' is declared but no route accepts it'')
           (filter (\<lambda>p. \<not> p_Retired p \<and> p_Class p \<noteq> perField \<and> p_Plane p \<noteq> chartPlane
              \<and> perm_name p (ps_service s) \<notin> set acc) (list_perms s))
         @ map (\<lambda>n. n @ '' is accepted but not declared'') (filter (\<lambda>n. n \<notin> set names) (remdups acc)))"

definition ownBesideAny :: "perm_set \<Rightarrow> string list" where
  "ownBesideAny s =
     concat (map (\<lambda>p. case cut_suffix (p_Act p) ''Own'' of
         (anyAct, ok) \<Rightarrow> if \<not> ok \<or> anyAct = '''' then []
           else if lookup_perm s (p_Feature p) anyAct = None
           then [perm_name p (ps_service s) @ '' has no '' @ ps_service s @ ''/'' @ p_Feature p @ '':'' @ anyAct @ '' beside it'']
           else []) (list_perms s))"

text \<open>
  The loop of \<open>UndeclaredCheckStops\<close> lengthens an act until the set does not declare it: every
  round uses up one declared key of its length.
\<close>

function undeclaredAct :: "perm_set \<Rightarrow> string \<Rightarrow> string \<Rightarrow> string" where
  "undeclaredAct s feature act =
     (if lookup_perm s feature act = None then act else undeclaredAct s feature (act @ ''X''))"
  by pat_completeness auto
termination
proof (relation "measure (\<lambda>(s, feature, act). length (filter (\<lambda>k. length (perm_key feature act) \<le> length k) (mkeys (ps_index s))))")
  fix s feature act
  assume "lookup_perm s feature act \<noteq> None"
  then have "perm_key feature act \<in> set (mkeys (ps_index s))"
    by (auto simp: lookup_perm_def dest: mget_Some_mkeys split: option.splits)
  then have "length (filter (\<lambda>k. length (perm_key feature (act @ ''X'')) \<le> length k) (mkeys (ps_index s)))
      < length (filter (\<lambda>k. length (perm_key feature act) \<le> length k) (mkeys (ps_index s)))"
    by (intro filter_shrinks [of _ _ "perm_key feature act"]) (auto simp: perm_key_def)
  then show "((s, feature, act @ ''X''), s, feature, act)
      \<in> measure (\<lambda>(s, feature, act). length (filter (\<lambda>k. length (perm_key feature act) \<le> length k) (mkeys (ps_index s))))"
    by simp
qed simp

declare undeclaredAct.simps [simp del]

definition undeclaredCheckStops :: "perm_set \<Rightarrow> string list" where
  "undeclaredCheckStops s =
     (let feature = (case list_perms s of [] \<Rightarrow> ''undeclared'' | p # _ \<Rightarrow> p_Feature p);
          act = undeclaredAct s feature ''neverDeclared'';
          want = ps_service s @ ''/'' @ feature @ '':'' @ act @ '' is checked but not declared''
      in case declared s feature act of
           Inr _ \<Rightarrow> [''checking '' @ ps_service s @ ''/'' @ feature @ '':'' @ act @ '' should stop the service'']
         | Inl msg \<Rightarrow> if str_contains msg want then [] else [''the stop should name the permission: '' @ msg])"

text \<open>The section as the kit reads it back; a \<open>json.RawMessage\<close> takes any value as it is.\<close>

record register_service =
  rs_Key :: string
  rs_DisplayName :: string
  rs_Permissions :: "json list"

definition decode_raw :: "json decoder" where
  "decode_raw old v = Some v"

definition decode_service :: "register_service decoder" where
  "decode_service = decode_struct [(''key'', field rs_Key rs_Key_update decode_string),
     (''displayName'', field rs_DisplayName rs_DisplayName_update decode_string),
     (''permissions'', field rs_Permissions rs_Permissions_update (decode_slice Null decode_raw))]"

definition read_register :: "bytes \<Rightarrow> register_service list option" where
  "read_register = unmarshal [] (decode_struct
     [(''services'', decode_slice \<lparr>rs_Key = '''', rs_DisplayName = '''', rs_Permissions = []\<rparr> decode_service)])"

text \<open>What the register reads on a permission, and the names an entry carries.\<close>

definition required_keys :: "string list" where
  "required_keys = [''feature'', ''act'', ''description'', ''class'', ''plane'']"

definition optional_keys :: "string list" where
  "optional_keys = [''labels'', ''retired'', ''seeds'']"

definition entry_keys :: "json \<Rightarrow> string list option" where
  "entry_keys e = map_option (\<lambda>m. case m of None \<Rightarrow> [] | Some keys \<Rightarrow> mkeys keys) (decode_map Null decode_raw None e)"

datatype section_complaint = NotADocument | NotThisService | WrongCount nat nat | NotAnObject | MissingKey string | RefusedKey string

fun entry_complaints :: "json list \<Rightarrow> section_complaint list" where
  "entry_complaints [] = []"
| "entry_complaints (e # es) =
     (case entry_keys e of
        None \<Rightarrow> [NotAnObject]
      | Some ks \<Rightarrow> map MissingKey (filter (\<lambda>k. k \<notin> set ks) required_keys)
          @ map RefusedKey (filter (\<lambda>k. k \<notin> set (required_keys @ optional_keys)) ks) @ entry_complaints es)"

definition sectionIsTheRegisterDocument :: "perm_set \<Rightarrow> section_complaint list" where
  "sectionIsTheRegisterDocument s =
     (case read_register (section_bytes s) of
        None \<Rightarrow> [NotADocument]
      | Some [svc] \<Rightarrow>
          if rs_Key svc \<noteq> ps_service s \<or> rs_DisplayName svc = '''' then [NotThisService]
          else (if length (rs_Permissions svc) \<noteq> length (list_perms s)
                then [WrongCount (length (rs_Permissions svc)) (length (list_perms s))] else [])
            @ entry_complaints (rs_Permissions svc)
      | Some _ \<Rightarrow> [NotThisService])"

text \<open>\<open>Check\<close>: all four rules.\<close>

datatype complaint = RouteComplaint string | SectionComplaint section_complaint

definition check_rules :: "perm_set \<Rightarrow> route_gate list \<Rightarrow> complaint list" where
  "check_rules s gates = map RouteComplaint (declaredIsChecked s gates) @ map RouteComplaint (undeclaredCheckStops s)
     @ map RouteComplaint (ownBesideAny s) @ map SectionComplaint (sectionIsTheRegisterDocument s)"

lemmas route_eval [eval_simps] = zero_level_def levels_def newRouteGate_def join_or_def level_holds_def required_for_def guard_def
  oneOf_def allOf_def member_def accepted_def declaredIsChecked_def ownBesideAny_def

text \<open>\<open>UndeclaredCheckStops\<close> ends on every set, within a round for each declared permission.\<close>

lemma undeclaredAct_undeclared: "lookup_perm s feature (undeclaredAct s feature act) = None"
proof (induction s feature act rule: undeclaredAct.induct)
  case (1 s feature act)
  then show ?case by (cases "lookup_perm s feature act = None") (simp_all add: undeclaredAct.simps [of s feature act])
qed

lemma undeclaredAct_shape:
  "\<exists>n \<le> length (filter (\<lambda>k. length (perm_key feature act) \<le> length k) (mkeys (ps_index s))).
     undeclaredAct s feature act = act @ replicate n (CHR ''X'')"
proof (induction s feature act rule: undeclaredAct.induct)
  case (1 s feature act)
  show ?case
  proof (cases "lookup_perm s feature act = None")
    case True
    then show ?thesis by (intro exI [of _ 0]) (simp add: undeclaredAct.simps [of s feature act])
  next
    case False
    then obtain n where n: "n \<le> length (filter (\<lambda>k. length (perm_key feature (act @ ''X'')) \<le> length k) (mkeys (ps_index s)))"
        "undeclaredAct s feature (act @ ''X'') = (act @ ''X'') @ replicate n (CHR ''X'')"
      using 1 by blast
    have "perm_key feature act \<in> set (mkeys (ps_index s))"
      using False by (auto simp: lookup_perm_def dest: mget_Some_mkeys split: option.splits)
    then have "length (filter (\<lambda>k. length (perm_key feature (act @ ''X'')) \<le> length k) (mkeys (ps_index s)))
        < length (filter (\<lambda>k. length (perm_key feature act) \<le> length k) (mkeys (ps_index s)))"
      by (intro filter_shrinks [of _ _ "perm_key feature act"]) (auto simp: perm_key_def)
    with n False show ?thesis
      by (intro exI [of _ "Suc n"]) (simp add: undeclaredAct.simps [of s feature act])
  qed
qed

lemma undeclared_check_stops: "undeclaredCheckStops s = []"
proof -
  have stop: "declared s f (undeclaredAct s f a) =
      Inl (''permissions: '' @ ps_service s @ ''/'' @ f @ '':'' @ undeclaredAct s f a @ '' is checked but not declared'')" for f a
    using undeclaredAct_undeclared [of s f a] by (auto simp: declared_def lookup_perm_def split: option.splits)
  show ?thesis
    unfolding undeclaredCheckStops_def Let_def stop
    using str_contains_append [of "''permissions: ''" _ "[]"] by simp
qed

lemma valid_names: "valid_string ''services'' = ''services''" "valid_string ''key'' = ''key''" "valid_string ''displayName'' = ''displayName''"
    "valid_string ''permissions'' = ''permissions''" "valid_string ''feature'' = ''feature''" "valid_string ''act'' = ''act''"
    "valid_string ''description'' = ''description''" "valid_string ''class'' = ''class''" "valid_string ''plane'' = ''plane''"
    "valid_string ''labels'' = ''labels''" "valid_string ''retired'' = ''retired''" "valid_string ''seeds'' = ''seeds''"
  by (simp_all add: valid_string_id ascii_valid is_ascii_def ord_def)

lemma valid_string_empty: "valid_string s = [] \<longleftrightarrow> s = []"
proof (cases s)
  case (Cons c t)
  obtain r n where d: "decode_rune (c # t) = (r, n)" by (metis prod.exhaust)
  then have "1 \<le> n" using decode_rune_width [of c t] by simp
  with Cons d show ?thesis by (cases n) (simp_all add: valid_string_def encode_rune_nonempty)
qed (simp add: valid_string_def)

text \<open>Every entry has the names the register requires, and no other than it reads.\<close>

lemma permission_entry_keys:
  "entry_keys (coerced (permission_json p)) = Some (required_keys @ (if p_Labels p \<noteq> [] then [''labels''] else [])
     @ (if p_Retired p then [''retired''] else []) @ (if p_Seeds p \<noteq> [] then [''seeds''] else []))"
proof -
  let ?opt = "(if p_Labels p \<noteq> [] then [''labels''] else []) @ (if p_Retired p then [''retired''] else []) @ (if p_Seeds p \<noteq> [] then [''seeds''] else [])"
  obtain ms where ms: "permission_json p = Obj ms" "map fst ms = required_keys @ ?opt"
    by (simp add: permission_json_def required_keys_def)
  have "distinct (required_keys @ optional_keys)" by (simp add: required_keys_def optional_keys_def)
  then have "distinct (required_keys @ ?opt)" by (simp add: required_keys_def optional_keys_def)
  moreover have "map valid_string (required_keys @ ?opt) = required_keys @ ?opt"
    by (simp add: required_keys_def valid_names)
  moreover have "map fst (map (\<lambda>(k, v). (valid_string k, coerced v)) ms) = map valid_string (map fst ms)" by (simp add: comp_def case_prod_beta)
  ultimately have names: "map fst (map (\<lambda>(k, v). (valid_string k, coerced v)) ms) = required_keys @ ?opt"
      "distinct (map fst (map (\<lambda>(k, v). (valid_string k, coerced v)) ms))"
    unfolding ms(2) by simp_all
  have "decode_entries Null decode_raw [] (map (\<lambda>(k, v). (k, v)) es) = Some ([] @ es)" if "distinct (map fst es)" for es
    by (rule decode_entries_new) (use that in \<open>simp_all add: decode_raw_def\<close>)
  from this [OF names(2)] names(1) show ?thesis unfolding ms(1) by (simp add: entry_keys_def mkeys_def del: map_map map_append)
qed

lemma entry_names: "entry_complaints (map (\<lambda>p. coerced (permission_json p)) ps) = []"
proof (induction ps)
  case (Cons p ps)
  then show ?case by (simp add: permission_entry_keys optional_keys_def filter_empty_conv)
qed simp

lemma section_is_document: "newSet service displayName ls = Inr s \<Longrightarrow> sectionIsTheRegisterDocument s = []"
proof -
  assume n: "newSet service displayName ls = Inr s"
  have k: "valid_string (ps_service s) = ps_service s" using newSet_built [OF n] by (simp add: valid_string_id ascii_valid serviceShape_ascii)
  have "trim_space [] = []" by (simp add: eval_simps)
  then have d: "ps_displayName s \<noteq> []" using newSet_sizes(2,3) [OF n] by auto
  have raw: "decode_elements Null decode_raw [] vs = Some vs" for vs by (induction vs) (simp_all add: decode_raw_def)
  have "read_register (section_bytes s) = Some [\<lparr>rs_Key = ps_service s, rs_DisplayName = valid_string (ps_displayName s),
      rs_Permissions = map (\<lambda>p. coerced (permission_json p)) (list_perms s)\<rparr>]"
    using read_section [of "[]" s] k raw
    by (simp add: read_register_def unmarshal_def section_json_def valid_names decode_service_def field_named_def field_def comp_def)
  then show ?thesis using d by (simp add: sectionIsTheRegisterDocument_def entry_names valid_string_empty)
qed

text \<open>
  C33: The search for an undeclared act ends on every set, after at most one round for each
  declared permission, with an act the set does not declare; so for a set that was built the two
  rules that hold whatever the routes, that an undeclared check stops and that the section is the
  register's document, never complain: only the routes and the own acts can fail the kit.
\<close>

theorem undeclared_search_ends:
  assumes "newSet service displayName ls = Inr s"
  shows "(\<exists>n. n \<le> length (list_perms s) \<and> undeclaredAct s feature act = act @ replicate n (CHR ''X''))
    \<and> lookup_perm s feature (undeclaredAct s feature act) = None
    \<and> check_rules s gates = map RouteComplaint (declaredIsChecked s gates @ ownBesideAny s)"
proof -
  let ?long = "filter (\<lambda>k. length (perm_key feature act) \<le> length k) (mkeys (ps_index s))"
  obtain n where n: "n \<le> length ?long" "undeclaredAct s feature act = act @ replicate n (CHR ''X'')"
    using undeclaredAct_shape by blast
  have "length ?long \<le> length (list_perms s)"
    using length_filter_le [of _ "mkeys (ps_index s)"] newSet_sizes(1) [OF assms] by (simp add: mkeys_def list_perms_def)
  with n(1) have "n \<le> length (list_perms s)" by simp
  moreover have "check_rules s gates = map RouteComplaint (declaredIsChecked s gates @ ownBesideAny s)"
    by (simp add: check_rules_def undeclared_check_stops section_is_document [OF assms])
  ultimately show ?thesis using n(2) undeclaredAct_undeclared by blast
qed

theorem undeclared_search_ends_witness:
  "\<exists>s. newSet ''svc'' ''S'' [] = Inr s \<and> undeclaredAct s ''f'' ''a'' = ''a''
     \<and> check_rules s [] = map RouteComplaint (declaredIsChecked s [] @ ownBesideAny s)"
proof -
  obtain s where s: "newSet ''svc'' ''S'' [] = Inr s" "list_perms s = []" by (simp add: eval_simps)
  from undeclared_search_ends [OF s(1), of "''f''" "''a''" "[]"] s show ?thesis by auto
qed

section \<open>Who passes a guard\<close>

lemma holds_iff: "holds u ps all \<longleftrightarrow> (if all then list_all (\<lambda>p. heldBy p u) ps else list_ex (\<lambda>p. heldBy p u) ps)"
  by (induction u ps all rule: holds.induct) auto

lemma guard_passes:
  "is_ok (fst (guard g lv ps all h) u) \<longleftrightarrow>
     level_holds lv u \<or> ps \<noteq> [] \<and> (if all then list_all (\<lambda>p. heldBy p u) ps else list_ex (\<lambda>p. heldBy p u) ps)"
  by (simp add: guard_def holds_iff is_ok_def)

text \<open>A token that carries scopes answers for each by its group and level, exactly.\<close>

definition carries :: "(string \<times> string) list \<Rightarrow> caller_scopes" where
  "carries scopes grp lvl \<longleftrightarrow> (grp, lvl) \<in> set scopes"

text \<open>
  a route that accepts one of several permissions passes exactly a caller who passes the
  level or holds one of them, one that needs all of them exactly a caller who passes the level
  or holds every one, and neither passes anybody for an empty list; a caller whose token
  carries only scopes of other acts and features, however nested, passes neither.
\<close>

theorem routes_pass_exactly:
  "(is_ok (fst (oneOf g lv h ps) u) \<longleftrightarrow> level_holds lv u \<or> (\<exists>p. List.member ps p \<and> heldBy p u))
   \<and> (is_ok (fst (allOf g lv h ps) u) \<longleftrightarrow> level_holds lv u \<or> (ps \<noteq> [] \<and> list_all (\<lambda>p. heldBy p u) ps))
   \<and> (is_ok (member g lv h u) \<longleftrightarrow> level_holds lv u \<or> heldAny (rg_set g) u)
   \<and> (heldBy p (carries scopes) \<longleftrightarrow> List.member scopes (pm_service p @ ''/'' @ pm_feature p, pm_act p))"
proof (intro conjI)
  show "is_ok (fst (oneOf g lv h ps) u) \<longleftrightarrow> level_holds lv u \<or> (\<exists>p. List.member ps p \<and> heldBy p u)"
    unfolding oneOf_def guard_passes by (auto simp: list_ex_iff)
  show "is_ok (fst (allOf g lv h ps) u) \<longleftrightarrow> level_holds lv u \<or> (ps \<noteq> [] \<and> list_all (\<lambda>p. heldBy p u) ps)"
    unfolding allOf_def guard_passes by simp
  show "is_ok (member g lv h u) \<longleftrightarrow> level_holds lv u \<or> heldAny (rg_set g) u"
    by (simp add: member_def is_ok_def)
  show "heldBy p (carries scopes) \<longleftrightarrow> List.member scopes (pm_service p @ ''/'' @ pm_feature p, pm_act p)"
    by (simp add: heldBy_def carries_def)
qed

section \<open>What routes accept is declared\<close>

text \<open>Routes are registered with permissions that \<open>Declared\<close> answered.\<close>

datatype route = OneOf level "(string \<times> string) list" | AllOf level "(string \<times> string) list" | Member level

fun declared_all :: "perm_set \<Rightarrow> (string \<times> string) list \<Rightarrow> (string, perm list) result" where
  "declared_all s [] = Inr []"
| "declared_all s ((f, a) # ps) = (case declared s f a of
     Inl m \<Rightarrow> Inl m
   | Inr p \<Rightarrow> (case declared_all s ps of Inl m \<Rightarrow> Inl m | Inr qs \<Rightarrow> Inr (p # qs)))"

fun register :: "route_gate \<Rightarrow> route list \<Rightarrow> (string, route_gate) result" where
  "register g [] = Inr g"
| "register g (OneOf lv ps # rs) = (case declared_all (rg_set g) ps of
     Inl m \<Rightarrow> Inl m | Inr qs \<Rightarrow> register (snd (oneOf g lv () qs)) rs)"
| "register g (AllOf lv ps # rs) = (case declared_all (rg_set g) ps of
     Inl m \<Rightarrow> Inl m | Inr qs \<Rightarrow> register (snd (allOf g lv () qs)) rs)"
| "register g (Member lv # rs) = register g rs"

fun route_perms :: "route \<Rightarrow> (string \<times> string) list" where
  "route_perms (OneOf lv ps) = ps"
| "route_perms (AllOf lv ps) = ps"
| "route_perms (Member lv) = []"

definition perm_of :: "perm_set \<Rightarrow> string \<times> string \<Rightarrow> perm" where
  "perm_of s fa = \<lparr>pm_service = ps_service s, pm_feature = fst fa, pm_act = snd fa\<rparr>"

lemma declared_all_ok: "declared_all s ps = Inr qs \<Longrightarrow> qs = map (perm_of s) ps \<and> list_all (\<lambda>(f, a). is_ok (declared s f a)) ps"
  by (induction ps arbitrary: qs) (auto simp: declared_def perm_of_def split: sum.splits if_splits)

lemma accepted_add: "set (mkeys (foldl (\<lambda>m p. mput m p True) m ps)) = set (mkeys m) \<union> set ps"
proof (induction ps arbitrary: m)
  case (Cons p ps)
  have "set (mkeys (mput m p True)) = insert p (set (mkeys m))" by (simp add: mkeys_def mput_def dom_update)
  with Cons show ?case by auto
qed simp

lemma register_accepts:
  "register g rs = Inr g' \<Longrightarrow> rg_set g' = rg_set g
     \<and> set (accepted g') = set (accepted g) \<union> perm_of (rg_set g) ` set (concat (map route_perms rs))
     \<and> list_all (\<lambda>(f, a). is_ok (declared (rg_set g) f a)) (concat (map route_perms rs))"
proof (induction g rs rule: register.induct)
  case (2 g lv ps rs)
  then obtain qs where q: "declared_all (rg_set g) ps = Inr qs" by (auto split: sum.splits)
  with "2.IH" [OF q] "2.prems" declared_all_ok [OF q] show ?case
    by (auto simp: oneOf_def guard_def accepted_def accepted_add)
next
  case (3 g lv ps rs)
  then obtain qs where q: "declared_all (rg_set g) ps = Inr qs" by (auto split: sum.splits)
  with "3.IH" [OF q] "3.prems" declared_all_ok [OF q] show ?case
    by (auto simp: allOf_def guard_def accepted_def accepted_add)
qed (simp_all add: accepted_def)

lemma perm_String_of: "perm_String (perm_of s (p_Feature p, p_Act p)) = perm_name p (ps_service s)"
  by (simp add: perm_String_def perm_of_def perm_name_def)

text \<open>
  a service whose routes all registered checks nothing it does not declare: the test kit
  then complains exactly of the permissions, not retired, per field or of the chart, that are
  declared and accepted by no route; and it complains of none when each of them is.
\<close>

theorem registered_routes_are_declared:
  assumes "newSet service displayName ls = Inr s" "register (newRouteGate s) rs = Inr g"
  shows "declaredIsChecked s [g] = map (\<lambda>p. perm_name p service @ '' is declared but no route accepts it'')
     (filter (\<lambda>p. \<not> p_Retired p \<and> p_Class p \<noteq> perField \<and> p_Plane p \<noteq> chartPlane
        \<and> \<not> List.member (concat (map route_perms rs)) (p_Feature p, p_Act p)) (concat ls))"
proof -
  let ?ps = "concat (map route_perms rs)"
  note b = newSet_built [OF assms(1)]
  have s: "ps_service s = service" "list_perms s = concat ls" using b by (simp_all only: list_perms_def simp_thms)
  have g: "rg_set (newRouteGate s) = s" "accepted (newRouteGate s) = []" by (simp_all add: newRouteGate_def accepted_def mkeys_def)
  note r = register_accepts [OF assms(2), unfolded g]
  have acc: "set (accepted g) = perm_of s ` set ?ps" using r by (simp only: list.set Un_empty_left simp_thms)
  have decl: "\<exists>p \<in> set (concat ls). p_Feature p = f \<and> p_Act p = a" if "(f, a) \<in> set ?ps" for f a
    using r that set_is_exact_declared [OF assms(1)] unfolding list_all_iff by blast
  have sh: "serviceShape service" using b by simp
  have ck: "check service p = None" if "p \<in> set (concat ls)" for p
    using b that by (simp only: list_all_iff)
  have names: "perm_name p service \<in> perm_String ` perm_of s ` set ?ps \<longleftrightarrow> (p_Feature p, p_Act p) \<in> set ?ps"
    if p: "p \<in> set (concat ls)" for p
  proof
    assume "perm_name p service \<in> perm_String ` perm_of s ` set ?ps"
    then obtain f a where fa: "(f, a) \<in> set ?ps" "perm_name p service = perm_String (perm_of s (f, a))" by auto
    then obtain q where q: "q \<in> set (concat ls)" "p_Feature q = f" "p_Act q = a" using decl by blast
    have "perm_name p service = perm_name q service" using fa(2) perm_String_of [of s q] q s by simp
    from names_unambiguous [OF sh sh ck [OF p] ck [OF q(1)] this]
    have "p_Feature p = p_Feature q \<and> p_Act p = p_Act q" by simp
    with fa q show "(p_Feature p, p_Act p) \<in> set ?ps" by simp
  next
    assume "(p_Feature p, p_Act p) \<in> set ?ps"
    then show "perm_name p service \<in> perm_String ` perm_of s ` set ?ps"
      using perm_String_of [of s p] s by (metis imageI)
  qed
  have none: "perm_String x \<in> (\<lambda>p. perm_name p service) ` set (concat ls)" if x: "x \<in> perm_of s ` set ?ps" for x
  proof -
    obtain f a where "(f, a) \<in> set ?ps" "x = perm_of s (f, a)" using x by auto
    with decl obtain q where "q \<in> set (concat ls)" "x = perm_of s (p_Feature q, p_Act q)" by blast
    with perm_String_of [of s q] s show ?thesis by simp
  qed
  have "filter (\<lambda>n. n \<notin> set (map (\<lambda>p. perm_name p service) (concat ls))) (remdups (map perm_String (accepted g))) = []"
    using none acc by (auto simp: filter_empty_conv)
  moreover have "filter (\<lambda>p. \<not> p_Retired p \<and> p_Class p \<noteq> perField \<and> p_Plane p \<noteq> chartPlane
        \<and> perm_name p service \<notin> set (map perm_String (accepted g))) (concat ls)
      = filter (\<lambda>p. \<not> p_Retired p \<and> p_Class p \<noteq> perField \<and> p_Plane p \<noteq> chartPlane \<and> (p_Feature p, p_Act p) \<notin> set ?ps) (concat ls)"
    using names acc by (intro filter_cong [OF refl]) auto
  ultimately show ?thesis by (simp add: declaredIsChecked_def Let_def s)
qed

theorem registered_routes_are_declared_witness:
  "\<exists>s g. newSet ''projects'' ''Projects'' [[demo_permission]] = Inr s
     \<and> register (newRouteGate s) [OneOf zero_level [(''task/attachment'', ''delete'')]] = Inr g \<and> declaredIsChecked s [g] = []"
proof -
  let ?s = "\<lparr>ps_service = ''projects'', ps_displayName = ''Projects'', ps_list = [demo_permission], ps_index = [(''task/attachment:delete'', 0)]\<rparr>"
  have "declared ?s ''task/attachment'' ''delete'' = Inr \<lparr>pm_service = ''projects'', pm_feature = ''task/attachment'', pm_act = ''delete''\<rparr>"
    by (simp add: declared_def mget_def perm_key_def)
  then have "\<exists>g. register (newRouteGate ?s) [OneOf zero_level [(''task/attachment'', ''delete'')]] = Inr g"
    by (simp add: newRouteGate_def)
  then obtain g where g: "register (newRouteGate ?s) [OneOf zero_level [(''task/attachment'', ''delete'')]] = Inr g" by blast
  have f: "p_Feature demo_permission = ''task/attachment''" "p_Act demo_permission = ''delete''" by (simp_all add: demo_permission_def)
  from registered_routes_are_declared [OF demo_set g] have "declaredIsChecked ?s [g] = []" by (simp add: f)
  with demo_set g show ?thesis by blast
qed

end
