(* ===== verification/Copy_Keeper.thy ===== *)
theory Copy_Keeper
  imports Permission_Set "HOL-Library.List_Lexorder" "HOL-Library.Char_ord"
begin

text \<open>
  The keepers of a service's copies of the membership register: the roles of package
  \<open>placement\<close> (\<open>src/placement/placement.go\<close>) and the chart of package \<open>chart\<close>
  (\<open>src/chart/chart.go\<close>). Everything outside a keeper is one environment on a world state: the
  register, the service's store, the clock and the context. What the two keepers share is the
  locale \<open>copy_keeper\<close>, interpreted on both.
\<close>

section \<open>The environment\<close>

type_synonym counts = "(string, int) gomap"

text \<open>
  \<open>e_source\<close> is the register's answer to a version: \<open>None\<close> while it is current. The store's
  operations answer \<open>Some\<close> error or none.
\<close>

record ('w, 'd) keeper_env =
  e_tenants :: "'w \<Rightarrow> (string, string list) result \<times> 'w"
  e_version :: "'w \<Rightarrow> string \<Rightarrow> (string, string) result \<times> 'w"
  e_source :: "'w \<Rightarrow> string \<Rightarrow> string \<Rightarrow> (string, 'd option) result \<times> 'w"
  e_replace :: "'w \<Rightarrow> string \<Rightarrow> 'd \<Rightarrow> gotime \<Rightarrow> string option \<times> 'w"
  e_confirm :: "'w \<Rightarrow> string \<Rightarrow> gotime \<Rightarrow> string option \<times> 'w"
  e_counts :: "'w \<Rightarrow> string \<Rightarrow> (string, counts) result \<times> 'w"
  e_report :: "'w \<Rightarrow> string \<Rightarrow> counts \<Rightarrow> (string, string list) result \<times> 'w"
  e_now :: "'w \<Rightarrow> gotime \<times> 'w"
  e_ended :: "'w \<Rightarrow> bool \<times> 'w"

section \<open>Configuration\<close>

definition defaultInterval :: duration where "defaultInterval = 10 * second"
definition defaultTrustWindow :: duration where "defaultTrustWindow = 15 * minute"

record keeper_config =
  Interval :: duration
  TrustWindow :: duration

datatype keeper_error =
    NoSourceOrStore | NegativeConfig | WindowTooShortFor
  | ReadVersion string | ReadSource string | KeepCopy string | CountPlacements string | ReportPlacements string
  | RolesGone "string list" | ListTenants string | NotReadYet | NotConfirmed "string list"

record keeper =
  k_cfg :: keeper_config
  k_wake :: "string list"
  k_started :: bool
  k_confirmed :: "(string, gotime) gomap"
  k_reported :: "(string, counts) gomap"
  k_extra :: "(string, bool) gomap"

definition checked_config :: "keeper_config \<Rightarrow> (keeper_error, keeper_config) result" where
  "checked_config cfg =
     (if Interval cfg < 0 \<or> TrustWindow cfg < 0 then Inl NegativeConfig
      else let iv = (if Interval cfg = 0 then defaultInterval else Interval cfg);
               tw = (if TrustWindow cfg = 0 then defaultTrustWindow else TrustWindow cfg)
        in if tw \<le> iv then Inl WindowTooShortFor else Inr \<lparr>Interval = iv, TrustWindow = tw\<rparr>)"

definition newKeeper :: "bool \<Rightarrow> bool \<Rightarrow> keeper_config \<Rightarrow> (keeper_error, keeper) result" where
  "newKeeper has_src has_store cfg =
     (if \<not> has_src \<or> \<not> has_store then Inl NoSourceOrStore
      else case checked_config cfg of
        Inl e \<Rightarrow> Inl e
      | Inr c \<Rightarrow> Inr \<lparr>k_cfg = c, k_wake = [], k_started = False, k_confirmed = [], k_reported = [], k_extra = []\<rparr>)"

definition trustedSince :: "keeper \<Rightarrow> gotime \<Rightarrow> gotime" where
  "trustedSince k now = now - TrustWindow (k_cfg k)"

text \<open>\<open>Wake\<close> on the channel of 64 places.\<close>

definition wake :: "keeper \<Rightarrow> string \<Rightarrow> keeper" where
  "wake k tenant =
     (if tenant = '''' then k
      else if length (k_wake k) < 64 then k\<lparr>k_wake := k_wake k @ [tenant]\<rparr>
      else k)"

section \<open>Keeping one tenant's copy\<close>

text \<open>\<open>maps.Equal\<close>.\<close>

definition same_counts :: "counts \<Rightarrow> counts \<Rightarrow> bool" where
  "same_counts a b \<longleftrightarrow> length a = length b \<and> list_all (\<lambda>(r, n). mget b r = Some n) a"

definition reportCounts :: "('w, 'd) keeper_env \<Rightarrow> keeper \<Rightarrow> 'w \<Rightarrow> string \<Rightarrow> keeper_error option \<times> keeper \<times> 'w" where
  "reportCounts env k w tenant =
     (case e_counts env w tenant of
        (Inl e, w1) \<Rightarrow> (Some (CountPlacements e), k, w1)
      | (Inr cs, w1) \<Rightarrow>
          if (case mget (k_reported k) tenant of None \<Rightarrow> False | Some prev \<Rightarrow> same_counts prev cs) then (None, k, w1)
          else case e_report env w1 tenant cs of
            (Inl e, w2) \<Rightarrow> (Some (ReportPlacements e), k, w2)
          | (Inr unknown, w2) \<Rightarrow>
              (if unknown \<noteq> [] then Some (RolesGone unknown) else None,
               k\<lparr>k_reported := mput (k_reported k) tenant cs\<rparr>, w2))"

text \<open>The part of \<open>Sync\<close> both packages have: bring the copy up to date and note when.\<close>

definition sync_copy :: "('w, 'd) keeper_env \<Rightarrow> keeper \<Rightarrow> 'w \<Rightarrow> string \<Rightarrow> keeper_error option \<times> keeper \<times> 'w" where
  "sync_copy env k w tenant =
     (case e_version env w tenant of
        (Inl e, w1) \<Rightarrow> (Some (ReadVersion e), k, w1)
      | (Inr version, w1) \<Rightarrow> (case e_source env w1 tenant version of
          (Inl e, w2) \<Rightarrow> (Some (ReadSource e), k, w2)
        | (Inr answer, w2) \<Rightarrow>
            (case e_now env w2 of (at, w3) \<Rightarrow>
             case (case answer of Some d \<Rightarrow> e_replace env w3 tenant d at | None \<Rightarrow> e_confirm env w3 tenant at) of
               (Some e, w4) \<Rightarrow> (Some (KeepCopy e), k, w4)
             | (None, w4) \<Rightarrow> (None, k\<lparr>k_confirmed := mput (k_confirmed k) tenant at\<rparr>, w4))))"

definition sync :: "('w, 'd) keeper_env \<Rightarrow> keeper \<Rightarrow> 'w \<Rightarrow> string \<Rightarrow> keeper_error option \<times> keeper \<times> 'w" where
  "sync env k w tenant =
     (case sync_copy env k w tenant of
        (Some e, k1, w1) \<Rightarrow> (Some e, k1, w1)
      | (None, k1, w1) \<Rightarrow> reportCounts env k1 w1 tenant)"

definition chart_sync :: "('w, 'd) keeper_env \<Rightarrow> keeper \<Rightarrow> 'w \<Rightarrow> string \<Rightarrow> keeper_error option \<times> keeper \<times> 'w" where
  "chart_sync env k w tenant = sync_copy env k w tenant"

section \<open>Cycles\<close>

type_synonym ('w, 'd) syncing = "('w, 'd) keeper_env \<Rightarrow> keeper \<Rightarrow> 'w \<Rightarrow> string \<Rightarrow> keeper_error option \<times> keeper \<times> 'w"

text \<open>What \<open>OnError\<close> is told: the tenant and the error.\<close>

type_synonym failures = "(string \<times> keeper_error) list"

fun sync_each :: "('w, 'd) syncing \<Rightarrow> ('w, 'd) keeper_env \<Rightarrow> keeper \<Rightarrow> 'w \<Rightarrow> string list \<Rightarrow> failures \<times> keeper \<times> 'w" where
  "sync_each syn env k w [] = ([], k, w)"
| "sync_each syn env k w (t # ts) =
     (case e_ended env w of
        (True, w1) \<Rightarrow> ([], k, w1)
      | (False, w1) \<Rightarrow> (case syn env k w1 t of
          (err, k1, w2) \<Rightarrow> (case sync_each syn env k1 w2 ts of
            (errs, k2, w3) \<Rightarrow> ((case err of None \<Rightarrow> [] | Some e \<Rightarrow> [(t, e)]) @ errs, k2, w3))))"

definition cycle_with :: "('w, 'd) syncing \<Rightarrow> ('w, 'd) keeper_env \<Rightarrow> keeper \<Rightarrow> 'w \<Rightarrow> failures \<times> keeper \<times> 'w" where
  "cycle_with syn env k w =
     (case e_tenants env w of
        (Inl e, w1) \<Rightarrow> ([('''', ListTenants e)], k\<lparr>k_started := True\<rparr>, w1)
      | (Inr tenants, w1) \<Rightarrow>
          let k1 = k\<lparr>k_extra := mkeep (\<lambda>t _. t \<notin> set tenants) (k_extra k)\<rparr>;
              (errs, k2, w2) = sync_each syn env k1 w1 (tenants @ mkeys (k_extra k1))
          in (errs, k2\<lparr>k_started := True\<rparr>, w2))"

definition cycle :: "('w, 'd) keeper_env \<Rightarrow> keeper \<Rightarrow> 'w \<Rightarrow> failures \<times> keeper \<times> 'w" where
  "cycle env k w = cycle_with sync env k w"

definition chart_cycle :: "('w, 'd) keeper_env \<Rightarrow> keeper \<Rightarrow> 'w \<Rightarrow> failures \<times> keeper \<times> 'w" where
  "chart_cycle env k w = cycle_with chart_sync env k w"

text \<open>One round of \<open>Run\<close>'s loop: the ticker fires, or a woken tenant is taken from the channel.\<close>

datatype keeper_event = Tick | Woken

definition run_step :: "('w, 'd) syncing \<Rightarrow> ('w, 'd) keeper_env \<Rightarrow> keeper_event \<Rightarrow> keeper \<Rightarrow> 'w \<Rightarrow> failures \<times> keeper \<times> 'w" where
  "run_step syn env ev k w =
     (case ev of
        Tick \<Rightarrow> cycle_with syn env k w
      | Woken \<Rightarrow> (case k_wake k of
          [] \<Rightarrow> ([], k, w)
        | t # q \<Rightarrow> (case syn env (k\<lparr>k_wake := q, k_extra := mput (k_extra k) t True\<rparr>) w t of
            (err, k1, w1) \<Rightarrow> ((case err of None \<Rightarrow> [] | Some e \<Rightarrow> [(t, e)]), k1, w1))))"

fun run_events :: "('w, 'd) syncing \<Rightarrow> ('w, 'd) keeper_env \<Rightarrow> keeper_event list \<Rightarrow> keeper \<Rightarrow> 'w \<Rightarrow> keeper \<times> 'w" where
  "run_events syn env [] k w = (k, w)"
| "run_events syn env (ev # evs) k w = (case run_step syn env ev k w of (_, k1, w1) \<Rightarrow> run_events syn env evs k1 w1)"

text \<open>\<open>Run\<close>: a first cycle, then the loop.\<close>

definition run_keeper :: "('w, 'd) syncing \<Rightarrow> ('w, 'd) keeper_env \<Rightarrow> keeper_event list \<Rightarrow> keeper \<Rightarrow> 'w \<Rightarrow> keeper \<times> 'w" where
  "run_keeper syn env evs k w = run_events syn env (Tick # evs) k w"

definition stale_tenants :: "keeper \<Rightarrow> gotime \<Rightarrow> string list" where
  "stale_tenants k now =
     map fst (filter (\<lambda>(t, at). at < trustedSince k now) (k_confirmed k))
     @ filter (\<lambda>t. mget (k_confirmed k) t = None) (mkeys (k_extra k))"

text \<open>\<open>Ready\<close>; strings are compared byte by byte.\<close>

definition ready :: "keeper \<Rightarrow> gotime \<Rightarrow> keeper_error option" where
  "ready k now =
     (if \<not> k_started k then Some NotReadYet
      else if stale_tenants k now = [] then None
      else Some (NotConfirmed (sort (stale_tenants k now))))"

text \<open>
  The chart's keeper is written out a second time in its own package, function for function; it
  reports no counts.
\<close>

definition chart_newKeeper :: "bool \<Rightarrow> bool \<Rightarrow> keeper_config \<Rightarrow> (keeper_error, keeper) result" where
  "chart_newKeeper has_src has_store cfg = newKeeper has_src has_store cfg"

definition chart_trustedSince :: "keeper \<Rightarrow> gotime \<Rightarrow> gotime" where
  "chart_trustedSince k now = trustedSince k now"

definition chart_wake :: "keeper \<Rightarrow> string \<Rightarrow> keeper" where
  "chart_wake k tenant = wake k tenant"

definition chart_run :: "('w, 'd) keeper_env \<Rightarrow> keeper_event list \<Rightarrow> keeper \<Rightarrow> 'w \<Rightarrow> keeper \<times> 'w" where
  "chart_run env evs k w = run_keeper chart_sync env evs k w"

definition chart_ready :: "keeper \<Rightarrow> gotime \<Rightarrow> keeper_error option" where
  "chart_ready k now = ready k now"

record role =
  ro_ID :: string
  ro_Seed :: string
  ro_Name :: string
  ro_Labels :: "(string, string) gomap"
  ro_Description :: string
  ro_Keys :: "string list"

record definitions =
  df_Version :: string
  df_Roles :: "role list"

record chart =
  ch_Version :: string
  ch_Below :: "(string, string list) gomap"

definition keys_hold :: "string list \<Rightarrow> perm \<Rightarrow> bool" where
  "keys_hold ks p \<longleftrightarrow> perm_String p \<in> set ks"

lemmas keeper_eval [eval_simps] = defaultInterval_def defaultTrustWindow_def checked_config_def newKeeper_def trustedSince_def
  wake_def same_counts_def reportCounts_def sync_copy_def sync_def chart_sync_def cycle_with_def cycle_def chart_cycle_def
  run_step_def run_keeper_def stale_tenants_def ready_def keys_hold_def chart_newKeeper_def chart_trustedSince_def chart_wake_def
  chart_run_def chart_ready_def

section \<open>What the keepers share\<close>

text \<open>
  A keeper's \<open>Sync\<close> touches nothing but what it noted of its tenant; it notes a confirmation
  only at a time read after the register answered, and always does when nothing fails.
\<close>

definition copy_up :: "('w, 'd) keeper_env \<Rightarrow> bool" where
  "copy_up env \<longleftrightarrow> (\<forall>w t. is_ok (fst (e_version env w t))) \<and> (\<forall>w t v. is_ok (fst (e_source env w t v)))
     \<and> (\<forall>w t d at. fst (e_replace env w t d at) = None) \<and> (\<forall>w t at. fst (e_confirm env w t at) = None)"

definition source_down :: "('w, 'd) keeper_env \<Rightarrow> bool" where
  "source_down env \<longleftrightarrow> (\<forall>w t v. \<not> is_ok (fst (e_source env w t v)))"

text \<open>
  An invariant of the world outside that no operation of the environment breaks, a new copy being
  kept only when the source answered it.
\<close>

definition env_keeps :: "('w \<Rightarrow> bool) \<Rightarrow> ('d \<Rightarrow> bool) \<Rightarrow> ('w, 'd) keeper_env \<Rightarrow> bool" where
  "env_keeps winv answered env \<longleftrightarrow>
     (\<forall>w. winv w \<longrightarrow> winv (snd (e_tenants env w)) \<and> winv (snd (e_now env w)) \<and> winv (snd (e_ended env w))) \<and>
     (\<forall>w t. winv w \<longrightarrow> winv (snd (e_version env w t)) \<and> winv (snd (e_counts env w t))) \<and>
     (\<forall>w t v. winv w \<longrightarrow> winv (snd (e_source env w t v)) \<and> (\<forall>d. fst (e_source env w t v) = Inr (Some d) \<longrightarrow> answered d)) \<and>
     (\<forall>w t d at. winv w \<longrightarrow> answered d \<longrightarrow> winv (snd (e_replace env w t d at))) \<and>
     (\<forall>w t at. winv w \<longrightarrow> winv (snd (e_confirm env w t at))) \<and> (\<forall>w t cs. winv w \<longrightarrow> winv (snd (e_report env w t cs)))"

lemma env_keepsD:
  assumes "env_keeps winv answered env" "winv w"
  shows "e_tenants env w = (r1, w') \<Longrightarrow> winv w'" "e_now env w = (at, w') \<Longrightarrow> winv w'" "e_ended env w = (b, w') \<Longrightarrow> winv w'"
    "e_version env w t = (r2, w') \<Longrightarrow> winv w'" "e_counts env w t = (r3, w') \<Longrightarrow> winv w'"
    "e_source env w t v = (r4, w') \<Longrightarrow> winv w'" "e_source env w t v = (Inr (Some d), w') \<Longrightarrow> answered d"
    "answered d \<Longrightarrow> e_replace env w t d at = (r5, w') \<Longrightarrow> winv w'" "e_confirm env w t at = (r5, w') \<Longrightarrow> winv w'"
    "e_report env w t cs = (r6, w') \<Longrightarrow> winv w'"
  using assms unfolding env_keeps_def by (metis fst_conv snd_conv)+

text \<open>What every keeper keeps: proper maps, a wake queue within its places, a window longer than the interval.\<close>

definition keeper_ok :: "keeper \<Rightarrow> bool" where
  "keeper_ok k \<longleftrightarrow> gomap_ok (k_confirmed k) \<and> gomap_ok (k_extra k) \<and> length (k_wake k) \<le> 64 \<and>
     0 < Interval (k_cfg k) \<and> Interval (k_cfg k) < TrustWindow (k_cfg k)"

lemma newKeeper_ok: "newKeeper a b cfg = Inr k \<Longrightarrow> keeper_ok k"
  by (auto simp: newKeeper_def checked_config_def keeper_ok_def Let_def defaultInterval_def second_def split: if_splits)

lemma wake_ok: "keeper_ok k \<Longrightarrow> keeper_ok (wake k t)"
  by (simp add: wake_def keeper_ok_def)

locale copy_keeper =
  fixes syn :: "('w, 'd) syncing"
  assumes syn_keeps: "syn env k w t = (err, k', w') \<Longrightarrow>
      k_cfg k' = k_cfg k \<and> k_wake k' = k_wake k \<and> k_extra k' = k_extra k \<and> k_started k' = k_started k"
    and syn_confirms: "syn env k w t = (err, k', w') \<Longrightarrow> k_confirmed k' = k_confirmed k \<or>
      (\<exists>w1 v a w2. e_source env w1 t v = (Inr a, w2) \<and> k_confirmed k' = mput (k_confirmed k) t (fst (e_now env w2)))"
    and syn_progress: "copy_up env \<Longrightarrow> syn env k w t = (err, k', w') \<Longrightarrow>
      \<exists>w2. k_confirmed k' = mput (k_confirmed k) t (fst (e_now env w2))"
    and syn_world: "env_keeps winv answered env \<Longrightarrow> winv w \<Longrightarrow> syn env k w t = (err, k', w') \<Longrightarrow> winv w'"
begin

lemma each_world: "env_keeps winv answered env \<Longrightarrow> winv w \<Longrightarrow> sync_each syn env k w ts = (errs, k', w') \<Longrightarrow> winv w'"
proof (induction ts arbitrary: k w errs)
  case (Cons t ts)
  obtain b w1 where b: "e_ended env w = (b, w1)" by (metis prod.exhaust)
  obtain err k1 w2 where s: "syn env k w1 t = (err, k1, w2)" by (metis prod.exhaust)
  obtain es k2 w3 where r: "sync_each syn env k1 w2 ts = (es, k2, w3)" by (metis prod.exhaust)
  have i: "winv w1" using env_keepsD(3) [OF Cons.prems(1,2) b] .
  from Cons.IH [OF Cons.prems(1) syn_world [OF Cons.prems(1) i s]] i Cons.prems(3) b s r show ?case by (cases b) auto
qed simp

lemma step_world:
  assumes "env_keeps winv answered env" "winv w" "run_step syn env ev k w = (errs, k', w')"
  shows "winv w'"
proof (cases ev)
  case Tick
  obtain r w1 where t: "e_tenants env w = (r, w1)" by (metis prod.exhaust)
  have "winv w1" using env_keepsD(1) [OF assms(1,2) t] .
  with assms(3) Tick t each_world [OF assms(1)] show ?thesis
    by (cases r) (auto simp: run_step_def cycle_with_def Let_def split: prod.splits)
next
  case Woken
  with assms(2,3) syn_world [OF assms(1,2)] show ?thesis
    by (auto simp: run_step_def split: list.splits prod.splits)
qed

lemma run_world: "env_keeps winv answered env \<Longrightarrow> winv w \<Longrightarrow> run_events syn env evs k w = (k', w') \<Longrightarrow> winv w'"
proof (induction evs arbitrary: k w)
  case (Cons ev evs)
  obtain es k1 w1 where s: "run_step syn env ev k w = (es, k1, w1)" by (metis prod.exhaust)
  with Cons.IH [OF Cons.prems(1) step_world [OF Cons.prems(1,2) s]] Cons.prems(3) show ?case by simp
qed simp

lemma down_sync: "source_down env \<Longrightarrow> syn env k w t = (err, k', w') \<Longrightarrow> k_confirmed k' = k_confirmed k"
  using syn_confirms by (metis fst_conv is_ok_simps(1) source_down_def)

lemma down_each:
  "source_down env \<Longrightarrow> sync_each syn env k w ts = (errs, k', w') \<Longrightarrow>
     k_confirmed k' = k_confirmed k \<and> k_cfg k' = k_cfg k \<and> k_started k' = k_started k"
proof (induction ts arbitrary: k w errs k' w')
  case (Cons t ts)
  obtain b w1 where b: "e_ended env w = (b, w1)" by (metis prod.exhaust)
  obtain err k1 w2 where s: "syn env k w1 t = (err, k1, w2)" by (metis prod.exhaust)
  obtain es k2 w3 where r: "sync_each syn env k1 w2 ts = (es, k2, w3)" by (metis prod.exhaust)
  from Cons.IH [OF Cons.prems(1) r] down_sync [OF Cons.prems(1) s] syn_keeps [OF s] Cons.prems(2) b s r show ?case
    by (cases b) auto
qed simp

lemma down_step:
  assumes "source_down env" "run_step syn env ev k w = (errs, k', w')" "k_started k"
  shows "k_confirmed k' = k_confirmed k \<and> k_cfg k' = k_cfg k \<and> k_started k'"
proof (cases ev)
  case Tick
  obtain r w1 where "e_tenants env w = (r, w1)" by (metis prod.exhaust)
  with assms Tick down_each [OF assms(1)] show ?thesis
    by (cases r) (auto simp: run_step_def cycle_with_def Let_def split: prod.splits)
next
  case Woken
  show ?thesis
  proof (cases "k_wake k")
    case Nil
    with assms Woken show ?thesis by (simp add: run_step_def)
  next
    case (Cons t q)
    obtain err k1 w1 where s: "syn env (k\<lparr>k_wake := q, k_extra := mput (k_extra k) t True\<rparr>) w t = (err, k1, w1)"
      by (metis prod.exhaust)
    from down_sync [OF assms(1) s] syn_keeps [OF s] assms(2,3) Woken Cons s show ?thesis by (simp add: run_step_def)
  qed
qed

lemma down_run:
  "source_down env \<Longrightarrow> k_started k \<Longrightarrow> run_events syn env evs k w = (k', w') \<Longrightarrow>
     k_confirmed k' = k_confirmed k \<and> k_cfg k' = k_cfg k \<and> k_started k'"
proof (induction evs arbitrary: k w)
  case (Cons ev evs)
  obtain es k1 w1 where s: "run_step syn env ev k w = (es, k1, w1)" by (metis prod.exhaust)
  note d = down_step [OF Cons.prems(1) s Cons.prems(2)]
  from Cons.IH [of k1 w1] d Cons.prems s show ?case by simp
qed simp

lemma syn_ok: "keeper_ok k \<Longrightarrow> syn env k w t = (err, k', w') \<Longrightarrow> keeper_ok k'"
  using syn_keeps syn_confirms unfolding keeper_ok_def by (metis gomap_ok_mput)

lemma each_ok: "keeper_ok k \<Longrightarrow> sync_each syn env k w ts = (errs, k', w') \<Longrightarrow> keeper_ok k'"
proof (induction ts arbitrary: k w errs)
  case (Cons t ts)
  obtain b w1 where b: "e_ended env w = (b, w1)" by (metis prod.exhaust)
  obtain err k1 w2 where s: "syn env k w1 t = (err, k1, w2)" by (metis prod.exhaust)
  obtain es k2 w3 where r: "sync_each syn env k1 w2 ts = (es, k2, w3)" by (metis prod.exhaust)
  from Cons.IH [OF syn_ok [OF Cons.prems(1) s]] r Cons.prems b s show ?case by (cases b) auto
qed simp

lemma cycle_ok:
  assumes "keeper_ok k" "cycle_with syn env k w = (errs, k', w')"
  shows "keeper_ok k'"
proof -
  obtain r w1 where t: "e_tenants env w = (r, w1)" by (metis prod.exhaust)
  show ?thesis
  proof (cases r)
    case (Inl e)
    with assms t show ?thesis by (auto simp: cycle_with_def keeper_ok_def)
  next
    case (Inr ts)
    let ?k1 = "k\<lparr>k_extra := mkeep (\<lambda>t _. t \<notin> set ts) (k_extra k)\<rparr>"
    obtain es k2 w2 where e: "sync_each syn env ?k1 w1 (ts @ mkeys (k_extra ?k1)) = (es, k2, w2)" by (metis prod.exhaust)
    have "keeper_ok ?k1" using assms(1) by (simp add: keeper_ok_def gomap_ok_mkeep)
    from each_ok [OF this e] assms(2) t Inr e show ?thesis by (auto simp: cycle_with_def keeper_ok_def)
  qed
qed

lemma step_ok:
  assumes "keeper_ok k" "run_step syn env ev k w = (errs, k', w')"
  shows "keeper_ok k'"
proof (cases ev)
  case Tick
  with assms cycle_ok [OF assms(1)] show ?thesis by (simp add: run_step_def)
next
  case Woken
  show ?thesis
  proof (cases "k_wake k")
    case Nil
    with assms Woken show ?thesis by (simp add: run_step_def)
  next
    case (Cons t q)
    let ?k1 = "k\<lparr>k_wake := q, k_extra := mput (k_extra k) t True\<rparr>"
    obtain err k1 w1 where s: "syn env ?k1 w t = (err, k1, w1)" by (metis prod.exhaust)
    have "keeper_ok ?k1" using assms(1) Cons by (simp add: keeper_ok_def)
    from syn_ok [OF this s] assms(2) Woken Cons s show ?thesis by (simp add: run_step_def)
  qed
qed

lemma run_ok: "keeper_ok k \<Longrightarrow> keeper_ok (fst (run_events syn env evs k w))"
proof (induction evs arbitrary: k w)
  case (Cons ev evs)
  obtain es k1 w1 where s: "run_step syn env ev k w = (es, k1, w1)" by (metis prod.exhaust)
  with Cons.IH [OF step_ok [OF Cons.prems s]] show ?case by simp
qed simp

lemma outage:
  assumes "source_down env" "k_started k" "mget (k_confirmed k) t = Some at" "at + TrustWindow (k_cfg k) < now"
  shows "at < trustedSince (fst (run_events syn env evs k w)) now \<and> ready (fst (run_events syn env evs k w)) now \<noteq> None
    \<and> mget (k_confirmed (fst (run_events syn env evs k w))) t = Some at"
proof -
  obtain k' w' where r: "run_events syn env evs k w = (k', w')" by (metis prod.exhaust)
  note d = down_run [OF assms(1,2) r]
  have m: "mget (k_confirmed k') t = Some at" and st: "at < trustedSince k' now"
    using d assms(3,4) by (simp_all add: trustedSince_def)
  then have "stale_tenants k' now \<noteq> []"
    using mget_in_set [OF m] by (auto simp: stale_tenants_def filter_empty_conv)
  with r m st show ?thesis by (simp add: ready_def)
qed

lemma up_each:
  "copy_up env \<Longrightarrow> (\<And>w. t0 \<le> fst (e_now env w)) \<Longrightarrow> (\<And>w. \<not> fst (e_ended env w)) \<Longrightarrow>
     sync_each syn env k w ts = (errs, k', w') \<Longrightarrow>
     (t \<in> set ts \<longrightarrow> (\<exists>at. mget (k_confirmed k') t = Some at \<and> t0 \<le> at))
     \<and> (t \<notin> set ts \<longrightarrow> mget (k_confirmed k') t = mget (k_confirmed k) t)"
proof (induction ts arbitrary: k w errs k' w')
  case (Cons u ts)
  obtain w1 where b: "e_ended env w = (False, w1)" using Cons.prems(3) [of w] by (metis prod.collapse)
  obtain err k1 w2 where s: "syn env k w1 u = (err, k1, w2)" by (metis prod.exhaust)
  obtain es k2 w3 where r: "sync_each syn env k1 w2 ts = (es, k2, w3)" by (metis prod.exhaust)
  obtain wx where c: "k_confirmed k1 = mput (k_confirmed k) u (fst (e_now env wx))"
    using syn_progress [OF Cons.prems(1) s] by blast
  have "k' = k2" using Cons.prems(4) b s r by simp
  with Cons.IH [OF Cons.prems(1-3) r] c Cons.prems(2) [of wx] show ?case
    by (cases "t \<in> set ts") (auto simp: gomap_simps)
qed simp

lemma up_cycle:
  assumes "copy_up env" "\<And>w. t0 \<le> fst (e_now env w)" "\<And>w. \<not> fst (e_ended env w)" "gomap_ok (k_extra k)"
    and "e_tenants env w = (Inr ts, w1)" "cycle_with syn env k w = (errs, k', w')" "t \<in> set ts \<or> mget (k_extra k) t \<noteq> None"
  shows "k_started k' \<and> (\<exists>at. mget (k_confirmed k') t = Some at \<and> t0 \<le> at)"
proof -
  let ?k1 = "k\<lparr>k_extra := mkeep (\<lambda>t _. t \<notin> set ts) (k_extra k)\<rparr>"
  obtain es k2 w2 where r: "sync_each syn env ?k1 w1 (ts @ mkeys (k_extra ?k1)) = (es, k2, w2)" by (metis prod.exhaust)
  have k': "k' = k2\<lparr>k_started := True\<rparr>" using assms(5,6) r by (simp add: cycle_with_def Let_def)
  have "t \<in> set (ts @ mkeys (k_extra ?k1))"
    using assms(4,7) mget_None_iff [of "k_extra ?k1" t] by (auto simp: gomap_simps split: option.splits if_splits)
  with up_each [OF assms(1-3) r, of t] have "\<exists>at. mget (k_confirmed k2) t = Some at \<and> t0 \<le> at" by blast
  with k' show ?thesis by simp
qed

end

lemma sync_copy_laws:
  assumes "sync_copy env k w t = (err, k', w')"
  shows "k' = k\<lparr>k_confirmed := k_confirmed k'\<rparr>"
    and "k_confirmed k' = k_confirmed k \<or>
      (\<exists>w1 v a w2. e_source env w1 t v = (Inr a, w2) \<and> k_confirmed k' = mput (k_confirmed k) t (fst (e_now env w2)))"
    and "copy_up env \<Longrightarrow> err = None \<and> (\<exists>w2. k_confirmed k' = mput (k_confirmed k) t (fst (e_now env w2)))"
proof -
  show "k' = k\<lparr>k_confirmed := k_confirmed k'\<rparr>"
    using assms by (auto simp: sync_copy_def split: prod.splits sum.splits option.splits)
  show "k_confirmed k' = k_confirmed k \<or>
      (\<exists>w1 v a w2. e_source env w1 t v = (Inr a, w2) \<and> k_confirmed k' = mput (k_confirmed k) t (fst (e_now env w2)))"
    using assms by (auto simp: sync_copy_def split: prod.splits sum.splits option.splits) (metis fst_conv)+
  assume up: "copy_up env"
  obtain rv w1 where v: "e_version env w t = (rv, w1)" by (metis prod.exhaust)
  obtain ver where rv: "rv = Inr ver" using up v by (metis copy_up_def fst_conv is_ok_simps(2) sum.exhaust)
  obtain ra w2 where a: "e_source env w1 t ver = (ra, w2)" by (metis prod.exhaust)
  obtain ans where ra: "ra = Inr ans" using up a by (metis copy_up_def fst_conv is_ok_simps(2) sum.exhaust)
  obtain at w3 where n: "e_now env w2 = (at, w3)" by (metis prod.exhaust)
  have kept: "fst (case ans of Some d \<Rightarrow> e_replace env w3 t d at | None \<Rightarrow> e_confirm env w3 t at) = None"
    using up by (simp add: copy_up_def split: option.splits)
  obtain w4 where "(case ans of Some d \<Rightarrow> e_replace env w3 t d at | None \<Rightarrow> e_confirm env w3 t at) = (None, w4)"
    using kept by (metis prod.collapse)
  with assms v rv a ra n show "err = None \<and> (\<exists>w2. k_confirmed k' = mput (k_confirmed k) t (fst (e_now env w2)))"
    by (auto simp: sync_copy_def intro!: exI [of _ w2])
qed

lemma sync_copy_world:
  assumes "env_keeps winv answered env" "winv w" "sync_copy env k w t = (err, k', w')"
  shows "winv w'"
proof -
  obtain rv w1 where v: "e_version env w t = (rv, w1)" by (metis prod.exhaust)
  have i1: "winv w1" using env_keepsD(4) [OF assms(1,2) v] .
  show ?thesis
  proof (cases rv)
    case (Inl e)
    with assms(3) v i1 show ?thesis by (simp add: sync_copy_def)
  next
    case (Inr ver)
    obtain ra w2 where a: "e_source env w1 t ver = (ra, w2)" by (metis prod.exhaust)
    obtain at w3 where n: "e_now env w2 = (at, w3)" by (metis prod.exhaust)
    have i2: "winv w2" using env_keepsD(6) [OF assms(1) i1 a] .
    have i3: "winv w3" using env_keepsD(2) [OF assms(1) i2 n] .
    show ?thesis
      using assms(3) v Inr a n i2 env_keepsD(7) [OF assms(1) i1] env_keepsD(8,9) [OF assms(1) i3]
      by (auto simp: sync_copy_def split: sum.splits option.splits prod.splits) blast+
  qed
qed

lemma reportCounts_world:
  assumes "env_keeps winv answered env" "winv w" "reportCounts env k w t = (err, k', w')"
  shows "winv w'"
proof -
  obtain rc w1 where c: "e_counts env w t = (rc, w1)" by (metis prod.exhaust)
  have i1: "winv w1" using env_keepsD(5) [OF assms(1,2) c] .
  with assms(3) c env_keepsD(10) [OF assms(1) i1] show ?thesis by (auto simp: reportCounts_def split: sum.splits if_splits prod.splits)
qed

lemma reportCounts_keeps:
  "reportCounts env k w t = (err, k', w') \<Longrightarrow> k' = k\<lparr>k_reported := k_reported k'\<rparr>"
  by (auto simp: reportCounts_def split: prod.splits sum.splits if_splits)

lemma sync_split:
  assumes "sync env k w t = (err, k', w')"
  obtains err1 k1 w1 where "sync_copy env k w t = (err1, k1, w1)" "k_confirmed k' = k_confirmed k1"
    "k' = k1\<lparr>k_reported := k_reported k'\<rparr>"
proof -
  obtain err1 k1 w1 where c: "sync_copy env k w t = (err1, k1, w1)" by (metis prod.exhaust)
  have "k' = k1\<lparr>k_reported := k_reported k'\<rparr>"
  proof (cases err1)
    case None
    with assms c have "reportCounts env k1 w1 t = (err, k', w')" by (simp add: sync_def)
    then show ?thesis by (rule reportCounts_keeps)
  next
    case (Some e)
    with assms c show ?thesis by (simp add: sync_def)
  qed
  moreover from this have "k_confirmed k' = k_confirmed k1" by (metis keeper.select_convs(4) keeper.surjective keeper.update_convs(5))
  ultimately show ?thesis using c that by blast
qed

interpretation roles: copy_keeper sync
proof
  fix env :: "('a, 'b) keeper_env" and k w t err k' w'
  assume s: "sync env k w t = (err, k', w')"
  obtain err1 k1 w1 where c: "sync_copy env k w t = (err1, k1, w1)" and k': "k_confirmed k' = k_confirmed k1" "k' = k1\<lparr>k_reported := k_reported k'\<rparr>"
    using sync_split [OF s] .
  note l = sync_copy_laws [OF c]
  have "k_cfg k1 = k_cfg k \<and> k_wake k1 = k_wake k \<and> k_extra k1 = k_extra k \<and> k_started k1 = k_started k"
    by (subst (1 2 3 4) l(1)) simp
  then show "k_cfg k' = k_cfg k \<and> k_wake k' = k_wake k \<and> k_extra k' = k_extra k \<and> k_started k' = k_started k"
    by (subst (1 2 3 4) k'(2)) simp
  show "k_confirmed k' = k_confirmed k \<or>
      (\<exists>w1 v a w2. e_source env w1 t v = (Inr a, w2) \<and> k_confirmed k' = mput (k_confirmed k) t (fst (e_now env w2)))"
    using l(2) k' by simp
  show "copy_up env \<Longrightarrow> \<exists>w2. k_confirmed k' = mput (k_confirmed k) t (fst (e_now env w2))"
    using l(3) k' by simp
next
  fix winv :: "'a \<Rightarrow> bool" and answered :: "'b \<Rightarrow> bool" and env k w t err k' w'
  assume i: "env_keeps winv answered env" "winv w" and s: "sync env k w t = (err, k', w')"
  obtain err1 k1 w1 where c: "sync_copy env k w t = (err1, k1, w1)" by (metis prod.exhaust)
  with s sync_copy_world [OF i c] reportCounts_world [OF i(1)] show "winv w'"
    by (cases err1) (auto simp: sync_def)
qed

interpretation charts: copy_keeper chart_sync
proof
  fix env :: "('a, 'b) keeper_env" and k w t err k' w'
  assume "chart_sync env k w t = (err, k', w')"
  then have c: "sync_copy env k w t = (err, k', w')" by (simp add: chart_sync_def)
  note l = sync_copy_laws [OF c]
  show "k_cfg k' = k_cfg k \<and> k_wake k' = k_wake k \<and> k_extra k' = k_extra k \<and> k_started k' = k_started k"
    by (subst (1 2 3 4) l(1)) simp
  show "k_confirmed k' = k_confirmed k \<or>
      (\<exists>w1 v a w2. e_source env w1 t v = (Inr a, w2) \<and> k_confirmed k' = mput (k_confirmed k) t (fst (e_now env w2)))"
    using l(2) .
  show "copy_up env \<Longrightarrow> \<exists>w2. k_confirmed k' = mput (k_confirmed k) t (fst (e_now env w2))"
    using l(3) by simp
next
  fix winv :: "'a \<Rightarrow> bool" and answered :: "'b \<Rightarrow> bool" and env k w t err k' w'
  assume "env_keeps winv answered env" "winv w" "chart_sync env k w t = (err, k', w')"
  then show "winv w'" using sync_copy_world by (metis chart_sync_def)
qed

section \<open>States a keeper reaches\<close>

inductive reaches :: "('w, 'd) syncing \<Rightarrow> ('w, 'd) keeper_env \<Rightarrow> keeper_config \<Rightarrow> keeper \<Rightarrow> 'w \<Rightarrow> bool"
  for syn env cfg where
  made: "newKeeper True True cfg = Inr k \<Longrightarrow> reaches syn env cfg k w"
| woken: "reaches syn env cfg k w \<Longrightarrow> reaches syn env cfg (wake k t) w"
| ran: "reaches syn env cfg k w \<Longrightarrow> run_step syn env ev k w = (errs, k', w') \<Longrightarrow> reaches syn env cfg k' w'"

text \<open>
  from its construction on, through any interleaving of wakes, ticks and taken wakes, a
  keeper of either kind holds one confirmation per tenant, at most 64 waiting wakes, and a trust
  window longer than its interval.
\<close>

theorem keeper_invariant:
  fixes env :: "('w, 'd) keeper_env"
  assumes "reaches syn env cfg k w" and "syn = sync \<or> syn = chart_sync"
  shows "keeper_ok k"
  using assms(1)
proof (induction rule: reaches.induct)
  case (ran k w ev errs k' w')
  with assms(2) roles.step_ok [OF ran.IH, where env = env] charts.step_ok [OF ran.IH, where env = env] show ?case by blast
qed (simp_all add: newKeeper_ok wake_ok)

section \<open>A copy is trusted for one window\<close>

text \<open>
  C27: while the register cannot be reached, no cycle and no waking tenant moves a confirmation:
  once the window has passed since a tenant's last one, its copy lies before the moment the
  keeper trusts from, and readiness is refused, for the roles and for the chart alike.
\<close>

theorem outage_ends_trust:
  fixes env :: "('w, 'd) keeper_env"
  assumes "source_down env" "k_started k" "mget (k_confirmed k) t = Some at" "at + TrustWindow (k_cfg k) < now"
    and "syn = sync \<or> syn = chart_sync"
  shows "at < trustedSince (fst (run_events syn env evs k w)) now \<and> ready (fst (run_events syn env evs k w)) now \<noteq> None
    \<and> mget (k_confirmed (fst (run_events syn env evs k w))) t = Some at"
  using roles.outage [OF assms(1-4)] charts.outage [OF assms(1-4)] assms(5) by blast

text \<open>
  C28: a cycle in which the register and the store answer confirms every tenant the store lists
  and every tenant that was woken, at a time no earlier than the cycle's, for the roles and
  for the chart alike; and the keeper is ready exactly when a cycle has run, no tenant it
  confirmed is older than the window, and no woken tenant is unconfirmed.
\<close>

theorem cycle_confirms_everyone:
  fixes env :: "('w, 'd) keeper_env"
  assumes "copy_up env" "\<And>w. t0 \<le> fst (e_now env w)" "\<And>w. \<not> fst (e_ended env w)" "keeper_ok k"
    and "e_tenants env w = (Inr ts, w1)" "cycle env k w = (errs, k', w') \<or> chart_cycle env k w = (errs, k', w')"
    and "t \<in> set ts \<or> mget (k_extra k) t \<noteq> None"
  shows "k_started k' \<and> (\<exists>at. mget (k_confirmed k') t = Some at \<and> t0 \<le> at)
    \<and> (ready k' now = None \<longleftrightarrow> (\<forall>u at. mget (k_confirmed k') u = Some at \<longrightarrow> trustedSince k' now \<le> at)
         \<and> (\<forall>u. mget (k_extra k') u \<noteq> None \<longrightarrow> mget (k_confirmed k') u \<noteq> None))"
proof -
  have ex: "gomap_ok (k_extra k)" using assms(4) by (simp add: keeper_ok_def)
  have ok: "gomap_ok (k_confirmed k')"
    using assms(6) roles.cycle_ok [OF assms(4), where env = env] charts.cycle_ok [OF assms(4), where env = env]
    unfolding cycle_def chart_cycle_def keeper_ok_def by blast
  have up: "k_started k' \<and> (\<exists>at. mget (k_confirmed k') t = Some at \<and> t0 \<le> at)"
    using assms(6) roles.up_cycle [OF assms(1-3) ex assms(5) _ assms(7)] charts.up_cycle [OF assms(1-3) ex assms(5) _ assms(7)]
    unfolding cycle_def chart_cycle_def by blast
  have "stale_tenants k' now = [] \<longleftrightarrow> (\<forall>u at. (u, at) \<in> set (k_confirmed k') \<longrightarrow> trustedSince k' now \<le> at)
      \<and> (\<forall>u. u \<in> set (mkeys (k_extra k')) \<longrightarrow> mget (k_confirmed k') u \<noteq> None)"
    by (fastforce simp: stale_tenants_def filter_empty_conv not_less)
  moreover have "(u, at) \<in> set (k_confirmed k') \<longleftrightarrow> mget (k_confirmed k') u = Some at" for u at
    using ok by (simp add: mget_def gomap_ok_def)
  moreover have "u \<in> set (mkeys (k_extra k')) \<longleftrightarrow> mget (k_extra k') u \<noteq> None" for u
    by (simp add: mget_None_iff)
  ultimately show ?thesis using up by (simp add: ready_def)
qed

definition demo_copies :: "bool \<Rightarrow> (unit, unit) keeper_env" where
  "demo_copies up = \<lparr>e_tenants = (\<lambda>w. (Inr [''t1''], w)), e_version = (\<lambda>w t. (Inr '''', w)),
     e_source = (\<lambda>w t v. (if up then Inr None else Inl ''unreachable'', w)),
     e_replace = (\<lambda>w t d at. (None, w)), e_confirm = (\<lambda>w t at. (None, w)), e_counts = (\<lambda>w t. (Inr [], w)),
     e_report = (\<lambda>w t c. (Inr [], w)), e_now = (\<lambda>w. (100, w)), e_ended = (\<lambda>w. (False, w))\<rparr>"

definition demo_keeper :: keeper where
  "demo_keeper = \<lparr>k_cfg = \<lparr>Interval = 10, TrustWindow = 50\<rparr>, k_wake = [''t2''], k_started = True, k_confirmed = [(''t1'', 20)],
     k_reported = [], k_extra = []\<rparr>"

theorem keeper_invariant_witness:
  "\<exists>k. newKeeper True True \<lparr>Interval = 0, TrustWindow = 0\<rparr> = Inr k \<and> keeper_ok (wake k ''t2'')"
proof -
  obtain k where k: "newKeeper True True \<lparr>Interval = 0, TrustWindow = 0\<rparr> = Inr k" by (simp add: eval_simps)
  then have "reaches sync (demo_copies True) \<lparr>Interval = 0, TrustWindow = 0\<rparr> (wake k ''t2'') ()" by (intro reaches.intros)
  then have "keeper_ok (wake k ''t2'')" by (rule keeper_invariant) simp
  with k show ?thesis by blast
qed

theorem outage_ends_trust_witness:
  "ready (fst (run_events sync (demo_copies False) [Tick, Woken, Tick] demo_keeper ())) 71 \<noteq> None"
proof -
  have "source_down (demo_copies False)" by (simp add: source_down_def demo_copies_def)
  moreover have "k_started demo_keeper" "mget (k_confirmed demo_keeper) ''t1'' = Some 20"
      "20 + TrustWindow (k_cfg demo_keeper) < 71"
    by (simp_all add: demo_keeper_def mget_def)
  ultimately show ?thesis
    using outage_ends_trust [of "demo_copies False" demo_keeper "''t1''" 20 71 sync] by blast
qed

theorem cycle_confirms_everyone_witness:
  "\<exists>errs k' w'. cycle (demo_copies True) demo_keeper () = (errs, k', w') \<and> mget (k_confirmed k') ''t1'' = Some 100"
proof -
  have c: "cycle (demo_copies True) demo_keeper () = ([], demo_keeper\<lparr>k_confirmed := [(''t1'', 100)], k_reported := [(''t1'', [])]\<rparr>, ())"
    by (simp add: demo_copies_def demo_keeper_def eval_simps)
  have a: "copy_up (demo_copies True)" "100 \<le> fst (e_now (demo_copies True) w)" "\<not> fst (e_ended (demo_copies True) w)"
      "keeper_ok demo_keeper" "e_tenants (demo_copies True) () = (Inr [''t1''], ())" for w
    by (simp_all add: copy_up_def demo_copies_def demo_keeper_def is_ok_def keeper_ok_def gomap_ok_def)
  from cycle_confirms_everyone [OF a(1-5), of "[]" _ "()" "''t1''" 100] c show ?thesis
    by (auto simp: mget_def)
qed

end
