(* ===== verification/Membership_Register.thy ===== *)
theory Membership_Register
  imports Outbound Copy_Keeper Json_Decode
begin

text \<open>
  The membership register reached over the network: \<open>src/placement/register.go\<close> and
  \<open>src/chart/register.go\<close>. The calls go through a \<open>Doer\<close>, an argument; the auth client of the
  outbound calls is one (\<open>client_doer\<close>). \<open>net/url\<close>'s parser is an argument. What the keepers of the copies rely on is the locale \<open>copy_source\<close>, interpreted on
  both registers.
\<close>

section \<open>Reaching the register\<close>

definition scopeDefinitions :: string where "scopeDefinitions = ''membership:definitions''"
definition scopePlacements :: string where "scopePlacements = ''membership:placements''"
definition scopeChart :: string where "scopeChart = ''membership:chart''"

datatype register_error =
    NoClient | NotAbsolute | NoAudience | NoGroups | NotAGroup string
  | CallError outbound_error | RegisterAnswered hop nat bytes | NoVersion | Unreadable | RoleWithoutID | HolderWithoutSubject

text \<open>\<open>Doer\<close>: audience, scope, tenant, method, address, header and body.\<close>

type_synonym 'w doer = "string \<Rightarrow> string \<Rightarrow> string \<Rightarrow> string \<Rightarrow> string \<Rightarrow> header \<Rightarrow> bytes option \<Rightarrow> 'w
    \<Rightarrow> (outbound_error, http_response) result \<times> 'w"

definition client_doer :: "('w, 'k) outbound_env \<Rightarrow> (outbound \<times> 'w) doer" where
  "client_doer env audience scope tenant meth url h body cw =
     (case cw of (c, w) \<Rightarrow> case doServiceForTenant env audience scope tenant meth url h body c w of
        ((r, _), c1, w1) \<Rightarrow> (r, (c1, w1)))"

record register =
  rg_base :: string
  rg_audience :: string
  rg_groups :: "string list"

definition trim_slashes :: "string \<Rightarrow> string" where
  "trim_slashes s = rev (dropWhile (\<lambda>c. c = CHR ''/'') (rev s))"

text \<open>\<open>parse\<close> answers an address's scheme and host.\<close>

definition absolute :: "(string \<Rightarrow> (string \<times> string) option) \<Rightarrow> string \<Rightarrow> bool" where
  "absolute parse baseURL = (case parse baseURL of None \<Rightarrow> False | Some (scheme, host) \<Rightarrow> scheme \<noteq> '''' \<and> host \<noteq> '''')"

definition bad_group :: "string \<Rightarrow> bool" where
  "bad_group g \<longleftrightarrow> g = '''' \<or> list_ex (\<lambda>c. c \<in> set ''/:'') g"

definition newRegister :: "(string \<Rightarrow> (string \<times> string) option) \<Rightarrow> bool \<Rightarrow> string \<Rightarrow> string \<Rightarrow> string list \<Rightarrow> (register_error, register) result" where
  "newRegister parse has_client baseURL audience groups =
     (if \<not> has_client then Inl NoClient
      else if \<not> absolute parse baseURL then Inl NotAbsolute
      else if audience = '''' then Inl NoAudience
      else if groups = [] then Inl NoGroups
      else case find bad_group groups of
        Some g \<Rightarrow> Inl (NotAGroup g)
      | None \<Rightarrow> Inr \<lparr>rg_base = trim_slashes baseURL, rg_audience = audience, rg_groups = groups\<rparr>)"

definition tenantURL :: "register \<Rightarrow> string \<Rightarrow> string \<Rightarrow> string" where
  "tenantURL r tenant what = rg_base r @ ''/api/v1/tenants/'' @ path_escape tenant @ ''/'' @ what"

definition refused :: "http_response \<Rightarrow> register_error" where
  "refused res = RegisterAnswered HopResource (hp_status res) (hp_body res)"

text \<open>The header of a conditional read.\<close>

definition read_header :: "string \<Rightarrow> header" where
  "read_header version = (let h = [(''Accept'', ''application/json'')] in
     if version \<noteq> '''' then header_set h ''If-None-Match'' version else h)"

section \<open>Roles\<close>

record role_body =
  rb_ID :: string
  rb_Seed :: string
  rb_Name :: string
  rb_Labels :: "(string, string) gomap option"
  rb_Description :: string
  rb_Permissions :: "string list"

text \<open>\<open>definitionsBody\<close>: its only field is the list of roles.\<close>

definition zero_role :: role_body where
  "zero_role = \<lparr>rb_ID = '''', rb_Seed = '''', rb_Name = '''', rb_Labels = None, rb_Description = '''', rb_Permissions = []\<rparr>"

definition role_fields :: "role_body fields" where
  "role_fields = [(''id'', field rb_ID rb_ID_update decode_string), (''seed'', field rb_Seed rb_Seed_update decode_string),
     (''name'', field rb_Name rb_Name_update decode_string), (''labels'', field rb_Labels rb_Labels_update (decode_map '''' decode_string)),
     (''description'', field rb_Description rb_Description_update decode_string),
     (''permissions'', field rb_Permissions rb_Permissions_update (decode_slice '''' decode_string))]"

definition definitionsBody :: "bytes \<Rightarrow> role_body list option" where
  "definitionsBody = unmarshal [] (decode_struct [(''roles'', decode_slice zero_role (decode_struct role_fields))])"

text \<open>\<open>own\<close>: \<open>slices.Compact\<close> drops a value equal to the one before it.\<close>

definition own :: "register \<Rightarrow> string list \<Rightarrow> string list" where
  "own r perms = remdups_adj (sort (filter (\<lambda>p. case cut_at (CHR ''/'') p of (grp, _, ok) \<Rightarrow> ok \<and> grp \<in> set (rg_groups r)) perms))"

definition copy_role :: "register \<Rightarrow> role_body \<Rightarrow> role" where
  "copy_role r b = \<lparr>ro_ID = rb_ID b, ro_Seed = rb_Seed b, ro_Name = rb_Name b,
     ro_Labels = (case rb_Labels b of None \<Rightarrow> [] | Some l \<Rightarrow> l), ro_Description = rb_Description b, ro_Keys = own r (rb_Permissions b)\<rparr>"

fun copy_roles :: "register \<Rightarrow> role_body list \<Rightarrow> (register_error, role list) result" where
  "copy_roles r [] = Inr []"
| "copy_roles r (b # bs) = (if rb_ID b = '''' then Inl RoleWithoutID
     else case copy_roles r bs of Inl e \<Rightarrow> Inl e | Inr rs \<Rightarrow> Inr (copy_role r b # rs))"

text \<open>The answer to a conditional read: \<open>None\<close> while the version is current.\<close>

definition versioned :: "(string \<Rightarrow> bytes \<Rightarrow> (register_error, 'd) result) \<Rightarrow> (outbound_error, http_response) result \<times> 'w
    \<Rightarrow> (register_error, 'd option) result \<times> 'w" where
  "versioned read answered =
     (case answered of
        (Inl e, w) \<Rightarrow> (Inl (CallError e), w)
      | (Inr res, w) \<Rightarrow>
          if hp_status res = 304 then (Inr None, w)
          else if hp_status res \<noteq> 200 then (Inl (refused res), w)
          else if header_get (hp_header res) ''ETag'' = '''' then (Inl NoVersion, w)
          else case read (header_get (hp_header res) ''ETag'') (hp_body res) of Inl e \<Rightarrow> (Inl e, w) | Inr d \<Rightarrow> (Inr (Some d), w))"

definition read_definitions :: "register \<Rightarrow> string \<Rightarrow> bytes \<Rightarrow> (register_error, definitions) result" where
  "read_definitions r etag body =
     (case definitionsBody body of None \<Rightarrow> Inl Unreadable
      | Some bs \<Rightarrow> (case copy_roles r bs of Inl e \<Rightarrow> Inl e | Inr rs \<Rightarrow> Inr \<lparr>df_Version = etag, df_Roles = rs\<rparr>))"

definition register_definitions :: "'w doer \<Rightarrow> register \<Rightarrow> 'w \<Rightarrow> string \<Rightarrow> string
    \<Rightarrow> (register_error, definitions option) result \<times> 'w" where
  "register_definitions call r w tenant version =
     versioned (read_definitions r)
       (call (rg_audience r) scopeDefinitions tenant ''GET'' (tenantURL r tenant ''role-definitions'') (read_header version) None w)"

text \<open>The body of a report: a map is written with its keys in order. Writing strings and numbers does not fail.\<close>

definition counts_json :: "counts \<Rightarrow> json" where
  "counts_json cs = Obj [(''placements'', Obj (map (\<lambda>(k, n). (k, Num (format_int n))) (sort_key fst cs)))]"

definition unknownBody :: "bytes \<Rightarrow> string list option" where
  "unknownBody = unmarshal [] (decode_struct [(''unknown'', decode_slice '''' decode_string)])"

definition report_answer :: "(outbound_error, http_response) result \<times> 'w
    \<Rightarrow> (register_error, string list) result \<times> 'w" where
  "report_answer answered =
     (case answered of
        (Inl e, w) \<Rightarrow> (Inl (CallError e), w)
      | (Inr res, w) \<Rightarrow>
          if hp_status res \<noteq> 200 then (Inl (refused res), w)
          else case unknownBody (hp_body res) of None \<Rightarrow> (Inl Unreadable, w) | Some unknown \<Rightarrow> (Inr unknown, w))"

definition report :: "'w doer \<Rightarrow> register \<Rightarrow> 'w \<Rightarrow> string \<Rightarrow> counts
    \<Rightarrow> (register_error, string list) result \<times> 'w" where
  "report call r w tenant cs =
     report_answer
       (call (rg_audience r) scopePlacements tenant ''PUT'' (tenantURL r tenant ''role-placements'')
          [(''Accept'', ''application/json''), (''Content-Type'', ''application/json'')] (Some (marshal (counts_json cs))) w)"

section \<open>The chart\<close>

definition chart_newRegister :: "(string \<Rightarrow> (string \<times> string) option) \<Rightarrow> bool \<Rightarrow> string \<Rightarrow> string \<Rightarrow> (register_error, register) result" where
  "chart_newRegister parse has_client baseURL audience =
     (if \<not> has_client then Inl NoClient
      else if \<not> absolute parse baseURL then Inl NotAbsolute
      else if audience = '''' then Inl NoAudience
      else Inr \<lparr>rg_base = trim_slashes baseURL, rg_audience = audience, rg_groups = []\<rparr>)"

definition chartBody :: "bytes \<Rightarrow> (string, string list) gomap option" where
  "chartBody b = map_option (\<lambda>m. case m of None \<Rightarrow> [] | Some below \<Rightarrow> below)
     (unmarshal None (decode_struct [(''below'', decode_map [] (decode_slice '''' decode_string))]) b)"

definition below_of :: "string \<Rightarrow> string list \<Rightarrow> string list" where
  "below_of subject below = remdups_adj (sort (filter (\<lambda>s. \<not> (s = '''' \<or> s = subject)) below))"

fun copy_below :: "(string \<times> string list) list \<Rightarrow> (register_error, (string, string list) gomap) result" where
  "copy_below [] = Inr []"
| "copy_below ((subject, below) # bs) = (if subject = '''' then Inl HolderWithoutSubject
     else case copy_below bs of Inl e \<Rightarrow> Inl e
       | Inr m \<Rightarrow> Inr (if below_of subject below \<noteq> [] then (subject, below_of subject below) # m else m))"

definition read_chart :: "string \<Rightarrow> bytes \<Rightarrow> (register_error, chart) result" where
  "read_chart etag body =
     (case chartBody body of None \<Rightarrow> Inl Unreadable
      | Some bs \<Rightarrow> (case copy_below bs of Inl e \<Rightarrow> Inl e | Inr m \<Rightarrow> Inr \<lparr>ch_Version = etag, ch_Below = m\<rparr>))"

definition register_chart :: "'w doer \<Rightarrow> register \<Rightarrow> 'w \<Rightarrow> string \<Rightarrow> string
    \<Rightarrow> (register_error, chart option) result \<times> 'w" where
  "register_chart call r w tenant version =
     versioned read_chart
       (call (rg_audience r) scopeChart tenant ''GET'' (tenantURL r tenant ''chart'') (read_header version) None w)"

lemmas register_eval [eval_simps] = scopeDefinitions_def scopePlacements_def scopeChart_def client_doer_def trim_slashes_def absolute_def
  bad_group_def newRegister_def tenantURL_def refused_def read_header_def own_def copy_role_def versioned_def read_definitions_def
  register_definitions_def report_answer_def report_def chart_newRegister_def below_of_def read_chart_def register_chart_def

section \<open>What a copy holds\<close>

lemma sorted_compact: "sorted xs \<Longrightarrow> sorted (remdups_adj xs) \<and> distinct (remdups_adj (xs :: 'a :: linorder list))"
proof (induction xs rule: remdups_adj.induct)
  case (3 x y xs)
  then show ?case by (cases "x = y") (auto simp: less_le)
qed simp_all

text \<open>Sorting and dropping repetitions lists the elements as a set, in order.\<close>

lemma compact_sort: "remdups_adj (sort xs) = sorted_list_of_set (set (xs :: 'a :: linorder list))"
  using sorted_compact [OF sorted_sort, of xs] by (intro sorted_distinct_set_unique) simp_all

lemma strictly_sorted_set: "finite A \<Longrightarrow> sorted_wrt (<) (sorted_list_of_set (A :: 'a :: linorder set))"
  by (simp add: strict_sorted_iff)

definition own_key :: "register \<Rightarrow> string \<Rightarrow> bool" where
  "own_key r p \<longleftrightarrow> (\<exists>grp rest. p = grp @ CHR ''/'' # rest \<and> grp \<in> set (rg_groups r))"

definition groups_ok :: "register \<Rightarrow> bool" where
  "groups_ok r \<longleftrightarrow> list_all (\<lambda>g. CHR ''/'' \<notin> set g) (rg_groups r)"

lemma newRegister_groups: "newRegister parse b url aud groups = Inr r \<Longrightarrow> groups_ok r"
  by (auto simp: newRegister_def groups_ok_def bad_group_def list_all_iff list_ex_iff find_None_iff split: if_splits option.splits)

lemma cut_at_parts: "cut_at d s = (a, b, True) \<Longrightarrow> s = a @ d # b \<and> d \<notin> set a"
  by (induction s arbitrary: a) (auto split: if_splits prod.splits)

lemma own_key_cut:
  assumes "groups_ok r"
  shows "(case cut_at (CHR ''/'') p of (grp, _, ok) \<Rightarrow> ok \<and> grp \<in> set (rg_groups r)) \<longleftrightarrow> own_key r p"
proof -
  obtain grp rest ok where c: "cut_at (CHR ''/'') p = (grp, rest, ok)" by (metis prod.exhaust)
  have "ok \<and> grp \<in> set (rg_groups r)" if "p = g @ CHR ''/'' # x" "g \<in> set (rg_groups r)" for g x
    using that assms c cut_at_found [of "CHR ''/''" g x] by (auto simp: groups_ok_def list_all_iff)
  moreover have "ok \<Longrightarrow> p = grp @ CHR ''/'' # rest" using cut_at_parts [of "CHR ''/''" p grp rest] c by simp
  ultimately show ?thesis using c unfolding own_key_def by auto
qed

lemma own_reference: "groups_ok r \<Longrightarrow> own r perms = sorted_list_of_set {p \<in> set perms. own_key r p}"
  by (simp add: own_def compact_sort own_key_cut)

lemma below_reference: "below_of s bs = sorted_list_of_set {b \<in> set bs. b \<noteq> '''' \<and> b \<noteq> s}"
  by (simp add: below_of_def compact_sort)

definition role_copy_ok :: "register \<Rightarrow> definitions \<Rightarrow> bool" where
  "role_copy_ok r d \<longleftrightarrow> df_Version d \<noteq> '''' \<and>
     list_all (\<lambda>ro. ro_ID ro \<noteq> '''' \<and> sorted_wrt (<) (ro_Keys ro) \<and> list_all (own_key r) (ro_Keys ro)) (df_Roles d)"

definition chart_copy_ok :: "chart \<Rightarrow> bool" where
  "chart_copy_ok ch \<longleftrightarrow> ch_Version ch \<noteq> '''' \<and>
     list_all (\<lambda>(s, bs). s \<noteq> '''' \<and> bs \<noteq> [] \<and> sorted_wrt (<) bs \<and> '''' \<notin> set bs \<and> s \<notin> set bs) (ch_Below ch)"

lemma copy_roles_ok:
  "groups_ok r \<Longrightarrow> copy_roles r bs = Inr rs \<Longrightarrow>
     list_all (\<lambda>ro. ro_ID ro \<noteq> '''' \<and> sorted_wrt (<) (ro_Keys ro) \<and> list_all (own_key r) (ro_Keys ro)) rs"
  by (induction bs arbitrary: rs) (auto simp: copy_role_def own_reference strictly_sorted_set list_all_iff split: if_splits sum.splits)

lemma copy_below_ok:
  "copy_below bs = Inr m \<Longrightarrow> list_all (\<lambda>(s, bs). s \<noteq> '''' \<and> bs \<noteq> [] \<and> sorted_wrt (<) bs \<and> '''' \<notin> set bs \<and> s \<notin> set bs) m"
  by (induction bs arbitrary: m rule: copy_below.induct)
    (auto simp: below_reference strictly_sorted_set split: if_splits sum.splits)

lemma versioned_changed:
  assumes "versioned read answered = (Inr (Some d), w)"
  obtains res etag where "answered = (Inr res, w)" "hp_status res = 200" "etag = header_get (hp_header res) ''ETag''" "etag \<noteq> ''''"
    "read etag (hp_body res) = Inr d"
  using assms by (auto simp: versioned_def split: prod.splits sum.splits if_splits)

section \<open>What the keepers rely on\<close>

text \<open>
  A store in which replacing a tenant's copy, when it happens, makes the given one that tenant's,
  and nothing else touches a copy; and a source all of whose answers are well formed.
\<close>

definition copy_store :: "('w \<Rightarrow> string \<Rightarrow> 'd option) \<Rightarrow> ('w, 'd) keeper_env \<Rightarrow> bool" where
  "copy_store copy_of env \<longleftrightarrow>
     (\<forall>w. copy_of (snd (e_tenants env w)) = copy_of w \<and> copy_of (snd (e_now env w)) = copy_of w \<and> copy_of (snd (e_ended env w)) = copy_of w) \<and>
     (\<forall>w t. copy_of (snd (e_version env w t)) = copy_of w \<and> copy_of (snd (e_counts env w t)) = copy_of w) \<and>
     (\<forall>w t v. copy_of (snd (e_source env w t v)) = copy_of w) \<and>
     (\<forall>w t d at. copy_of (snd (e_replace env w t d at)) = copy_of w \<or> copy_of (snd (e_replace env w t d at)) = (copy_of w)(t \<mapsto> d)) \<and>
     (\<forall>w t at. copy_of (snd (e_confirm env w t at)) = copy_of w) \<and> (\<forall>w t cs. copy_of (snd (e_report env w t cs)) = copy_of w)"

definition all_copies :: "('d \<Rightarrow> bool) \<Rightarrow> (string \<Rightarrow> 'd option) \<Rightarrow> bool" where
  "all_copies ok m \<longleftrightarrow> (\<forall>t d. m t = Some d \<longrightarrow> ok d)"

lemma all_copies_upd: "all_copies ok m \<Longrightarrow> ok d \<Longrightarrow> all_copies ok (m(t \<mapsto> d))"
  by (simp add: all_copies_def)

lemma copy_store_replace:
  assumes "copy_store copy_of env" "all_copies ok (copy_of w)" "ok d"
  shows "all_copies ok (copy_of (snd (e_replace env w t d at)))"
proof -
  have "copy_of (snd (e_replace env w t d at)) = copy_of w \<or> copy_of (snd (e_replace env w t d at)) = (copy_of w)(t \<mapsto> d)"
    using assms(1) unfolding copy_store_def by blast
  then show ?thesis using assms(2,3) all_copies_upd by fastforce
qed

locale copy_source =
  fixes src :: "'w \<Rightarrow> string \<Rightarrow> string \<Rightarrow> ('e, 'd option) result \<times> 'w" and ok :: "'d \<Rightarrow> bool"
  assumes src_ok: "src w t v = (Inr (Some d), w') \<Longrightarrow> ok d"
begin

lemma source_keeps:
  assumes "copy_store copy_of env" and "\<And>w t v. e_source env w t v = map_prod (map_sum text id) id (src w t v)"
  shows "env_keeps (\<lambda>w. all_copies ok (copy_of w)) ok env"
proof -
  have "ok d" if "fst (e_source env w t v) = Inr (Some d)" for w t v d
  proof -
    obtain q w' where s: "src w t v = (q, w')" by (metis prod.exhaust)
    with that assms(2) [of w t v] have "q = Inr (Some d)" by (cases q) auto
    with s src_ok show ?thesis by blast
  qed
  then show ?thesis
    using copy_store_replace [OF assms(1)] assms(1) [unfolded copy_store_def] unfolding env_keeps_def by simp
qed

lemma copies_stay_ok:
  assumes "copy_store copy_of env" and "\<And>w t v. e_source env w t v = map_prod (map_sum text id) id (src w t v)"
    and "all_copies ok (copy_of w)" and "syn = sync \<or> syn = chart_sync" and "run_events syn env evs k w = (k', w')"
  shows "all_copies ok (copy_of w')"
  using assms(3-5) roles.run_world [OF source_keeps [OF assms(1,2)]] charts.run_world [OF source_keeps [OF assms(1,2)]] by blast

end

lemma register_definitions_ok:
  "groups_ok r \<Longrightarrow> register_definitions call r w t v = (Inr (Some d), w') \<Longrightarrow> role_copy_ok r d"
  by (auto simp: register_definitions_def read_definitions_def role_copy_ok_def copy_roles_ok
      split: option.splits sum.splits elim!: versioned_changed)

lemma register_chart_ok: "register_chart call r w t v = (Inr (Some ch), w') \<Longrightarrow> chart_copy_ok ch"
  by (auto simp: register_chart_def read_chart_def chart_copy_ok_def copy_below_ok split: option.splits sum.splits elim!: versioned_changed)

text \<open>A register whose groups hold a slash was never made; its answers are no promise.\<close>

interpretation roles_source: copy_source "register_definitions call r" "\<lambda>d. groups_ok r \<longrightarrow> role_copy_ok r d"
  for call r
  by unfold_locales (simp add: register_definitions_ok)

interpretation chart_source: copy_source "register_chart call r" chart_copy_ok for call r
  by unfold_locales (rule register_chart_ok)

text \<open>
  C37: A role's keys are copied as the sorted set of exactly those of its permissions that belong
  to a group the service checks, however often and in whatever order the register names them; so
  for a permission of such a group a placement answers just what the register's role carries.
\<close>

theorem own_is_reference:
  assumes "newRegister parse True baseURL audience groups = Inr r"
  shows "own r perms = sorted_list_of_set {p \<in> set perms. own_key r p}
    \<and> (pm_service p \<in> set groups \<longrightarrow> (keys_hold (own r perms) p \<longleftrightarrow> perm_String p \<in> set perms))"
proof -
  have g: "groups_ok r" and rg: "rg_groups r = groups"
    using assms newRegister_groups [OF assms] by (auto simp: newRegister_def split: if_splits option.splits)
  have "own_key r (perm_String p)" if "pm_service p \<in> set groups"
    using that unfolding own_key_def rg perm_String_def by auto
  then show ?thesis by (auto simp: own_reference [OF g] keys_hold_def)
qed

text \<open>
  C38: Whatever the register answers and however a keeper's rounds and wakes follow each other,
  the copy of every tenant's roles the store holds has a version, a name for every role, and for
  each role only keys of the groups the service checks, each once and in order; and the copy of
  every tenant's chart has nobody below themselves, no empty name and no empty entry.
\<close>

theorem copies_stay_well_formed:
  assumes "newRegister parse True baseURL audience groups = Inr r"
    and "copy_store roles_of renv" "\<And>w t v. e_source renv w t v = map_prod (map_sum text id) id (register_definitions rcall r w t v)"
    and "all_copies (role_copy_ok r) (roles_of w)" "run_keeper sync renv evs k w = (k', w')"
    and "copy_store chart_of cenv" "\<And>w t v. e_source cenv w t v = map_prod (map_sum text id) id (register_chart ccall cr w t v)"
    and "all_copies chart_copy_ok (chart_of u)" "run_keeper chart_sync cenv fvs l u = (l', u')"
  shows "all_copies (role_copy_ok r) (roles_of w') \<and> all_copies chart_copy_ok (chart_of u')"
proof
  have g: "groups_ok r" using assms(1) by (rule newRegister_groups)
  then have "all_copies (\<lambda>d. groups_ok r \<longrightarrow> role_copy_ok r d) (roles_of w)" using assms(4) by (simp add: all_copies_def)
  from roles_source.copies_stay_ok [OF assms(2,3) this _ assms(5) [unfolded run_keeper_def]] g
  show "all_copies (role_copy_ok r) (roles_of w')" by (simp add: all_copies_def)
  show "all_copies chart_copy_ok (chart_of u')"
    using chart_source.copies_stay_ok [OF assms(6-8) _ assms(9) [unfolded run_keeper_def]] by simp
qed

section \<open>What an answer says\<close>

text \<open>The document the register answers, by the names the sources read.\<close>

definition role_json :: "role_body \<Rightarrow> json" where
  "role_json b = Obj [(''id'', Str (rb_ID b)), (''seed'', Str (rb_Seed b)), (''name'', Str (rb_Name b)),
     (''labels'', case rb_Labels b of None \<Rightarrow> Null | Some m \<Rightarrow> Obj (map (\<lambda>(k, l). (k, Str l)) m)),
     (''description'', Str (rb_Description b)), (''permissions'', Arr (map Str (rb_Permissions b)))]"

definition roles_json :: "role_body list \<Rightarrow> json" where
  "roles_json bs = Obj [(''roles'', Arr (map role_json bs))]"

definition chart_json :: "(string, string list) gomap \<Rightarrow> json" where
  "chart_json m = Obj [(''below'', Obj (map (\<lambda>(k, xs). (k, Arr (map Str xs))) m))]"

definition role_fine :: "role_body \<Rightarrow> bool" where
  "role_fine b \<longleftrightarrow> list_all utf8_valid (rb_ID b # rb_Seed b # rb_Name b # rb_Description b # rb_Permissions b)
     \<and> (\<forall>m. rb_Labels b = Some m \<longrightarrow> gomap_ok m \<and> list_all (\<lambda>(k, l). utf8_valid k \<and> utf8_valid l) m)"

lemma utf8_literals: "utf8_valid ''id''" "utf8_valid ''seed''" "utf8_valid ''name''" "utf8_valid ''labels''" "utf8_valid ''description''"
    "utf8_valid ''permissions''" "utf8_valid ''roles''" "utf8_valid ''below''" "utf8_valid ''placements''"
  by (simp_all add: utf8_valid_def rune_error_def is_ascii_def ord_def)

lemma depth_strings: "depth (Arr (map Str xs)) = 1" "depth (Obj (map (\<lambda>(k, l). (k, Str l)) m)) = 1"
proof -
  have "fold max (map depth (map Str xs)) 0 \<le> 0" "fold max (map (\<lambda>(k, v). depth v) (map (\<lambda>(k, l). (k, Str l)) m)) 0 \<le> 0"
    unfolding fold_max_le by auto
  then show "depth (Arr (map Str xs)) = 1" "depth (Obj (map (\<lambda>(k, l). (k, Str l)) m)) = 1" by simp_all
qed

lemma role_json_ok: "role_fine b \<Longrightarrow> numbers_ok (role_json b) \<and> texts_valid (role_json b) \<and> depth (role_json b) \<le> 2"
  using depth_strings unfolding role_json_def role_fine_def
  by (cases "rb_Labels b") (auto simp: list_all_iff utf8_literals simp del: depth.simps(1,2) map_eq_conv simp: depth.simps(2) [of "_ # _"])

lemma roles_json_ok: "list_all role_fine bs \<Longrightarrow> json_ok (roles_json bs)"
proof -
  assume f: "list_all role_fine bs"
  then have "fold max (map depth (map role_json bs)) 0 \<le> 2" unfolding fold_max_le by (auto simp: list_all_iff dest: role_json_ok)
  then show ?thesis using f role_json_ok by (auto simp: json_ok_def roles_json_def maxNestingDepth_def list_all_iff utf8_literals)
qed

lemma role_decodes: "role_fine b \<Longrightarrow> decode_struct role_fields zero_role (role_json b) = Some b"
proof -
  assume f: "role_fine b"
  have "decode_map '''' decode_string None (case rb_Labels b of None \<Rightarrow> Null | Some m \<Rightarrow> Obj (map (\<lambda>(k, l). (k, Str l)) m)) = Some (rb_Labels b)"
  proof (cases "rb_Labels b")
    case (Some m)
    with f have "decode_entries '''' decode_string [] (map (\<lambda>(k, l). (k, Str l)) m) = Some ([] @ m)"
      by (intro decode_entries_new) (auto simp: role_fine_def gomap_ok_def)
    with Some show ?thesis by simp
  qed simp
  then show ?thesis by (simp add: role_json_def role_fields_def field_named_def field_def zero_role_def decode_strings)
qed

lemma definitionsBody_reads: "list_all role_fine bs \<Longrightarrow> definitionsBody (marshal (roles_json bs)) = Some bs"
proof -
  assume f: "list_all role_fine bs"
  have "decode_elements zero_role (decode_struct role_fields) [] (map role_json bs) = Some bs"
    by (rule decode_elements_new) (use f role_decodes in \<open>auto simp: list_all_iff\<close>)
  then show ?thesis by (simp add: definitionsBody_def unmarshal_marshal roles_json_ok [OF f]) (simp add: roles_json_def field_named_def)
qed

lemma chartBody_reads:
  assumes "gomap_ok m" "list_all (\<lambda>(k, xs). utf8_valid k \<and> list_all utf8_valid xs) m"
  shows "chartBody (marshal (chart_json m)) = Some m"
proof -
  have "fold max (map (\<lambda>(k, v). depth v) (map (\<lambda>(k, xs). (k, Arr (map Str xs))) m)) 0 \<le> 1"
    unfolding fold_max_le using depth_strings(1) by (auto simp del: depth.simps)
  then have "json_ok (chart_json m)" using assms(2)
    by (auto simp: json_ok_def chart_json_def maxNestingDepth_def list_all_iff utf8_literals)
  moreover have "decode_entries [] (decode_slice '''' decode_string) [] (map (\<lambda>(k, xs). (k, Arr (map Str xs))) m) = Some ([] @ m)"
    by (rule decode_entries_new) (use assms(1) in \<open>simp_all add: decode_strings gomap_ok_def\<close>)
  ultimately show ?thesis by (simp add: chartBody_def unmarshal_marshal) (simp add: chart_json_def field_named_def)
qed

section \<open>A register to run against\<close>

definition demo_register :: register where
  "demo_register = \<lparr>rg_base = ''https://reg'', rg_audience = ''reg'', rg_groups = [''svc'']\<rparr>"

definition demo_roles :: "role_body list" where
  "demo_roles = [\<lparr>rb_ID = ''r1'', rb_Seed = '''', rb_Name = ''Worker'', rb_Labels = None, rb_Description = '''',
     rb_Permissions = [''svc/task:edit'', ''other/x:y'', ''svc/task:edit'']\<rparr>]"

definition demo_below :: "(string, string list) gomap" where
  "demo_below = [(''p1'', [''p2'', '''', ''p1''])]"

definition demo_call :: "'w doer" where
  "demo_call a s t m u h b w = (Inr \<lparr>hp_status = 200, hp_header = [(''Etag'', ''v1'')],
     hp_body = marshal (if s = scopeChart then chart_json demo_below else roles_json demo_roles)\<rparr>, w)"

lemma demo_bodies: "definitionsBody (marshal (roles_json demo_roles)) = Some demo_roles" "chartBody (marshal (chart_json demo_below)) = Some demo_below"
proof -
  have "list_all role_fine demo_roles" by (simp add: demo_roles_def role_fine_def utf8_valid_def rune_error_def is_ascii_def ord_def)
  then show "definitionsBody (marshal (roles_json demo_roles)) = Some demo_roles" by (rule definitionsBody_reads)
  show "chartBody (marshal (chart_json demo_below)) = Some demo_below"
    by (rule chartBody_reads) (simp_all add: demo_below_def gomap_ok_def utf8_valid_def rune_error_def is_ascii_def ord_def)
qed

definition demo_store :: "((string \<Rightarrow> 'd option) \<Rightarrow> string \<Rightarrow> string \<Rightarrow> (register_error, 'd option) result \<times> (string \<Rightarrow> 'd option))
    \<Rightarrow> (string \<Rightarrow> 'd option, 'd) keeper_env" where
  "demo_store src = \<lparr>e_tenants = (\<lambda>w. (Inr [''t''], w)), e_version = (\<lambda>w t. (Inr '''', w)),
     e_source = (\<lambda>w t v. map_prod (map_sum (\<lambda>_. ''failed'') id) id (src w t v)),
     e_replace = (\<lambda>w t d at. (None, w(t \<mapsto> d))), e_confirm = (\<lambda>w t at. (None, w)), e_counts = (\<lambda>w t. (Inr [], w)),
     e_report = (\<lambda>w t cs. (Inr [], w)), e_now = (\<lambda>w. (5, w)), e_ended = (\<lambda>w. (False, w))\<rparr>"

lemma demo_made: "newRegister (\<lambda>u. Some (''https'', ''reg'')) True ''https://reg/'' ''reg'' [''svc''] = Inr demo_register"
  by (simp add: newRegister_def absolute_def bad_group_def trim_slashes_def demo_register_def)

lemma demo_etag: "header_get [(''Etag'', x)] ''ETag'' = x"
  by (simp add: header_get_def eval_simps)

lemma versioned_world: "snd (versioned read a) = snd a"
  by (auto simp: versioned_def split: prod.splits sum.splits)

lemma demo_copy_store: "(\<And>w t v. snd (src w t v) = w) \<Longrightarrow> copy_store (\<lambda>w. w) (demo_store src)"
  by (simp add: copy_store_def demo_store_def)

definition demo_defs :: definitions where
  "demo_defs = \<lparr>df_Version = ''v1'', df_Roles = [\<lparr>ro_ID = ''r1'', ro_Seed = '''', ro_Name = ''Worker'', ro_Labels = [],
     ro_Description = '''', ro_Keys = [''svc/task:edit'']\<rparr>]\<rparr>"

definition demo_chart :: chart where
  "demo_chart = \<lparr>ch_Version = ''v1'', ch_Below = [(''p1'', [''p2''])]\<rparr>"

lemma demo_definitions: "register_definitions demo_call demo_register w t v = (Inr (Some demo_defs), w)"
  by (simp add: register_definitions_def versioned_def demo_call_def demo_etag read_definitions_def demo_bodies scopeDefinitions_def scopeChart_def)
    (simp add: demo_roles_def copy_role_def demo_register_def own_def demo_defs_def)

lemma demo_charts: "register_chart demo_call demo_register w t v = (Inr (Some demo_chart), w)"
  by (simp add: register_chart_def versioned_def demo_call_def demo_etag read_chart_def demo_bodies)
    (simp add: demo_below_def below_of_def demo_chart_def)

lemma demo_run:
  assumes "\<And>w t v. src w t v = (Inr (Some d), w)" and "syn = sync \<or> syn = chart_sync"
  shows "\<exists>k'. run_keeper syn (demo_store src) [] demo_keeper (\<lambda>_. None) = (k', (\<lambda>_. None)(''t'' \<mapsto> d))"
  using assms(2)
  by (auto simp: run_keeper_def run_step_def cycle_with_def Let_def demo_store_def demo_keeper_def assms(1) sync_def sync_copy_def
      chart_sync_def reportCounts_def mkeep_def mkeys_def split: prod.splits)

theorem own_is_reference_witness:
  "own demo_register [''svc/b:x'', ''other/a:y'', ''svc/a:z'', ''svc/b:x''] = [''svc/a:z'', ''svc/b:x'']
    \<and> keys_hold (own demo_register [''svc/b:x'', ''other/a:y'', ''svc/a:z'', ''svc/b:x'']) \<lparr>pm_service = ''svc'', pm_feature = ''a'', pm_act = ''z''\<rparr>"
proof -
  have "own demo_register [''svc/b:x'', ''other/a:y'', ''svc/a:z'', ''svc/b:x''] = [''svc/a:z'', ''svc/b:x'']"
    by (simp add: own_def demo_register_def)
  moreover from own_is_reference [OF demo_made, of "[''svc/b:x'', ''other/a:y'', ''svc/a:z'', ''svc/b:x'']"
      "\<lparr>pm_service = ''svc'', pm_feature = ''a'', pm_act = ''z''\<rparr>", THEN conjunct2]
  have "keys_hold (own demo_register [''svc/b:x'', ''other/a:y'', ''svc/a:z'', ''svc/b:x'']) \<lparr>pm_service = ''svc'', pm_feature = ''a'', pm_act = ''z''\<rparr>"
    by (simp add: perm_String_def)
  ultimately show ?thesis by blast
qed

theorem copies_stay_well_formed_witness:
  "\<exists>k'. run_keeper sync (demo_store (register_definitions demo_call demo_register)) [] demo_keeper (\<lambda>_. None)
       = (k', (\<lambda>_. None)(''t'' \<mapsto> demo_defs)) \<and> role_copy_ok demo_register demo_defs \<and> chart_copy_ok demo_chart"
proof -
  let ?rs = "register_definitions demo_call demo_register :: (string \<Rightarrow> definitions option) \<Rightarrow> _"
  let ?cs = "register_chart demo_call demo_register :: (string \<Rightarrow> chart option) \<Rightarrow> _"
  have "\<exists>k'. run_keeper sync (demo_store ?rs) [] demo_keeper (\<lambda>_. None) = (k', (\<lambda>_. None)(''t'' \<mapsto> demo_defs))"
    by (rule demo_run [OF demo_definitions]) simp
  then obtain k' where r: "run_keeper sync (demo_store ?rs) [] demo_keeper (\<lambda>_. None) = (k', (\<lambda>_. None)(''t'' \<mapsto> demo_defs))" ..
  have "\<exists>l'. run_keeper chart_sync (demo_store ?cs) [] demo_keeper (\<lambda>_. None) = (l', (\<lambda>_. None)(''t'' \<mapsto> demo_chart))"
    by (rule demo_run [OF demo_charts]) simp
  then obtain l' where c: "run_keeper chart_sync (demo_store ?cs) [] demo_keeper (\<lambda>_. None) = (l', (\<lambda>_. None)(''t'' \<mapsto> demo_chart))" ..
  have st: "copy_store (\<lambda>w. w) (demo_store ?rs)" "copy_store (\<lambda>w. w) (demo_store ?cs)"
    by (rule demo_copy_store; simp add: demo_definitions demo_charts)+
  have src: "e_source (demo_store ?rs) w t v = map_prod (map_sum (\<lambda>_. ''failed'') id) id (?rs w t v)"
      "e_source (demo_store ?cs) u t v = map_prod (map_sum (\<lambda>_. ''failed'') id) id (?cs u t v)" for w u t v
    by (simp_all add: demo_store_def)
  have e: "all_copies (role_copy_ok demo_register) (\<lambda>_. None)" "all_copies chart_copy_ok (\<lambda>_. None)" by (simp_all add: all_copies_def)
  from copies_stay_well_formed [OF demo_made st(1) src(1) e(1) r st(2) src(2) e(2) c] r show ?thesis
    by (auto simp: all_copies_def split: if_splits)
qed

section \<open>What a report says\<close>

lemma counts_json_ok:
  assumes "list_all (\<lambda>(k, n). utf8_valid k) cs"
  shows "json_ok (counts_json cs)"
proof -
  let ?ms = "map (\<lambda>(k, n). (k, Num (format_int n))) (sort_key fst cs)"
  have "fold max (map (\<lambda>(k, v). depth v) ?ms) 0 \<le> 0" unfolding fold_max_le by auto
  then have "depth (counts_json cs) \<le> maxNestingDepth" by (simp add: counts_json_def maxNestingDepth_def)
  moreover have "numbers_ok (counts_json cs)" by (auto simp: counts_json_def list_all_iff number_ok_format_int)
  moreover have "texts_valid (counts_json cs)" using assms by (auto simp: counts_json_def list_all_iff utf8_literals)
  ultimately show ?thesis by (simp add: json_ok_def)
qed

text \<open>
  C35: A report puts the tenant's counts to the register as one JSON document that reads back as
  those counts: its only member, \<open>placements\<close>, holds for each role counted the decimal number of
  its placements and nothing for any other role, with the roles in order, so the same counts
  always send the same bytes; the answer is what the call answered.
\<close>

theorem report_carries_counts:
  assumes "gomap_ok cs" and "list_all (\<lambda>(k, n). utf8_valid k) cs"
  shows "\<exists>payload ms. report call r w tenant cs = report_answer
      (call (rg_audience r) scopePlacements tenant ''PUT'' (tenantURL r tenant ''role-placements'')
        [(''Accept'', ''application/json''), (''Content-Type'', ''application/json'')] (Some payload) w)
    \<and> read_json payload = Some (Obj [(''placements'', Obj ms)]) \<and> sorted_wrt (<) (map fst ms)
    \<and> (\<forall>k. map_of ms k = map_option (\<lambda>n. Num (format_int n)) (mget cs k))"
proof (intro exI conjI allI)
  let ?ms = "map (\<lambda>(k, n). (k, Num (format_int n))) (sort_key fst cs)"
  show "report call r w tenant cs = report_answer
      (call (rg_audience r) scopePlacements tenant ''PUT'' (tenantURL r tenant ''role-placements'')
        [(''Accept'', ''application/json''), (''Content-Type'', ''application/json'')] (Some (marshal (counts_json cs))) w)"
    by (simp add: report_def)
  show "read_json (marshal (counts_json cs)) = Some (Obj [(''placements'', Obj ?ms)])"
    using compact.dec_enc [OF counts_json_ok [OF assms(2)]] by (simp add: counts_json_def)
  have "map fst ?ms = map fst (sort_key fst cs)" by (simp add: comp_def case_prod_beta)
  moreover have "distinct (map fst (sort_key fst cs))" using assms(1) by (simp add: gomap_ok_def distinct_map)
  ultimately show "sorted_wrt (<) (map fst ?ms)" by (simp add: strict_sorted_iff del: map_map map_eq_conv)
  show "map_of ?ms k = map_option (\<lambda>n. Num (format_int n)) (mget cs k)" for k
    using map_of_sort_key [of cs] assms(1) by (simp add: map_of_map mget_def comp_def gomap_ok_def)
qed

theorem report_carries_counts_witness:
  "\<exists>payload ms. report (\<lambda>a s t m u h b w. (Inr \<lparr>hp_status = 200, hp_header = [], hp_body = marshal (Obj [])\<rparr>, b)) demo_register None ''t1''
      [(''r2'', 3), (''r1'', 10)] = (Inr [], Some payload)
    \<and> read_json payload = Some (Obj [(''placements'', Obj ms)]) \<and> map_of ms ''r1'' = Some (Num ''10'') \<and> map_of ms ''r3'' = None"
proof -
  have v: "gomap_ok [(''r2'', 3 :: int), (''r1'', 10)]" "list_all (\<lambda>(k, n). utf8_valid k) [(''r2'', 3 :: int), (''r1'', 10)]"
    by (simp_all add: gomap_ok_def utf8_valid_def rune_error_def is_ascii_def ord_def)
  have "format_int 10 = ''10''" by code_simp
  moreover have "unknownBody (marshal (Obj [])) = Some []"
    by (simp add: unknownBody_def unmarshal_marshal json_ok_def maxNestingDepth_def del: marshal.simps)
  ultimately show ?thesis
    using report_carries_counts [OF v, of "\<lambda>a s t m u h b w. (Inr \<lparr>hp_status = 200, hp_header = [], hp_body = marshal (Obj [])\<rparr>, b)" demo_register None "''t1''"]
    by (auto simp: report_answer_def mget_def simp del: marshal.simps)
qed

text \<open>
  What the copy of an answered role must be, field by field: the labels none when there are none,
  and of the permissions the service's own, each once and in order.
\<close>

definition copied :: "register \<Rightarrow> role_body \<Rightarrow> role \<Rightarrow> bool" where
  "copied r b c \<longleftrightarrow> ro_ID c = rb_ID b \<and> ro_Seed c = rb_Seed b \<and> ro_Name c = rb_Name b
     \<and> ro_Labels c = (case rb_Labels b of None \<Rightarrow> [] | Some l \<Rightarrow> l) \<and> ro_Description c = rb_Description b
     \<and> sorted_wrt (<) (ro_Keys c)
     \<and> (\<forall>p. p \<in> set (ro_Keys c) \<longleftrightarrow> p \<in> set (rb_Permissions b) \<and> (\<exists>grp rest. p = grp @ CHR ''/'' # rest \<and> grp \<in> set (rg_groups r)))"

lemma copy_role_copied: "groups_ok r \<Longrightarrow> copied r b (copy_role r b)"
  by (simp add: copied_def copy_role_def own_reference strictly_sorted_set own_key_def)

lemma copy_roles_copied:
  assumes "groups_ok r"
  shows "if list_all (\<lambda>b. rb_ID b \<noteq> '''') bs then \<exists>rs. copy_roles r bs = Inr rs \<and> list_all2 (copied r) bs rs
    else copy_roles r bs = Inl RoleWithoutID"
  using copy_role_copied [OF assms] by (induction bs) auto

text \<open>
  C36: What the register answers is what is copied: to an answer of 200 with a version and the JSON
  document of any roles in UTF-8, \<open>Definitions\<close> of a register made for some groups answers, when
  every role has an id, that version and for each role, in the order answered, its id, seed,
  name, labels and description as they are and of its permissions exactly those in one of the
  groups, each once and in order; and when some role has no id, the error that says so and no roles.
\<close>

theorem answered_roles_are_copied:
  assumes "newRegister parse True baseURL audience groups = Inr r"
    and "call (rg_audience r) scopeDefinitions tenant ''GET'' (tenantURL r tenant ''role-definitions'') (read_header version) None w
      = (Inr \<lparr>hp_status = 200, hp_header = h, hp_body = marshal (roles_json bs)\<rparr>, w')"
    and "header_get h ''ETag'' \<noteq> ''''" and "list_all role_fine bs"
  shows "if list_all (\<lambda>b. rb_ID b \<noteq> '''') bs
    then \<exists>rs. register_definitions call r w tenant version = (Inr (Some \<lparr>df_Version = header_get h ''ETag'', df_Roles = rs\<rparr>), w')
      \<and> list_all2 (copied r) bs rs
    else register_definitions call r w tenant version = (Inl RoleWithoutID, w')"
  using copy_roles_copied [OF newRegister_groups [OF assms(1)], of bs]
  by (auto simp: register_definitions_def assms(2,3) versioned_def read_definitions_def definitionsBody_reads [OF assms(4)] split: if_splits)

definition demo_answered :: "role_body list" where
  "demo_answered = [\<lparr>rb_ID = ''r1'', rb_Seed = ''worker'', rb_Name = ''Worker'', rb_Labels = Some [(''lv'', ''Darbinieks'')], rb_Description = ''does'',
     rb_Permissions = [''svc/task:edit'', ''other/x:y'', ''svc/a:z'', ''svc/task:edit'']\<rparr>]"

definition demo_answering :: "unit doer" where
  "demo_answering a s t m u h b w = (Inr \<lparr>hp_status = 200, hp_header = [(''Etag'', ''v1'')], hp_body = marshal (roles_json demo_answered)\<rparr>, w)"

theorem answered_roles_are_copied_witness:
  "\<exists>c. register_definitions demo_answering demo_register () ''t1'' '''' = (Inr (Some \<lparr>df_Version = ''v1'', df_Roles = [c]\<rparr>), ())
     \<and> ro_Seed c = ''worker'' \<and> ro_Name c = ''Worker'' \<and> ro_Labels c = [(''lv'', ''Darbinieks'')] \<and> ''other/x:y'' \<notin> set (ro_Keys c)
     \<and> ''svc/a:z'' \<in> set (ro_Keys c)"
proof -
  have "list_all role_fine demo_answered" "list_all (\<lambda>b. rb_ID b \<noteq> '''') demo_answered"
    by (simp_all add: demo_answered_def role_fine_def gomap_ok_def utf8_valid_def rune_error_def is_ascii_def ord_def)
  moreover have "demo_answering (rg_audience demo_register) scopeDefinitions ''t1'' ''GET'' (tenantURL demo_register ''t1'' ''role-definitions'') (read_header '''') None ()
      = (Inr \<lparr>hp_status = 200, hp_header = [(''Etag'', ''v1'')], hp_body = marshal (roles_json demo_answered)\<rparr>, ())"
    by (simp add: demo_answering_def)
  ultimately obtain rs where rs: "register_definitions demo_answering demo_register () ''t1'' '''' = (Inr (Some \<lparr>df_Version = ''v1'', df_Roles = rs\<rparr>), ())"
      "list_all2 (copied demo_register) demo_answered rs"
    using answered_roles_are_copied [OF demo_made, of demo_answering "''t1''" "''''" "()" "[(''Etag'', ''v1'')]" demo_answered "()"] demo_etag by auto
  then obtain c where c: "rs = [c]" "copied demo_register (hd demo_answered) c" by (auto simp: demo_answered_def list_all2_Cons1)
  have "\<exists>grp rest. ''svc/a:z'' = grp @ CHR ''/'' # rest \<and> grp \<in> set (rg_groups demo_register)"
    by (intro exI [of _ "''svc''"] exI [of _ "''a:z''"]) (simp add: demo_register_def)
  with c(2) have "''svc/a:z'' \<in> set (ro_Keys c)" by (simp add: copied_def demo_answered_def)
  moreover have "''other/x:y'' \<notin> set (ro_Keys c)" using c(2) by (auto simp: copied_def demo_register_def)
  ultimately show ?thesis using rs(1) c by (auto simp: copied_def demo_answered_def)
qed

end
