(* ===== verification/Token_Flight.thy ===== *)
theory Token_Flight
  imports Outbound
begin

text \<open>
  Acquisitions of tokens that overlap (\<open>src/authclient/outbound.go\<close>): the client is shared, and
  its lock is held only while the cache is read or written. An acquisition is taken apart at the
  points where the lock is free, and the parts of any number of them are interleaved with each
  other, with nonces that calls remember, and with whatever else moves the world.
\<close>

section \<open>One acquisition, taken apart\<close>

datatype acquiring =
    Begun
  | Asking
  | Answered string gotime gotime
  | Finished "(outbound_error, string) result"

definition acquire_step :: "('w, 'k) outbound_env \<Rightarrow> call \<Rightarrow> acquiring \<Rightarrow> outbound \<Rightarrow> 'w \<Rightarrow> acquiring \<times> outbound \<times> 'w" where
  "acquire_step env cl ph c w =
     (case ph of
        Begun \<Rightarrow> (case oe_now env w of (now, w1) \<Rightarrow>
          case cached_token_for c now (call_key env cl) of
            Some tok \<Rightarrow> (Finished (Inr tok), c, w1)
          | None \<Rightarrow> (Asking, c, w1))
      | Asking \<Rightarrow> (case postTokenForm env (ob_tokenURL c) (call_form c cl) w of
            ((Inl e, _), w1) \<Rightarrow> (Finished (Inl e), c, w1)
          | ((Inr (tok, ttl), _), w1) \<Rightarrow> (case call_until env cl of
              None \<Rightarrow> (Finished (Inr tok), c, w1)
            | Some na \<Rightarrow> (case oe_now env w1 of (t1, w2) \<Rightarrow> (Answered tok (t1 + ttl) na, c, w2))))
      | Answered tok exp na \<Rightarrow> (case oe_now env w of (t2, w1) \<Rightarrow>
          (Finished (Inr tok), store_token c t2 (call_key env cl) \<lparr>ct_token = tok, ct_exp = exp, ct_notAfter = na\<rparr>, w1))
      | Finished r \<Rightarrow> (Finished r, c, w))"

fun acquire_steps :: "nat \<Rightarrow> ('w, 'k) outbound_env \<Rightarrow> call \<Rightarrow> acquiring \<Rightarrow> outbound \<Rightarrow> 'w \<Rightarrow> acquiring \<times> outbound \<times> 'w" where
  "acquire_steps 0 env cl ph c w = (ph, c, w)"
| "acquire_steps (Suc n) env cl ph c w = (case acquire_step env cl ph c w of (ph1, c1, w1) \<Rightarrow> acquire_steps n env cl ph1 c1 w1)"

text \<open>Left alone, the three parts are the acquisition.\<close>

lemma acquire_taken_apart:
  "acquire_steps 3 env cl Begun c w = (case acquire env cl c w of (r, c', w') \<Rightarrow> (Finished r, c', w'))"
proof -
  obtain now w1 where n: "oe_now env w = (now, w1)" by (metis prod.exhaust)
  obtain q rqs w2 where p: "postTokenForm env (ob_tokenURL c) (call_form c cl) w1 = ((q, rqs), w2)" by (metis prod.exhaust)
  have "q = Inl e \<Longrightarrow> ?thesis" for e
    by (cases "cached_token_for c now (call_key env cl)") (simp_all add: acquire_eq acquire_step_def numeral_3_eq_3 n p)
  moreover have "q = Inr (tok, ttl) \<Longrightarrow> ?thesis" for tok ttl
    by (cases "cached_token_for c now (call_key env cl)"; cases "call_until env cl")
      (simp_all add: acquire_eq acquire_step_def numeral_3_eq_3 n p split: prod.split)
  ultimately show ?thesis by (metis sum.exhaust prod.exhaust)
qed

section \<open>Many at once\<close>

datatype 'w flight_event = Arrive call | Move nat | Learn string string | Elsewhere 'w

type_synonym 'w flying = "outbound \<times> (call \<times> acquiring) list \<times> 'w"

fun fly_step :: "('w, 'k) outbound_env \<Rightarrow> 'w flight_event \<Rightarrow> 'w flying \<Rightarrow> 'w flying" where
  "fly_step env (Arrive cl) (c, ts, w) = (c, ts @ [(cl, Begun)], w)"
| "fly_step env (Move i) (c, ts, w) =
     (if i < length ts
      then (case ts ! i of (cl, ph) \<Rightarrow> case acquire_step env cl ph c w of (ph', c', w') \<Rightarrow> (c', ts[i := (cl, ph')], w'))
      else (c, ts, w))"
| "fly_step env (Learn audience nonce) (c, ts, w) = (setResourceNonce audience nonce c, ts, w)"
| "fly_step env (Elsewhere w') (c, ts, w) = (c, ts, w')"

definition fly :: "('w, 'k) outbound_env \<Rightarrow> 'w flight_event list \<Rightarrow> 'w flying \<Rightarrow> 'w flying" where
  "fly env evs s = fold (fly_step env) evs s"

fun event_ok :: "'w flight_event \<Rightarrow> bool" where
  "event_ok (Arrive cl) \<longleftrightarrow> call_ok cl"
| "event_ok _ \<longleftrightarrow> True"

section \<open>What holds at every moment\<close>

text \<open>An acquisition holds a token only if it was issued for its call, or for one the cache cannot tell from it.\<close>

definition for_call :: "('w, 'k) outbound_env \<Rightarrow> outbound \<Rightarrow> call \<Rightarrow> string \<Rightarrow> bool" where
  "for_call env c cl tok \<longleftrightarrow> (\<exists>d. same_call env d cl \<and> issued env (ob_tokenURL c) (call_form c d) tok)"

fun phase_ok :: "('w, 'k) outbound_env \<Rightarrow> outbound \<Rightarrow> call \<Rightarrow> acquiring \<Rightarrow> bool" where
  "phase_ok env c cl (Answered tok exp na) \<longleftrightarrow> issued env (ob_tokenURL c) (call_form c cl) tok \<and> call_until env cl = Some na"
| "phase_ok env c cl (Finished (Inr tok)) \<longleftrightarrow> for_call env c cl tok"
| "phase_ok env c cl _ \<longleftrightarrow> True"

definition same_client :: "outbound \<Rightarrow> outbound \<Rightarrow> bool" where
  "same_client c c' \<longleftrightarrow> ob_tokenURL c' = ob_tokenURL c \<and> call_form c' = call_form c"

definition flying_ok :: "('w, 'k) outbound_env \<Rightarrow> outbound \<Rightarrow> 'w flying \<Rightarrow> bool" where
  "flying_ok env c0 s = (case s of (c, ts, w) \<Rightarrow>
     same_client c0 c \<and> cache_ok env c \<and> list_all (\<lambda>(cl, ph). call_ok cl \<and> phase_ok env c0 cl ph) ts)"

lemma phase_ok_client: "same_client c c' \<Longrightarrow> phase_ok env c' cl ph = phase_ok env c cl ph"
  by (cases "(env, c', cl, ph)" rule: phase_ok.cases) (simp_all add: same_client_def for_call_def)

lemma setResourceNonce_keeps:
  "same_client c (setResourceNonce a n c)" "cache_ok env (setResourceNonce a n c) \<longleftrightarrow> cache_ok env c"
proof -
  have "call_form (setResourceNonce a n c) = call_form c"
  proof
    show "call_form (setResourceNonce a n c) cl = call_form c cl" for cl
      by (cases cl) (simp_all add: service_form_def exchange_form_def setResourceNonce_def)
  qed
  then show "same_client c (setResourceNonce a n c)" "cache_ok env (setResourceNonce a n c) \<longleftrightarrow> cache_ok env c"
    by (simp_all add: same_client_def cache_ok_def setResourceNonce_def)
qed

lemma store_keeps_cache:
  assumes "cache_ok env c" "call_ok cl" "issued env (ob_tokenURL c) (call_form c cl) (ct_token t)" "call_until env cl = Some (ct_notAfter t)"
  shows "cache_ok env (store_token c now (call_key env cl) t)"
  unfolding cache_ok_def
proof (intro conjI allI impI)
  show "gomap_ok (ob_tokens (store_token c now (call_key env cl) t))"
    using assms(1) by (auto simp: store_token_def Let_def cache_ok_def)
  fix k e assume "mget (ob_tokens (store_token c now (call_key env cl) t)) k = Some e"
  from store_token_lookup(2) [OF _ this] assms
  show "\<exists>cl'. call_ok cl' \<and> call_key env cl' = k \<and> issued env (ob_tokenURL (store_token c now (call_key env cl) t))
      (call_form (store_token c now (call_key env cl) t) cl') (ct_token e) \<and> call_until env cl' = Some (ct_notAfter e)"
    by (auto simp: cache_ok_def)
qed

lemma cached_for_call:
  assumes "cache_ok env c" "call_ok cl" "cached_token_for c now (call_key env cl) = Some tok"
  shows "for_call env c cl tok"
proof -
  obtain e where "mget (ob_tokens c) (call_key env cl) = Some e" "tok = ct_token e"
    using assms(3) by (rule cached_token_for_Some)
  with assms(1) obtain d where "call_ok d" "call_key env d = call_key env cl" "issued env (ob_tokenURL c) (call_form c d) tok"
    unfolding cache_ok_def by blast
  with call_key_inj [OF _ assms(2)] show ?thesis unfolding for_call_def by blast
qed

lemma acquire_step_ok:
  assumes "acquire_step env cl ph c w = (ph', c', w')" "cache_ok env c" "call_ok cl" "phase_ok env c cl ph"
  shows "cache_ok env c' \<and> same_client c c' \<and> phase_ok env c cl ph'"
proof (cases ph)
  case Begun
  with assms(1) cached_for_call [OF assms(2,3)] assms(2) show ?thesis
    by (auto simp: acquire_step_def same_client_def split: prod.splits option.splits)
next
  case Asking
  have "issued env (ob_tokenURL c) (call_form c cl) tok" if "postTokenForm env (ob_tokenURL c) (call_form c cl) w = ((Inr (tok, ttl), rqs), w1)"
    for tok ttl rqs w1 using that unfolding issued_def by blast
  with Asking assms(1,2) same_call_refl [of env cl] show ?thesis
    by (auto simp: acquire_step_def same_client_def for_call_def split: prod.splits sum.splits option.splits)
next
  case (Answered tok exp na)
  with assms store_keeps_cache [OF assms(2,3)] same_call_refl [of env cl] show ?thesis
    by (auto simp: acquire_step_def same_client_def for_call_def fun_eq_iff split: prod.splits)
next
  case (Finished r)
  with assms show ?thesis by (auto simp: acquire_step_def same_client_def)
qed

lemma fly_step_ok:
  assumes "flying_ok env c0 s" "event_ok ev"
  shows "flying_ok env c0 (fly_step env ev s)"
proof -
  obtain c ts w where s: "s = (c, ts, w)" by (metis prod.exhaust)
  have ok: "same_client c0 c" "cache_ok env c" "list_all (\<lambda>(cl, ph). call_ok cl \<and> phase_ok env c0 cl ph) ts"
    using assms(1) by (simp_all add: flying_ok_def s)
  show ?thesis
  proof (cases ev)
    case (Move i)
    show ?thesis
    proof (cases "i < length ts")
      case True
      obtain cl ph where t: "ts ! i = (cl, ph)" by (metis prod.exhaust)
      obtain ph' c' w' where a: "acquire_step env cl ph c w = (ph', c', w')" by (metis prod.exhaust)
      have "call_ok cl" "phase_ok env c cl ph" using ok t True phase_ok_client by (fastforce simp: list_all_length)+
      from acquire_step_ok [OF a ok(2) this] ok phase_ok_client [OF ok(1)] True t a Move \<open>call_ok cl\<close> show ?thesis
        by (auto simp: s flying_ok_def same_client_def list_all_length nth_list_update)
    qed (use assms(1) Move s in simp)
  next
    case (Learn a n)
    then show ?thesis using ok setResourceNonce_keeps(1) [of c a n] by (simp add: s flying_ok_def same_client_def setResourceNonce_keeps(2))
  qed (use assms(2) ok in \<open>simp_all add: s flying_ok_def\<close>)
qed

lemma fly_ok: "flying_ok env c0 s \<Longrightarrow> list_all event_ok evs \<Longrightarrow> flying_ok env c0 (fly env evs s)"
  unfolding fly_def by (induction evs arbitrary: s) (simp_all add: fly_step_ok)

lemma flown_ok:
  assumes "list_all event_ok evs" "ob_tokens c = []" "fly env evs (c, [], w) = (c', ts, w')"
  shows "flying_ok env c (c', ts, w')"
proof -
  have "flying_ok env c (c, [], w)" using assms(2) by (simp add: flying_ok_def cache_ok_def same_client_def)
  from fly_ok [OF this assms(1)] assms(3) show ?thesis by simp
qed

text \<open>
  C9: However acquisitions overlap on one client, starting from an empty cache and with no bar in
  any audience, scope or tenant, an acquisition is only ever given a token that the token endpoint
  issued for its own call's form: its audience, its scope, its tenant, and for a delegated call
  its subject token (up to a SHA-256 collision).
\<close>

theorem token_for_its_call:
  assumes "list_all event_ok evs" and "ob_tokens c = []" and "fly env evs (c, [], w) = (c', ts, w')"
    and "i < length ts" and "ts ! i = (cl, Finished (Inr tok))"
  shows "\<exists>d. same_call env d cl \<and> issued env (ob_tokenURL c) (call_form c d) tok"
proof -
  have "phase_ok env c cl (Finished (Inr tok))"
    using flown_ok [OF assms(1-3)] assms(4,5) by (auto simp: flying_ok_def list_all_length)
  then show ?thesis by (simp add: for_call_def)
qed

text \<open>
  C10: However acquisitions overlapped before, starting from an empty cache and with no bar in any
  audience, scope or tenant, a token obtained for a subject token is never handed out of the cache
  once that subject token's expiry has passed, and is not kept at all when the expiry cannot be read:
  the call then asks the token endpoint. The one exception is a token obtained
  for another subject token with the same SHA-256, whose own expiry can be read and has not passed. (An
  expiry that is Go's zero time is no bound.)
\<close>

theorem reuse_ends_with_subject:
  assumes "list_all event_ok evs" and "ob_tokens c = []" and "fly env evs (c, [], w) = (c', ts, w')"
    and "bar_free audience" and "bar_free scope" and "oe_now env w' = (now, w1)"
    and "subjectTokenExpiry env subjectToken = None \<or>
         (\<exists>until. subjectTokenExpiry env subjectToken = Some until \<and> until \<noteq> zero_time \<and> until \<le> now)"
  shows "fst (acquireDelegatedToken env audience scope subjectToken c' w') =
         fst (exchangeDelegatedToken env audience scope subjectToken c' w1)
       \<or> (\<exists>st until. st \<noteq> subjectToken \<and> oe_sha256 env st = oe_sha256 env subjectToken
            \<and> subjectTokenExpiry env st = Some until \<and> (until = zero_time \<or> now < until))"
proof (cases "cached_token_for c' now (delegated_key (oe_sha256 env) audience scope subjectToken)")
  case None
  then show ?thesis
    using assms(6) by (simp add: acquireDelegatedToken_def exchangeDelegatedToken_def Let_def split: prod.splits sum.splits option.splits)
next
  case (Some tok)
  let ?k = "delegated_key (oe_sha256 env) audience scope subjectToken"
  have ok: "cache_ok env c'" using flown_ok [OF assms(1-3)] by (simp add: flying_ok_def)
  from Some obtain e where e: "mget (ob_tokens c') ?k = Some e" "servable e now (ServiceTokenEarlyRefresh (ob_cfg c'))"
    by (metis cached_token_for_Some)
  with ok obtain d where d: "call_ok d" "call_key env d = ?k" "call_until env d = Some (ct_notAfter e)"
    unfolding cache_ok_def by blast
  then have "same_call env d (DelegatedCall audience scope subjectToken)"
    using assms(4,5) by (intro call_key_inj) simp_all
  then obtain st where st: "d = DelegatedCall audience scope st" "oe_sha256 env st = oe_sha256 env subjectToken" by (cases d) auto
  have u: "ct_notAfter e = zero_time \<or> now < ct_notAfter e" using e(2) by (auto simp: servable_def split: if_splits)
  have x: "subjectTokenExpiry env st = Some (ct_notAfter e)" using d(3) st(1) by simp
  have "st \<noteq> subjectToken" using x u assms(7) by auto
  with st(2) x u show ?thesis by metis
qed

section \<open>Overlapping calls to run\<close>

text \<open>Two tenants' acquisitions overlap, the later one is stored first, and a third is served from the cache.\<close>

definition demo_call_of :: "string \<Rightarrow> call" where
  "demo_call_of tenant = ServiceCall ''a'' ''s'' tenant"

definition demo_overlap :: "nat flight_event list" where
  "demo_overlap = [Arrive (demo_call_of ''t1''), Arrive (demo_call_of ''t2''), Move 0, Move 1, Move 0, Move 1, Move 1, Move 0,
     Arrive (demo_call_of ''t1''), Move 2]"

definition demo_entry :: "string \<Rightarrow> int \<Rightarrow> cached_token" where
  "demo_entry tok at = \<lparr>ct_token = tok, ct_exp = at * second + 300 * second, ct_notAfter = zero_time\<rparr>"

definition demo_answered :: "string \<Rightarrow> nat \<Rightarrow> acquiring" where
  "demo_answered tok at = Answered tok (int at * second + 300 * second) zero_time"

lemma demo_asks:
  assumes "demo_fits t" "t \<noteq> ''''"
  shows "acquire_step demo_env (demo_call_of t) Asking c w = (demo_answered t (Suc w), c, Suc w)"
proof -
  have t: "demo_token_of (call_form c (demo_call_of t)) = t" using assms(2) by (simp add: demo_token_of_def demo_call_of_def service_form_def)
  moreover from this assms(1) have "demo_fits (demo_token_of (call_form c (demo_call_of t)))" by simp
  ultimately obtain rqs where "postTokenForm demo_env (ob_tokenURL c) (call_form c (demo_call_of t)) w = ((Inr (t, 300 * second), rqs), Suc w)"
    using demo_post [OF _ call_form_keys, of c "demo_call_of t" "ob_tokenURL c" w] by metis
  then show ?thesis by (simp add: acquire_step_def demo_call_of_def demo_answered_def) (simp add: demo_env_def)
qed

lemma demo_flown:
  "fly demo_env demo_overlap (demo_client, [], 0) =
     (demo_client\<lparr>ob_tokens := [(''a|s|tenant=t2'', demo_entry ''t2'' 2), (''a|s|tenant=t1'', demo_entry ''t1'' 1)]\<rparr>,
      [(demo_call_of ''t1'', Finished (Inr ''t1'')), (demo_call_of ''t2'', Finished (Inr ''t2'')), (demo_call_of ''t1'', Finished (Inr ''t1''))], 2)"
proof -
  have begins: "acquire_step demo_env (demo_call_of t) Begun demo_client w = (Asking, demo_client, w)" for t w
    by (simp add: acquire_step_def cached_token_for_def demo_client_def) (simp add: demo_env_def)
  have stores: "acquire_step demo_env (demo_call_of t) (demo_answered t a) c w =
      (Finished (Inr t), store_token c (int w * second) (service_key ''a'' ''s'' t) (demo_entry t (int a)), w)" for t a c w
    by (simp add: acquire_step_def demo_call_of_def demo_entry_def demo_answered_def) (simp add: demo_env_def)
  have "store_token (store_token demo_client (int 2 * second) (service_key ''a'' ''s'' ''t2'') (demo_entry ''t2'' (int 2)))
      (int 2 * second) (service_key ''a'' ''s'' ''t1'') (demo_entry ''t1'' (int 1)) =
    demo_client\<lparr>ob_tokens := [(''a|s|tenant=t2'', demo_entry ''t2'' 2), (''a|s|tenant=t1'', demo_entry ''t1'' 1)]\<rparr>"
    by (simp add: store_token_def demo_client_def default_cfg_def demo_entry_def service_key_def servable_def second_def mkeep_def mput_def Let_def)
  note two = this
  have hit: "acquire_step demo_env (demo_call_of ''t1'') Begun
      (demo_client\<lparr>ob_tokens := [(''a|s|tenant=t2'', demo_entry ''t2'' 2), (''a|s|tenant=t1'', demo_entry ''t1'' 1)]\<rparr>) 2 =
    (Finished (Inr ''t1''), demo_client\<lparr>ob_tokens := [(''a|s|tenant=t2'', demo_entry ''t2'' 2), (''a|s|tenant=t1'', demo_entry ''t1'' 1)]\<rparr>, 2)"
    by (simp add: acquire_step_def demo_call_of_def cached_token_for_def demo_client_def default_cfg_def demo_entry_def service_key_def servable_def
        mget_def) (simp add: demo_env_def second_def)
  show ?thesis
    using two hit by (simp add: fly_def demo_overlap_def begins demo_asks demo_fits_tenants stores numeral_2_eq_2)
qed

theorem token_for_its_call_witness:
  "\<exists>c' w'. fly demo_env demo_overlap (demo_client, [], 0) = (c', [(demo_call_of ''t1'', Finished (Inr ''t1'')),
       (demo_call_of ''t2'', Finished (Inr ''t2'')), (demo_call_of ''t1'', Finished (Inr ''t1''))], w') \<and>
     issued demo_env (ob_tokenURL demo_client) (call_form demo_client (demo_call_of ''t1'')) ''t1''"
proof -
  have ok: "list_all event_ok demo_overlap" by (simp add: demo_overlap_def demo_call_of_def bar_free_def)
  have e: "ob_tokens demo_client = []" by (simp add: demo_client_def)
  from token_for_its_call [OF ok e demo_flown, of 2 "demo_call_of ''t1''" "''t1''"] obtain d where
      d: "same_call demo_env d (demo_call_of ''t1'')" "issued demo_env (ob_tokenURL demo_client) (call_form demo_client d) ''t1''" by auto
  then have "d = demo_call_of ''t1''" by (cases d) (auto simp: demo_call_of_def)
  with d(2) demo_flown show ?thesis by blast
qed

text \<open>
  A token obtained for a subject token at the start, and the same call two hundred seconds on: the
  cached token has a hundred left, but the subject token expired a hundred ago.
\<close>

definition demo_delegated :: call where
  "demo_delegated = DelegatedCall ''a'' ''s'' ''st''"

definition demo_outlived :: "nat flight_event list" where
  "demo_outlived = [Arrive demo_delegated, Move 0, Move 0, Move 0, Elsewhere 200]"

definition demo_kept :: outbound where
  "demo_kept = demo_client\<lparr>ob_tokens := [(delegated_key id ''a'' ''s'' ''st'',
     \<lparr>ct_token = ''plain'', ct_exp = 301 * second, ct_notAfter = 100 * second\<rparr>)]\<rparr>"

lemma demo_delegated_flown:
  "fly demo_env demo_outlived (demo_client, [], 0) = (demo_kept, [(demo_delegated, Finished (Inr ''plain''))], 200)"
proof -
  have form: "demo_token_of (call_form c demo_delegated) = ''plain''" for c
    by (simp add: demo_token_of_def demo_delegated_def exchange_form_def)
  have "demo_fits (demo_token_of (call_form demo_client demo_delegated))" unfolding form by (rule demo_fits_tenants(3))
  from demo_post [OF this call_form_keys, of "ob_tokenURL demo_client" 0] obtain rqs where
    post: "postTokenForm demo_env (ob_tokenURL demo_client) (call_form demo_client demo_delegated) 0 = ((Inr (''plain'', 300 * second), rqs), Suc 0)"
    unfolding form by auto
  have e: "oe_now demo_env w = (int w * second, w)" "oe_sha256 demo_env = id" "subjectTokenExpiry demo_env st = Some (100 * second)" for w st
    by (simp_all add: demo_env_def subjectTokenExpiry_def)
  have keys: "call_key demo_env demo_delegated = delegated_key id ''a'' ''s'' ''st''" "call_until demo_env demo_delegated = Some (100 * second)"
    by (simp_all add: demo_delegated_def e)
  have m: "cached_token_for demo_client t k = None" for t k by (simp add: cached_token_for_def demo_client_def)
  have s: "store_token demo_client second k \<lparr>ct_token = tok, ct_exp = 301 * second, ct_notAfter = 100 * second\<rparr> =
      demo_client\<lparr>ob_tokens := [(k, \<lparr>ct_token = tok, ct_exp = 301 * second, ct_notAfter = 100 * second\<rparr>)]\<rparr>" for k tok
    by (simp add: store_token_def demo_client_def default_cfg_def servable_def second_def mkeep_def mput_def Let_def zero_time_def)
  have "second + 300 * second = 301 * second" by simp
  then show ?thesis
    by (simp add: fly_def demo_outlived_def acquire_step_def e keys m post s demo_kept_def)
qed

theorem reuse_ends_with_subject_witness:
  "cached_token_for (demo_kept\<lparr>ob_tokens := map (apsnd (\<lambda>t. t\<lparr>ct_notAfter := zero_time\<rparr>)) (ob_tokens demo_kept)\<rparr>) (200 * second)
       (delegated_key id ''a'' ''s'' ''st'') = Some ''plain''
   \<and> fst (acquireDelegatedToken demo_env ''a'' ''s'' ''st'' demo_kept 200) = fst (exchangeDelegatedToken demo_env ''a'' ''s'' ''st'' demo_kept 200)"
proof
  show "cached_token_for (demo_kept\<lparr>ob_tokens := map (apsnd (\<lambda>t. t\<lparr>ct_notAfter := zero_time\<rparr>)) (ob_tokens demo_kept)\<rparr>) (200 * second)
       (delegated_key id ''a'' ''s'' ''st'') = Some ''plain''"
    by (simp add: cached_token_for_def demo_kept_def demo_client_def default_cfg_def servable_def second_def mget_def)
  have ok: "list_all event_ok demo_outlived" "ob_tokens demo_client = []" "bar_free ''a''" "bar_free ''s''"
    by (simp_all add: demo_outlived_def demo_delegated_def bar_free_def demo_client_def)
  have e: "oe_now demo_env 200 = (200 * second, 200)" "oe_sha256 demo_env = id" "subjectTokenExpiry demo_env ''st'' = Some (100 * second)"
    by (simp_all add: demo_env_def subjectTokenExpiry_def)
  have "100 * second \<noteq> zero_time" "100 * second \<le> 200 * second" by (simp_all add: zero_time_def second_def)
  with reuse_ends_with_subject [OF ok(1,2) demo_delegated_flown ok(3,4) e(1), of "''st''"] e(2,3)
  show "fst (acquireDelegatedToken demo_env ''a'' ''s'' ''st'' demo_kept 200) = fst (exchangeDelegatedToken demo_env ''a'' ''s'' ''st'' demo_kept 200)"
    by simp
qed

end
