(* ===== verification/Gate_Fleet.thy ===== *)
theory Gate_Fleet
  imports Auth_Gate
begin

text \<open>
  The gates of a service's instances together. Instances have keys, caches and nonce issuers of
  their own, and a store in memory is one instance's own too; what instances may share is the
  Redis server behind those that use it. Requests reach the instances in any order.
\<close>

section \<open>A run of requests\<close>

type_synonym ('k, 'd) fleet = "nat \<Rightarrow> ('k, (memory, 'd) store_choice) gate"

text \<open>The store an instance asks when the server's state is \<open>d\<close>, and the server's state after a request.\<close>

fun with_server :: "'d \<Rightarrow> (memory, 'd) store_choice \<Rightarrow> (memory, 'd) store_choice" where
  "with_server d (UseMemory m) = UseMemory m"
| "with_server d (UseRedis _) = UseRedis d"

fun server_after :: "'d \<Rightarrow> (memory, 'd) store_choice \<Rightarrow> 'd" where
  "server_after d (UseMemory m) = d"
| "server_after d (UseRedis d') = d'"

fun uses_server :: "(memory, 'd) store_choice \<Rightarrow> bool" where
  "uses_server (UseMemory m) = False"
| "uses_server (UseRedis d) = True"

definition gate_at :: "('k, 'd) fleet \<Rightarrow> 'd \<Rightarrow> nat \<Rightarrow> ('k, (memory, 'd) store_choice) gate" where
  "gate_at gs d n = (gs n)\<lparr>g_replay := with_server d (g_replay (gs n))\<rparr>"

text \<open>Each request with the instance it reaches and its clock readings, in the order the stores are asked.\<close>

fun fleet_run :: "('k, (memory, 'd) store_choice) gate_lib \<Rightarrow> ('k, 'd) fleet \<Rightarrow> 'd \<Rightarrow> (nat \<times> gate_times \<times> request) list
    \<Rightarrow> (gate_response, (string, string list) gomap) result list" where
  "fleet_run lib gs d [] = []"
| "fleet_run lib gs d ((n, ts, rq) # es) =
     (case handle lib (gate_at gs d n) ts rq of (r, g') \<Rightarrow> r # fleet_run lib (gs(n := g')) (server_after d (g_replay g')) es)"

fun replay_clocked :: "gotime \<Rightarrow> (nat \<times> gate_times \<times> request) list \<Rightarrow> bool" where
  "replay_clocked t [] \<longleftrightarrow> True"
| "replay_clocked t ((n, ts, rq) # es) \<longleftrightarrow> t \<le> t_replay ts \<and> replay_clocked (t_replay ts) es"

text \<open>Instances of one service: one configuration, whose ages are whole milliseconds.\<close>

definition fleet_ok :: "configuration \<Rightarrow> ('k, 'd) fleet \<Rightarrow> bool" where
  "fleet_ok cfg gs \<longleftrightarrow> cfg_ok cfg \<and> (DPoPProofMaxAge cfg + TokenClockSkewLeeway cfg) mod millisecond = 0 \<and> (\<forall>n. g_cfg (gs n) = cfg)"

text \<open>Two requests ask one store: they reach one instance, or two that use the server.\<close>

definition one_store :: "('k, 'd) fleet \<Rightarrow> nat \<Rightarrow> nat \<Rightarrow> bool" where
  "one_store gs n n' \<longleftrightarrow> n = n' \<or> uses_server (g_replay (gs n)) \<and> uses_server (g_replay (gs n'))"

definition store_at :: "('k, 'd) fleet \<Rightarrow> 'd \<Rightarrow> nat \<Rightarrow> (memory, 'd) store_choice" where
  "store_at gs d n = with_server d (g_replay (gs n))"

lemma gate_at_simps [simp]: "g_cfg (gate_at gs d n) = g_cfg (gs n)" "g_replay (gate_at gs d n) = store_at gs d n"
    "g_nonce (gate_at gs d n) = g_nonce (gs n)" "g_jwks (gate_at gs d n) = g_jwks (gs n)"
  by (simp_all add: gate_at_def store_at_def)

lemma uses_server_with [simp]: "uses_server (with_server d s) = uses_server s"
  by (cases s) simp_all

lemma with_server_same [simp]: "with_server (server_after d s) s = s"
  by (cases s) simp_all

lemma one_store_at: "one_store gs n n' \<Longrightarrow> store_at gs d n = store_at gs d n'"
  by (cases "g_replay (gs n)"; cases "g_replay (gs n')") (auto simp: one_store_def store_at_def)

lemma one_store_sym: "one_store gs n n' \<Longrightarrow> one_store gs n' n"
  by (auto simp: one_store_def)

lemma fleet_ok_cfg: "fleet_ok cfg gs \<Longrightarrow> cfg_ok cfg \<and> RequireDPoP cfg \<and> replay_ttl cfg mod millisecond = 0 \<and> g_cfg (gs n) = cfg"
  by (simp add: fleet_ok_def replay_ttl_eq) (simp add: cfg_ok_def)

lemma fleet_ok_step: "fleet_ok cfg gs \<Longrightarrow> handle lib (gate_at gs d n) ts rq = (r, g') \<Longrightarrow> fleet_ok cfg (gs(n := g'))"
  using handle_effect [of lib "gate_at gs d n" ts rq r g'] by (simp add: fleet_ok_def)

lemma length_fleet_run: "length (fleet_run lib gs d es) = length es"
  by (induction es arbitrary: gs d) (auto split: prod.splits)

text \<open>A request changes the store it asks, keeps its kind, and leaves every other store alone.\<close>

lemma choice_kind: "choice_checkAndSet setnx s now jti ttl = (r, s') \<Longrightarrow> uses_server s' = uses_server s"
  by (cases s) (auto simp: choice_memory_iff choice_redis_iff simp del: choice_checkAndSet.simps)

lemma store_kind:
  assumes "gl_check_and_set lib = choice_checkAndSet setnx" "handle lib (gate_at gs d n) ts rq = (r, g')"
  shows "uses_server (g_replay g') = uses_server (g_replay (gs n))"
proof -
  have "g_replay g' = store_at gs d n \<or> (\<exists>jti ttl a. choice_checkAndSet setnx (store_at gs d n) (t_replay ts) jti ttl = (a, g_replay g'))"
    using handle_effect [OF assms(2)] assms(1) by auto
  then have "uses_server (g_replay g') = uses_server (store_at gs d n)" using choice_kind by metis
  then show ?thesis by (simp add: store_at_def)
qed

lemma store_step:
  assumes "gl_check_and_set lib = choice_checkAndSet setnx" "handle lib (gate_at gs d n) ts rq = (r, g')"
  shows "store_at (gs(n := g')) (server_after d (g_replay g')) n' = (if one_store gs n n' then g_replay g' else store_at gs d n')"
    and "one_store (gs(n := g')) i j = one_store gs i j"
  using store_kind [OF assms]
  by (cases "g_replay g'"; cases "g_replay (gs n')"; auto simp: one_store_def store_at_def)+

text \<open>What a request that is let through has asked of the store.\<close>

lemma fleet_accepts:
  assumes "fleet_ok cfg gs" "handle lib (gate_at gs d n) ts rq = (Inr u, g')"
  obtains c iat where "proof_content lib rq = Some c" "pc_IssuedAt c = Some iat"
    "t_proof ts \<le> iat + DPoPProofMaxAge cfg + TokenClockSkewLeeway cfg"
    "gl_check_and_set lib (store_at gs d n) (t_replay ts) (pc_ID c) (replay_ttl cfg) = (Inr True, g_replay g')"
proof -
  note ok = fleet_ok_cfg [OF assms(1), of n]
  have "RequireDPoP (g_cfg (gate_at gs d n))" using ok by simp
  from handle_accepts [OF assms(2) this] ok obtain res where res: "proof_of lib cfg ts rq = Inr res"
      "gl_check_and_set lib (store_at gs d n) (t_replay ts) (pr_JTI res) (replay_ttl cfg) = (Inr True, g_replay g')" by auto
  from proof_of_content [OF res(1)] ok obtain c iat where "proof_content lib rq = Some c" "pr_JTI res = pc_ID c" "pc_IssuedAt c = Some iat"
      "t_proof ts \<le> iat + DPoPProofMaxAge cfg + TokenClockSkewLeeway cfg" by blast
  with res(2) that show ?thesis by simp
qed

lemma run_accepted_proof:
  assumes "fleet_ok cfg gs" "j < length es" "es ! j = (n, ts, rq)" "is_ok (fleet_run lib gs d es ! j)"
  shows "\<exists>c iat. proof_content lib rq = Some c \<and> pc_IssuedAt c = Some iat
    \<and> t_proof ts \<le> iat + DPoPProofMaxAge cfg + TokenClockSkewLeeway cfg"
  using assms
proof (induction lib gs d es arbitrary: j rule: fleet_run.induct)
  case (2 lib gs d n' ts' rq' es)
  obtain r g' where h: "handle lib (gate_at gs d n') ts' rq' = (r, g')" by (metis prod.exhaust)
  show ?case
  proof (cases j)
    case 0
    with "2.prems" h obtain u where "r = Inr u" "ts' = ts" "rq' = rq" by (cases r) auto
    with fleet_accepts [OF "2.prems"(1)] h show ?thesis by metis
  next
    case (Suc i)
    with "2.IH" [OF h [symmetric] fleet_ok_step [OF "2.prems"(1) h], of i] "2.prems" h show ?thesis by (simp add: fun_upd_def)
  qed
qed simp

section \<open>What one store gives\<close>

context once_store
begin

lemma handle_keeps:
  assumes "gl_check_and_set lib = check_and_set" "store_ok (g_replay g)" "handle lib g ts rq = (r, g')"
  shows "store_ok (g_replay g')"
    and "held (g_replay g) jti t u \<Longrightarrow> t \<le> t_replay ts \<Longrightarrow> held (g_replay g') jti (t_replay ts) u"
proof -
  have cs: "g_replay g' = g_replay g \<or> (\<exists>jti' ttl a. check_and_set (g_replay g) (t_replay ts) jti' ttl = (a, g_replay g'))"
    using handle_effect [OF assms(3)] assms(1) by auto
  show "store_ok (g_replay g')" using cs ok_kept [OF assms(2)] assms(2) by metis
  show "held (g_replay g) jti t u \<Longrightarrow> t \<le> t_replay ts \<Longrightarrow> held (g_replay g') jti (t_replay ts) u"
    using cs held_keeps [OF assms(2)] held_later by metis
qed

end

text \<open>The stores of a fleet, over a server that keeps the contract.\<close>

locale fleet_stores =
  fixes setnx :: "'d \<Rightarrow> gotime \<Rightarrow> string \<Rightarrow> duration \<Rightarrow> (string, bool) result \<times> 'd"
    and db_live :: "'d \<Rightarrow> string \<Rightarrow> gotime \<Rightarrow> bool"
    and db_ok :: "'d \<Rightarrow> bool"
    and lib :: "('k, (memory, 'd) store_choice) gate_lib"
  assumes server: "once_store setnx db_live db_ok"
    and lib_store: "gl_check_and_set lib = choice_checkAndSet setnx"
begin

lemmas stores = choice_is_store [OF server]

abbreviation keeps where "keeps s jti t u \<equiv> once_store.held (choice_live db_live) s jti t u"

abbreviation stores_ok where "stores_ok gs d \<equiv> (\<forall>n. choice_ok db_ok (store_at gs d n))"

lemma stores_ok_step:
  assumes "stores_ok gs d" "handle lib (gate_at gs d n) ts rq = (r, g')"
  shows "stores_ok (gs(n := g')) (server_after d (g_replay g'))"
proof -
  have "choice_ok db_ok (g_replay (gate_at gs d n))" using assms(1) by simp
  from once_store.handle_keeps(1) [OF stores lib_store this assms(2)] assms(1) show ?thesis
    unfolding store_step(1) [OF lib_store assms(2)] by simp
qed

lemma keeps_step:
  assumes "stores_ok gs d" "handle lib (gate_at gs d n) ts rq = (r, g')" "keeps (store_at gs d n') jti t u" "t \<le> t_replay ts"
  shows "keeps (store_at (gs(n := g')) (server_after d (g_replay g')) n') jti (t_replay ts) u"
proof (cases "one_store gs n n'")
  case True
  have "choice_ok db_ok (g_replay (gate_at gs d n))" "keeps (g_replay (gate_at gs d n)) jti t u"
    using assms(1,3) one_store_at [OF True] by simp_all
  from once_store.handle_keeps(2) [OF stores lib_store this(1) assms(2) this(2) assms(4)] True show ?thesis
    unfolding store_step(1) [OF lib_store assms(2)] by simp
next
  case False
  then show ?thesis unfolding store_step(1) [OF lib_store assms(2)] using once_store.held_later [OF stores assms(3,4)] by simp
qed

text \<open>While a store holds an identifier, no instance that asks it lets a proof that carries it through.\<close>

lemma held_not_accepted:
  assumes "proof_content lib rq = Some c" "fleet_ok cfg gs" "stores_ok gs d" "keeps (store_at gs d n) (pc_ID c) t u" "replay_clocked t es"
    and "j < length es" "es ! j = (n2, ts, rq)" "one_store gs n n2" "is_ok (fleet_run lib gs d es ! j)"
  shows "u \<le> t_replay ts"
  using assms
proof (induction es arbitrary: gs d t j)
  case (Cons e es)
  obtain n' ts' rq' where e: "e = (n', ts', rq')" by (metis prod.exhaust)
  note fok = Cons.prems(2) and ok = Cons.prems(3) and hl = Cons.prems(4)
  obtain r g' where h: "handle lib (gate_at gs d n') ts' rq' = (r, g')" by (metis prod.exhaust)
  have t: "t \<le> t_replay ts'" "replay_clocked (t_replay ts') es" using Cons.prems(5) e by simp_all
  show ?case
  proof (cases j)
    case 0
    with Cons.prems(6,7,9) h e obtain usr where q: "r = Inr usr" "n' = n2" "ts' = ts" "rq' = rq" by (cases r) auto
    from fleet_accepts [OF fok h [unfolded q]] obtain c' where "proof_content lib rq = Some c'"
        "gl_check_and_set lib (store_at gs d n2) (t_replay ts) (pc_ID c') (replay_ttl cfg) = (Inr True, g_replay g')" by metis
    with Cons.prems(1) lib_store one_store_at [OF Cons.prems(8), of d]
    have "choice_checkAndSet setnx (store_at gs d n) (t_replay ts) (pc_ID c) (replay_ttl cfg) = (Inr True, g_replay g')" by simp
    with once_store.held_refused [OF stores _ hl, of "t_replay ts"] ok t(1) q(3) show ?thesis by (metis not_le)
  next
    case (Suc i)
    have "one_store (gs(n' := g')) n n2" using Cons.prems(8) unfolding store_step(2) [OF lib_store h] .
    from Cons.IH [OF Cons.prems(1) fleet_ok_step [OF fok h] stores_ok_step [OF ok h] keeps_step [OF ok h hl t(1)] t(2), of i] this
      Cons.prems(6,7,9) h e Suc show ?thesis by (simp add: fun_upd_def)
  qed
qed simp

lemma accepted_twice:
  assumes "rq_header rq1 ''DPoP'' = rq_header rq2 ''DPoP''"
    and "fleet_ok cfg gs" "stores_ok gs d" "replay_clocked t es" "i < j" "j < length es"
    and "es ! i = (n1, ts1, rq1)" "es ! j = (n2, ts2, rq2)" "one_store gs n1 n2"
    and "is_ok (fleet_run lib gs d es ! i)" "is_ok (fleet_run lib gs d es ! j)"
  shows "t_replay ts1 + DPoPProofMaxAge cfg + TokenClockSkewLeeway cfg \<le> t_replay ts2"
  using assms
proof (induction es arbitrary: gs d t i j)
  case (Cons e es)
  obtain n' ts' rq' where e: "e = (n', ts', rq')" by (metis prod.exhaust)
  note fok = Cons.prems(2) and ok = Cons.prems(3)
  obtain r g' where h: "handle lib (gate_at gs d n') ts' rq' = (r, g')" by (metis prod.exhaust)
  have t: "replay_clocked (t_replay ts') es" using Cons.prems(4) e by simp
  obtain j' where j: "j = Suc j'" using Cons.prems(5) by (cases j) simp_all
  note fok' = fleet_ok_step [OF fok h] and ok' = stores_ok_step [OF ok h]
  have one: "one_store (gs(n' := g')) n1 n2" using Cons.prems(9) unfolding store_step(2) [OF lib_store h] .
  show ?case
  proof (cases i)
    case 0
    with Cons.prems(7,10) h e obtain usr where q: "r = Inr usr" "n' = n1" "ts' = ts1" "rq' = rq1" by (cases r) auto
    from fleet_accepts [OF fok h [unfolded q]] obtain c where c: "proof_content lib rq1 = Some c"
        "choice_checkAndSet setnx (store_at gs d n1) (t_replay ts1) (pc_ID c) (replay_ttl cfg) = (Inr True, g_replay g')"
      using lib_store by metis
    have c2: "proof_content lib rq2 = Some c" using c(1) Cons.prems(1) by (simp add: proof_content_def)
    have "keeps (g_replay g') (pc_ID c) (t_replay ts1) (t_replay ts1 + replay_ttl cfg)"
      using once_store.held_new [OF stores _ c(2)] ok fleet_ok_cfg [OF fok] by simp
    then have "keeps (store_at (gs(n' := g')) (server_after d (g_replay g')) n1) (pc_ID c) (t_replay ts1) (t_replay ts1 + replay_ttl cfg)"
      unfolding store_step(1) [OF lib_store h] by (simp add: q(2) one_store_def)
    from held_not_accepted [OF c2 fok' ok' this, of es j' n2 ts2] t q(3) one Cons.prems(6,8,11) j h e
    have "t_replay ts1 + replay_ttl cfg \<le> t_replay ts2" by simp
    then show ?thesis using replay_ttl_eq fleet_ok_cfg [OF fok] by simp
  next
    case (Suc i')
    with Cons.IH [OF Cons.prems(1) fok' ok' t, of i' j'] one Cons.prems(5-8,10,11) j h e show ?thesis by (simp add: fun_upd_def)
  qed
qed simp

end

interpretation listed_fleet: fleet_stores listed_setnx listed_live "\<lambda>_. True" "demo_lib_on (choice_checkAndSet listed_setnx) iat" for iat
  by unfold_locales (simp add: demo_lib_on_def)

section \<open>One proof, once\<close>

text \<open>
  C2: the instances of a service run over any sequence of requests, each instance with memory of
  its own or with the Redis server the others use, and answer a request as \<open>handle\<close> does. Once one
  of them has let a proof through, no instance that asks the same store - itself, or another one
  on the server - lets the same proof through again, for the maximum age and the leeway from
  the first use; and for good when the proof's time of issue lies before its first use by more
  than the second request takes from checking the proof to asking the store. (A proof that was
  stamped ahead of its first use is outside that second part.)
\<close>

theorem proof_let_through_once:
  assumes "once_store setnx db_live db_ok" "gl_check_and_set lib = choice_checkAndSet setnx" "\<And>n. choice_ok db_ok (store_at gs d n)"
    and "fleet_ok cfg gs" "replay_clocked t es"
    and "i < j" "j < length es" "es ! i = (n1, ts1, rq1)" "es ! j = (n2, ts2, rq2)" "one_store gs n1 n2"
    and "rq_header rq1 ''DPoP'' = rq_header rq2 ''DPoP''" "is_ok (fleet_run lib gs d es ! i)"
    and "proof_content lib rq1 = Some c" "pc_IssuedAt c = Some iat"
    and "t_replay ts2 < t_replay ts1 + DPoPProofMaxAge cfg + TokenClockSkewLeeway cfg \<or> iat + (t_replay ts2 - t_proof ts2) < t_replay ts1"
  shows "\<not> is_ok (fleet_run lib gs d es ! j)"
proof
  assume ok: "is_ok (fleet_run lib gs d es ! j)"
  have "fleet_stores setnx db_live db_ok lib" using assms(1,2) by (rule fleet_stores.intro)
  from fleet_stores.accepted_twice [OF this assms(11,4) _ assms(5-10,12) ok] assms(3)
  have a: "t_replay ts1 + DPoPProofMaxAge cfg + TokenClockSkewLeeway cfg \<le> t_replay ts2" by simp
  have "proof_content lib rq2 = Some c" using assms(11,13) by (simp add: proof_content_def)
  with run_accepted_proof [OF assms(4,7,9) ok] assms(14)
  have "t_proof ts2 \<le> iat + DPoPProofMaxAge cfg + TokenClockSkewLeeway cfg" by simp
  with a assms(15) show False by simp
qed

text \<open>A proof stamped at the time of its first use and shown to two instances on one server, twice within its time.\<close>

definition demo_shown :: "(nat \<times> gate_times \<times> request) list" where
  "demo_shown = [(0, all_at 0, demo_request), (1, all_at (50 * second), demo_request)]"

lemma demo_content: "proof_content (demo_lib_on cas iat) demo_request = Some (demo_claims iat)"
  by (simp add: proof_content_def demo_lib_on_def run_parser_def demo_header_of_def demo_proof_header_def proof_keyfunc_def keyFromHeader_def
      demo_jwks_def demo_checked_def demo_request_def)

lemma demo_first:
  "handle (demo_lib_on (choice_checkAndSet listed_setnx) iat) (demo_gate (UseRedis [])) (all_at 0) demo_request =
     (Inr (toUserClaims demo_user), demo_gate (UseRedis [(prefix newRedis @ demo_jti, 90 * second)]))" if "iat = 0 \<or> iat = 30 * second"
proof -
  have "0 \<le> 10 * minute" by (simp add: minute_def second_def)
  from demo_handle [OF this, of "choice_checkAndSet listed_setnx" iat "UseRedis []"] that show ?thesis
    by (auto simp: redis_checkAndSet_eq listed_setnx_def listed_live_def) (simp_all add: second_def millisecond_def)
qed

theorem proof_let_through_once_witness:
  "map is_ok (fleet_run (demo_lib_on (choice_checkAndSet listed_setnx) 0) (\<lambda>_. demo_gate (UseRedis [])) [] demo_shown) = [True, False]"
proof -
  let ?lib = "demo_lib_on (choice_checkAndSet listed_setnx) 0"
    and ?gs = "(\<lambda>_. demo_gate (UseRedis [])) :: (nat, (string \<times> gotime) list) fleet"
  let ?run = "fleet_run ?lib ?gs [] demo_shown"
  have at: "gate_at ?gs [] n = demo_gate (UseRedis [])" for n by (simp add: gate_at_def demo_gate_def)
  have first: "is_ok (?run ! 0)" by (simp add: demo_shown_def at demo_first split: prod.splits)
  have f: "fleet_ok default_cfg ?gs"
    by (simp add: fleet_ok_def cfg_ok_def demo_gate_def default_cfg_def eval_simps) (simp add: millisecond_def)
  have c: "replay_clocked 0 demo_shown" "demo_shown ! 0 = (0, all_at 0, demo_request)" "demo_shown ! 1 = (1, all_at (50 * second), demo_request)"
      "length demo_shown = 2" "gl_check_and_set ?lib = choice_checkAndSet listed_setnx"
      "choice_ok (\<lambda>_. True) (store_at ?gs [] n)" "one_store ?gs 0 1" "pc_IssuedAt (demo_claims 0) = Some 0"
      "t_replay (all_at (50 * second)) < t_replay (all_at 0) + DPoPProofMaxAge default_cfg + TokenClockSkewLeeway default_cfg" for n
    by (simp_all add: demo_shown_def all_at_def second_def demo_lib_on_def store_at_def demo_gate_def one_store_def demo_claims_def default_cfg_def)
  have "\<not> is_ok (?run ! 1)"
    by (rule proof_let_through_once [OF listed.once_store_axioms c(5,6) f c(1) _ _ c(2,3,7) refl first demo_content c(8)]) (simp_all add: c(4,9))
  moreover have "length ?run = 2" by (simp add: length_fleet_run c(4))
  ultimately show ?thesis using first by (auto intro!: nth_equalityI simp: less_Suc_eq numeral_2_eq_2)
qed

section \<open>The window a proof can come back in\<close>





end
