(* ===== verification/Guarded_Route.thy ===== *)
theory Guarded_Route
  imports Auth_Gate Route_Gate
begin

text \<open>
  A route from the outside in: the middleware (\<open>src/authclient/middleware.go\<close>) makes a user of
  the request's token (\<open>src/claims/claims.go\<close>), and the guard of the route
  (\<open>src/permissions/gate.go\<close>) asks that user for scopes. How the web framework's user reads its
  claim map is an argument, with the contract the interface \<open>Scopes\<close> states.
\<close>

section \<open>A guarded route behind the gate\<close>

text \<open>What a route answers: its handler's work, or a 403 after telling \<open>deny\<close>, when there is one, what was needed.\<close>

datatype 'a route_answer = Handled 'a | Forbidden "string option"

definition refuse_route :: "bool \<Rightarrow> string \<Rightarrow> 'a route_answer" where
  "refuse_route has_deny required = Forbidden (if has_deny then Some required else None)"

definition route_handler :: "bool \<Rightarrow> (caller_scopes \<Rightarrow> (string, 'a) result) \<Rightarrow> caller_scopes \<Rightarrow> 'a route_answer" where
  "route_handler has_deny guarded u = (case guarded u of Inr h \<Rightarrow> Handled h | Inl required \<Rightarrow> refuse_route has_deny required)"

definition serve_guarded :: "('k, 's) gate_lib \<Rightarrow> ((string, string list) gomap option \<Rightarrow> caller_scopes) \<Rightarrow> bool
    \<Rightarrow> (caller_scopes \<Rightarrow> (string, 'a) result) \<Rightarrow> ('k, 's) gate \<Rightarrow> gate_times \<Rightarrow> request
    \<Rightarrow> (gate_response, 'a route_answer) result \<times> ('k, 's) gate" where
  "serve_guarded lib has_level has_deny guarded g ts rq = authenticate lib (\<lambda>u. route_handler has_deny guarded (has_level u)) g ts rq"

text \<open>
  The authenticated user answers for a scope by an exact match on its group and level, where
  the values of the scope claim are single scopes and neither name holds the separator.
\<close>

definition scope_claim :: "(string, string list) gomap \<Rightarrow> string list" where
  "scope_claim m = (case mget m claimScope of None \<Rightarrow> [] | Some vs \<Rightarrow> vs)"

definition scope_contract :: "((string, string list) gomap option \<Rightarrow> caller_scopes) \<Rightarrow> bool" where
  "scope_contract has_level \<longleftrightarrow> (\<forall>m grp l. list_all (\<lambda>v. CHR '','' \<notin> set v) (scope_claim m) \<and> CHR '':'' \<notin> set grp \<and> CHR '':'' \<notin> set l \<longrightarrow>
     (has_level (Some m) grp l \<longleftrightarrow> List.member (scope_claim m) (grp @ '':'' @ l)))"

section \<open>From the token's scopes to the handler\<close>

lemma scope_claim_user: "scope_claim (toUserClaims cl) = scopes cl"
  by (simp add: scope_claim_def toUserClaims_fields)

lemma fields_acc_chars: "w \<in> set (fields_acc acc cs) \<Longrightarrow> set w \<subseteq> set acc \<union> set (concat (map snd cs))"
  by (induction acc cs arbitrary: w rule: fields_acc.induct) (fastforce split: if_splits)+

lemma fields_chars: "w \<in> set (Go_Strings.fields s) \<Longrightarrow> set w \<subseteq> set s"
  using fields_acc_chars [of w "[]" "rune_chunks s"] by (simp add: Go_Strings.fields_def concat_rune_chunks)

lemma handle_user:
  assumes "handle lib g ts rq = (Inr u, g')"
  obtains cl g1 where "parseToken lib g ts (bearerToken (rq_header rq ''Authorization'')) = (Inr cl, g1)" "u = toUserClaims cl"
proof -
  let ?tok = "bearerToken (rq_header rq ''Authorization'')"
  obtain p g1 where p: "parseToken lib g ts ?tok = (p, g1)" by (metis prod.exhaust)
  from assms p obtain cl where cl: "p = Inr cl"
    by (cases p) (auto simp: handle_def validate_def split: gate_error.splits)
  have "b = Inr (Authenticated u) \<Longrightarrow> u = toUserClaims cl" if "validate_bound lib g1 ts rq ?tok cl = (b, g2)" for b g2
    using that unfolding validate_bound_def Let_def by (auto simp: challenge_def split: sum.splits if_splits option.splits prod.splits bool.splits)
  with assms p cl have "u = toUserClaims cl"
    by (auto simp: handle_def validate_def Let_def split: if_splits prod.splits sum.splits gate_error.splits auth_result.splits)
  with p cl that show ?thesis by blast
qed

lemma user_holds:
  assumes "scope_contract has_level" "CHR '','' \<notin> set (Scope cl)" "CHR '':'' \<notin> set grp" "CHR '':'' \<notin> set l"
  shows "has_level (Some (toUserClaims cl)) grp l \<longleftrightarrow> List.member (scopes cl) (grp @ '':'' @ l)"
proof -
  have "list_all (\<lambda>v. CHR '','' \<notin> set v) (scopes cl)"
    using assms(2) fields_chars by (fastforce simp: scopes_def list_all_iff)
  with assms show ?thesis by (simp add: scope_contract_def scope_claim_user)
qed

lemma declared_names:
  assumes "newSet service displayName ls = Inr s" "is_ok (declared s f a)"
  shows "CHR '':'' \<notin> set (service @ ''/'' @ f)" "CHR '':'' \<notin> set a"
proof -
  obtain q where q: "q \<in> set (concat ls)" "p_Feature q = f" "p_Act q = a" using set_is_exact_declared [OF assms(1)] assms(2) by blast
  note b = newSet_built [OF assms(1)]
  from b q(1) have "check service q = None" by (simp only: list_all_iff)
  with check_shapes q have "featureShape f" "actShape a" by auto
  moreover have "CHR '':'' \<notin> set service"
    using b by (auto simp: serviceShape_def list_all_iff char_class_defs ord_def split: list.splits)
  ultimately show "CHR '':'' \<notin> set (service @ ''/'' @ f)" "CHR '':'' \<notin> set a"
    using featureShape_no_colon actShape_no_sep by auto
qed

lemma declared_all_names:
  assumes "newSet service displayName ls = Inr s" "declared_all s fas = Inr ps" "(f, a) \<in> set fas"
  shows "CHR '':'' \<notin> set (service @ ''/'' @ f)" "CHR '':'' \<notin> set a"
  using declared_names [OF assms(1), of f a] declared_all_ok [OF assms(2)] assms(3) by (auto simp: list_all_iff)

text \<open>
  C4: behind the gate, a route guarded by a level and by declared permissions reaches its handler
  exactly for a request the gate lets through whose token's scope string lists the level's scope,
  or one of the permissions (all of them, for a route that needs all) as it travels, word for
  word; nothing the caller sends beside the token is asked. As the framework splits scopes, this is
  for a token whose scope string has no comma and a level whose group and names have no colon.
\<close>

theorem guarded_route_reached:
  assumes "scope_contract has_level" and "newSet service displayName ls = Inr s" and "declared_all s fas = Inr ps"
    and "CHR '':'' \<notin> set grp" and "list_all (\<lambda>l. CHR '':'' \<notin> set l) lvls"
    and "parseToken lib g ts (bearerToken (rq_header rq ''Authorization'')) = (p, g1)"
    and "\<And>cl. p = Inr cl \<Longrightarrow> CHR '','' \<notin> set (Scope cl)"
  shows "fst (serve_guarded lib has_level has_deny (fst (guard rg (levels grp lvls) ps all h)) g ts rq) = Inr (Handled h) \<longleftrightarrow>
    (\<exists>cl. p = Inr cl \<and> fst (handle lib g ts rq) = Inr (toUserClaims cl) \<and>
      (list_ex (\<lambda>l. List.member (scopes cl) (grp @ '':'' @ l)) lvls
       \<or> fas \<noteq> [] \<and> (if all then list_all else list_ex) (\<lambda>(f, a). List.member (scopes cl) (service @ ''/'' @ f @ '':'' @ a)) fas))"
proof -
  let ?held = "\<lambda>cl. \<lambda>(f, a). List.member (scopes cl) (service @ ''/'' @ f @ '':'' @ a)"
  let ?route = "fst (guard rg (levels grp lvls) ps all h)"
  obtain r g2 where h: "handle lib g ts rq = (r, g2)" by (metis prod.exhaust)
  have passes: "is_ok (?route (has_level (Some (toUserClaims cl)))) \<longleftrightarrow>
      list_ex (\<lambda>l. List.member (scopes cl) (grp @ '':'' @ l)) lvls \<or> fas \<noteq> [] \<and> (if all then list_all else list_ex) (?held cl) fas"
    if cl: "p = Inr cl" for cl
  proof -
    note holds = user_holds [OF assms(1) assms(7) [OF cl]]
    have "level_holds (levels grp lvls) (has_level (Some (toUserClaims cl))) \<longleftrightarrow> list_ex (\<lambda>l. List.member (scopes cl) (grp @ '':'' @ l)) lvls"
      using holds [OF assms(4)] assms(5) by (auto simp: level_holds_def levels_def list_ex_iff list_all_iff)
    moreover have "heldBy (perm_of s (f, a)) (has_level (Some (toUserClaims cl))) \<longleftrightarrow> ?held cl (f, a)" if "(f, a) \<in> set fas" for f a
      using holds [OF declared_all_names [OF assms(2,3) that]] newSet_built [OF assms(2)] by (simp add: heldBy_def perm_of_def)
    ultimately show ?thesis
      using declared_all_ok [OF assms(3)] unfolding guard_passes by (auto simp: list_all_iff list_ex_iff)
  qed
  have handled: "route_handler has_deny ?route u = Handled h \<longleftrightarrow> is_ok (?route u)" for u
    by (auto simp: route_handler_def refuse_route_def guard_def is_ok_def)
  show ?thesis
  proof (cases r)
    case (Inl e)
    with h show ?thesis by (simp add: serve_guarded_def authenticate_def)
  next
    case (Inr u)
    then obtain cl where cl: "p = Inr cl" "u = toUserClaims cl" using handle_user [of lib g ts rq u g2] h assms(6) by auto
    with h Inr handled passes [OF cl(1)] show ?thesis by (simp add: serve_guarded_def authenticate_def)
  qed
qed

section \<open>A route to try\<close>

definition demo_has_level :: "(string, string list) gomap option \<Rightarrow> caller_scopes" where
  "demo_has_level u grp l = (case u of None \<Rightarrow> False | Some m \<Rightarrow> List.member (scope_claim m) (grp @ '':'' @ l))"

lemma demo_has_level_ok: "scope_contract demo_has_level"
  by (simp add: scope_contract_def demo_has_level_def)

theorem guarded_route_reached_witness:
  "\<exists>s. newSet ''projects'' ''Projects'' [[demo_permission]] = Inr s \<and>
     fst (serve_guarded (demo_lib 0) demo_has_level True (fst (guard (newRouteGate s) (levels ''projects'' []) [perm_of s (''task/attachment'', ''delete'')] True ''h''))
       (demo_gate newMemory) (all_at 0) demo_request) = Inr (Handled ''h'')"
proof -
  obtain s where s: "newSet ''projects'' ''Projects'' [[demo_permission]] = Inr s" using demo_set by blast
  have "is_ok (declared s ''task/attachment'' ''delete'')"
    using set_is_exact_declared [OF s] by (simp add: demo_permission_def)
  then have d: "declared_all s [(''task/attachment'', ''delete'')] = Inr [perm_of s (''task/attachment'', ''delete'')]"
    by (auto simp: declared_def perm_of_def is_ok_def split: if_splits)
  have p: "parseToken (demo_lib 0) (demo_gate newMemory) (all_at 0) (bearerToken (rq_header demo_request ''Authorization'')) = (Inr demo_user, demo_gate newMemory)"
    unfolding demo_token by (rule demo_parseToken) (simp add: minute_def second_def)
  have w: "0 \<le> 10 * minute" "\<not> refuses newMemory demo_jti 0" by (simp_all add: minute_def second_def refuses_def newMemory_def)
  have h: "fst (handle (demo_lib 0) (demo_gate newMemory) (all_at 0) demo_request) = Inr (toUserClaims demo_user)"
    using w by (simp add: demo_handle checkAndSet_unfold) (simp add: second_def)
  have c: "CHR '','' \<notin> set (Scope demo_user)" "scopes demo_user = [''projects/task/attachment:delete'']"
    by (simp_all add: demo_user_def eval_simps)
  have "fst (serve_guarded (demo_lib 0) demo_has_level True (fst (guard (newRouteGate s) (levels ''projects'' []) [perm_of s (''task/attachment'', ''delete'')] True ''h''))
       (demo_gate newMemory) (all_at 0) demo_request) = Inr (Handled ''h'')"
    using guarded_route_reached [OF demo_has_level_ok s d _ _ p, of "''projects''" "[]" True "newRouteGate s" True "''h''"] h c by simp
  with s show ?thesis by blast
qed

end
