(* ===== verification/Permission_Heap.thy ===== *)
theory Permission_Heap
  imports Permission_Set
begin

text \<open>
  The set of permissions with its memory (\<open>src/permissions/permissions.go\<close>). A permission's seeds
  are a slice and its labels a map, both references, and callers go on holding the lists they
  built a set from and the permissions it answered. Every permission that goes in or comes out is
  cloned; here the heap is explicit, callers write what they can reach, and the set is shown to
  answer what the values it was built from say, whatever they do.
\<close>

section \<open>Permissions by reference\<close>

text \<open>Addresses below \<open>h_next\<close> are in use; slices and maps live at addresses of their own.\<close>

record heap =
  h_slices :: "nat \<Rightarrow> string list"
  h_maps :: "nat \<Rightarrow> (string, string) gomap"
  h_next :: nat

record boxed =
  bx_Feature :: string
  bx_Act :: string
  bx_Description :: string
  bx_Class :: string
  bx_Plane :: string
  bx_Labels :: "nat option"
  bx_Retired :: bool
  bx_Seeds :: "nat option"

definition slice_at :: "heap \<Rightarrow> nat option \<Rightarrow> string list" where
  "slice_at H r = (case r of None \<Rightarrow> [] | Some a \<Rightarrow> h_slices H a)"

definition map_at :: "heap \<Rightarrow> nat option \<Rightarrow> (string, string) gomap" where
  "map_at H r = (case r of None \<Rightarrow> [] | Some a \<Rightarrow> h_maps H a)"

text \<open>The permission a reader of the heap sees.\<close>

definition unbox :: "heap \<Rightarrow> boxed \<Rightarrow> permission" where
  "unbox H b = \<lparr>p_Feature = bx_Feature b, p_Act = bx_Act b, p_Description = bx_Description b, p_Class = bx_Class b, p_Plane = bx_Plane b,
     p_Labels = map_at H (bx_Labels b), p_Retired = bx_Retired b, p_Seeds = slice_at H (bx_Seeds b)\<rparr>"

definition new_slice :: "string list \<Rightarrow> heap \<Rightarrow> nat \<times> heap" where
  "new_slice xs H = (h_next H, H\<lparr>h_slices := (h_slices H)(h_next H := xs), h_next := Suc (h_next H)\<rparr>)"

definition new_map :: "(string, string) gomap \<Rightarrow> heap \<Rightarrow> nat \<times> heap" where
  "new_map m H = (h_next H, H\<lparr>h_maps := (h_maps H)(h_next H := m), h_next := Suc (h_next H)\<rparr>)"

text \<open>\<open>clone\<close>: no seeds are the nil slice; labels are copied unless nil.\<close>

definition clone_seeds :: "boxed \<Rightarrow> heap \<Rightarrow> boxed \<times> heap" where
  "clone_seeds b H = (if slice_at H (bx_Seeds b) = [] then (b\<lparr>bx_Seeds := None\<rparr>, H)
     else case new_slice (slice_at H (bx_Seeds b)) H of (a, H1) \<Rightarrow> (b\<lparr>bx_Seeds := Some a\<rparr>, H1))"

definition clone_labels :: "boxed \<Rightarrow> heap \<Rightarrow> boxed \<times> heap" where
  "clone_labels b H = (if bx_Labels b = None then (b, H)
     else case new_map (map_at H (bx_Labels b)) H of (a, H1) \<Rightarrow> (b\<lparr>bx_Labels := Some a\<rparr>, H1))"

definition clone :: "boxed \<Rightarrow> heap \<Rightarrow> boxed \<times> heap" where
  "clone b H = (case clone_seeds b H of (b1, H1) \<Rightarrow> clone_labels b1 H1)"

fun clone_all :: "boxed list \<Rightarrow> heap \<Rightarrow> boxed list \<times> heap" where
  "clone_all [] H = ([], H)"
| "clone_all (b # bs) H = (case clone b H of (c, H1) \<Rightarrow> case clone_all bs H1 of (cs, H2) \<Rightarrow> (c # cs, H2))"

section \<open>The set over the heap\<close>

record boxed_set =
  bs_service :: string
  bs_displayName :: string
  bs_list :: "boxed list"
  bs_index :: "(string, nat) gomap"

definition heap_add :: "perm_error list \<times> boxed_set \<times> heap \<Rightarrow> boxed \<Rightarrow> perm_error list \<times> boxed_set \<times> heap" where
  "heap_add st b =
     (case st of (errs, s, H) \<Rightarrow>
      case check (bs_service s) (unbox H b) of
        Some e \<Rightarrow> (errs @ [e], s, H)
      | None \<Rightarrow>
          if mget (bs_index s) (perm_key (bx_Feature b) (bx_Act b)) \<noteq> None
          then (errs @ [DeclaredTwice (perm_name (unbox H b) (bs_service s))], s, H)
          else (case clone b H of (c, H1) \<Rightarrow>
            (errs, s\<lparr>bs_index := mput (bs_index s) (perm_key (bx_Feature b) (bx_Act b)) (length (bs_list s)), bs_list := bs_list s @ [c]\<rparr>, H1)))"

definition heap_new :: "string \<Rightarrow> string \<Rightarrow> boxed list list \<Rightarrow> heap \<Rightarrow> (perm_error list, boxed_set) result \<times> heap" where
  "heap_new service displayName ls H =
     (if length service > maxService \<or> \<not> serviceShape service then (Inl [ServiceKey], H)
      else if trim_space displayName = '''' then (Inl [NoDisplayName], H)
      else case foldl (foldl heap_add)
             ([], \<lparr>bs_service = service, bs_displayName = displayName, bs_list = [], bs_index = []\<rparr>, H) ls of
        (errs, s, H1) \<Rightarrow> (if errs \<noteq> [] then Inl errs else Inr s, H1))"

definition heap_list :: "boxed_set \<Rightarrow> heap \<Rightarrow> boxed list \<times> heap" where
  "heap_list s H = clone_all (bs_list s) H"

definition heap_lookup :: "boxed_set \<Rightarrow> string \<Rightarrow> string \<Rightarrow> heap \<Rightarrow> boxed option \<times> heap" where
  "heap_lookup s feature act H = (case mget (bs_index s) (perm_key feature act) of
     None \<Rightarrow> (None, H)
   | Some i \<Rightarrow> (case clone (bs_list s ! i) H of (c, H1) \<Rightarrow> (Some c, H1)))"

section \<open>Callers\<close>

definition refs_of :: "boxed \<Rightarrow> nat set" where
  "refs_of b = set_option (bx_Seeds b) \<union> set_option (bx_Labels b)"

definition refs_all :: "boxed list \<Rightarrow> nat set" where
  "refs_all bs = \<Union> (refs_of ` set bs)"

text \<open>
  What callers of a set do, with the addresses they can reach: write anything to one of them,
  make slices and maps of their own, and ask the set, whose answer they can then reach.
\<close>

inductive caller_step :: "boxed_set \<Rightarrow> heap \<times> nat set \<Rightarrow> heap \<times> nat set \<Rightarrow> bool" for s where
  Write_Slice: "a \<in> R \<Longrightarrow> caller_step s (H, R) (H\<lparr>h_slices := (h_slices H)(a := xs)\<rparr>, R)"
| Write_Map: "a \<in> R \<Longrightarrow> caller_step s (H, R) (H\<lparr>h_maps := (h_maps H)(a := m)\<rparr>, R)"
| Make_Slice: "new_slice xs H = (a, H') \<Longrightarrow> caller_step s (H, R) (H', insert a R)"
| Make_Map: "new_map m H = (a, H') \<Longrightarrow> caller_step s (H, R) (H', insert a R)"
| Ask_List: "heap_list s H = (bs, H') \<Longrightarrow> caller_step s (H, R) (H', R \<union> refs_all bs)"
| Ask_Lookup: "heap_lookup s feature act H = (b, H') \<Longrightarrow> caller_step s (H, R) (H', R \<union> \<Union> (refs_of ` set_option b))"

section \<open>A clone is a copy of its own\<close>

definition grown :: "heap \<Rightarrow> heap \<Rightarrow> bool" where
  "grown H H' \<longleftrightarrow> h_next H \<le> h_next H' \<and> (\<forall>a < h_next H. h_slices H' a = h_slices H a \<and> h_maps H' a = h_maps H a)"

lemma grown_refl [simp]: "grown H H"
  by (simp add: grown_def)

lemma grown_trans: "grown H H1 \<Longrightarrow> grown H1 H2 \<Longrightarrow> grown H H2"
  by (auto simp: grown_def)

lemma grown_next: "grown H H' \<Longrightarrow> h_next H \<le> h_next H'"
  by (simp add: grown_def)

lemma grown_new: "new_slice xs H = (a, H') \<Longrightarrow> grown H H' \<and> a = h_next H \<and> h_next H' = Suc a"
  "new_map m H = (a, H') \<Longrightarrow> grown H H' \<and> a = h_next H \<and> h_next H' = Suc a"
  by (auto simp: new_slice_def new_map_def grown_def)

definition within :: "nat \<Rightarrow> heap \<Rightarrow> boxed \<Rightarrow> bool" where
  "within n H b \<longleftrightarrow> refs_of b \<subseteq> {n..<h_next H}"

lemma within_mono: "within n H b \<Longrightarrow> m \<le> n \<Longrightarrow> h_next H \<le> h_next H' \<Longrightarrow> within m H' b"
  unfolding within_def by force

lemma within_all_mono: "list_all (within n H) bs \<Longrightarrow> m \<le> n \<Longrightarrow> h_next H \<le> h_next H' \<Longrightarrow> list_all (within m H') bs"
  by (auto simp: list_all_iff intro: within_mono)

definition inside :: "heap \<Rightarrow> boxed list \<Rightarrow> bool" where
  "inside H bs \<longleftrightarrow> list_all (within 0 H) bs"

lemma inside_Cons [simp]: "inside H (b # bs) \<longleftrightarrow> within 0 H b \<and> inside H bs"
  by (simp add: inside_def)

lemma inside_grown: "inside H bs \<Longrightarrow> grown H H' \<Longrightarrow> inside H' bs"
  unfolding inside_def by (erule within_all_mono) (simp_all add: grown_next)

lemma unbox_grown: "within 0 H b \<Longrightarrow> grown H H' \<Longrightarrow> unbox H' b = unbox H b"
  by (auto simp: unbox_def within_def refs_of_def grown_def map_at_def slice_at_def split: option.splits)

lemma map_unbox_grown: "inside H bs \<Longrightarrow> grown H H' \<Longrightarrow> map (unbox H') bs = map (unbox H) bs"
  by (induction bs) (simp_all add: unbox_grown)

lemma clone_copies:
  assumes "clone b H = (c, H')"
  shows "grown H H'" and "unbox H' c = unbox H b" and "within (h_next H) H' c"
proof -
  obtain b1 H1 where s: "clone_seeds b H = (b1, H1)" by (metis prod.exhaust)
  have l: "clone_labels b1 H1 = (c, H')" using assms s by (simp add: clone_def)
  have 1: "grown H H1 \<and> unbox H1 b1 = unbox H b \<and> set_option (bx_Seeds b1) \<subseteq> {h_next H..<h_next H1} \<and> bx_Labels b1 = bx_Labels b"
    using s by (auto simp: clone_seeds_def new_slice_def grown_def unbox_def slice_at_def map_at_def split: if_splits option.splits)
  have 2: "grown H1 H' \<and> unbox H' c = unbox H1 b1 \<and> bx_Seeds c = bx_Seeds b1 \<and> set_option (bx_Labels c) \<subseteq> {h_next H1..<h_next H'}"
    using l by (auto simp: clone_labels_def new_map_def grown_def unbox_def slice_at_def map_at_def split: if_splits option.splits)
  show "grown H H'" using 1 2 grown_trans by blast
  show "unbox H' c = unbox H b" using 1 2 by simp
  have "h_next H \<le> h_next H1" "h_next H1 \<le> h_next H'" using 1 2 grown_next by blast+
  then show "within (h_next H) H' c" using 1 2 unfolding within_def refs_of_def by auto
qed

lemma clone_inside: "clone b H = (c, H') \<Longrightarrow> within 0 H' c"
  using clone_copies(3) within_mono by blast

lemma clone_all_copies:
  assumes "clone_all bs H = (cs, H')" "inside H bs"
  shows "grown H H' \<and> map (unbox H') cs = map (unbox H) bs \<and> list_all (within (h_next H) H') cs"
  using assms
proof (induction bs arbitrary: H cs)
  case (Cons b bs)
  obtain c H1 ds where c: "clone b H = (c, H1)" "clone_all bs H1 = (ds, H')" "cs = c # ds"
    using Cons.prems(1) by (auto split: prod.splits)
  note k = clone_copies [OF c(1)]
  have ih: "grown H1 H' \<and> map (unbox H') ds = map (unbox H1) bs \<and> list_all (within (h_next H1) H') ds"
    using Cons.IH [OF c(2)] Cons.prems(2) inside_grown [OF _ k(1)] by simp
  have "unbox H' c = unbox H b" using unbox_grown [OF clone_inside [OF c(1)]] ih k(2) by simp
  moreover have "map (unbox H1) bs = map (unbox H) bs" using map_unbox_grown [of H bs H1] k(1) Cons.prems(2) unfolding inside_Cons by blast
  moreover have "list_all (within (h_next H) H') cs"
    using within_mono [OF k(3)] within_all_mono [of "h_next H1" H' ds] ih grown_next [OF k(1)] grown_next [of H1 H'] by (simp add: c(3))
  ultimately show ?case using ih grown_trans [OF k(1)] c(3) by simp
qed simp

section \<open>The heap set is the set of values\<close>

definition set_at :: "heap \<Rightarrow> boxed_set \<Rightarrow> perm_set" where
  "set_at H s = \<lparr>ps_service = bs_service s, ps_displayName = bs_displayName s, ps_list = map (unbox H) (bs_list s), ps_index = bs_index s\<rparr>"

definition owns_from :: "nat \<Rightarrow> heap \<Rightarrow> boxed_set \<Rightarrow> bool" where
  "owns_from n H s \<longleftrightarrow> list_all (within n H) (bs_list s)"

lemma owns_inside: "owns_from n H s \<Longrightarrow> inside H (bs_list s)"
  unfolding owns_from_def inside_def by (erule within_all_mono) simp_all

lemma heap_add_refines:
  assumes "heap_add (errs, s, H) b = (errs', s', H')" "owns_from n H s" "n \<le> h_next H"
  shows "add_permission (errs, set_at H s) (unbox H b) = (errs', set_at H' s') \<and> grown H H' \<and> owns_from n H' s'"
proof (cases "check (bs_service s) (unbox H b) = None \<and> mget (bs_index s) (perm_key (bx_Feature b) (bx_Act b)) = None")
  case True
  obtain c H1 where c: "clone b H = (c, H1)" by (metis prod.exhaust)
  note k = clone_copies [OF c]
  have eq: "errs' = errs" "H' = H1"
      "s' = s\<lparr>bs_index := mput (bs_index s) (perm_key (bx_Feature b) (bx_Act b)) (length (bs_list s)), bs_list := bs_list s @ [c]\<rparr>"
    using assms(1) True c by (simp_all add: heap_add_def)
  have "map (unbox H1) (bs_list s) = map (unbox H) (bs_list s)" by (rule map_unbox_grown [OF owns_inside [OF assms(2)] k(1)])
  moreover have "owns_from n H1 s'"
    using within_all_mono [of n H "bs_list s" n H1] within_mono [OF k(3) assms(3)] assms(2) grown_next [OF k(1)] by (simp add: owns_from_def eq(3))
  ultimately show ?thesis
    using True k(1,2) by (simp add: add_permission_def set_at_def eq) (simp add: unbox_def)
next
  case False
  with assms show ?thesis
    by (auto simp: heap_add_def add_permission_def set_at_def unbox_def split: option.splits if_splits prod.splits)
qed

lemma heap_add_all_refines:
  assumes "foldl heap_add (errs, s, H) bs = (errs', s', H')" "owns_from n H s" "n \<le> h_next H" "inside H bs"
  shows "foldl add_permission (errs, set_at H s) (map (unbox H) bs) = (errs', set_at H' s') \<and> grown H H' \<and> owns_from n H' s'"
  using assms
proof (induction bs arbitrary: errs s H)
  case (Cons b bs)
  obtain e1 s1 H1 where a: "heap_add (errs, s, H) b = (e1, s1, H1)" by (metis prod.exhaust)
  note k = heap_add_refines [OF a Cons.prems(2,3)]
  have i: "inside H bs" using Cons.prems(4) by simp
  have "foldl add_permission (e1, set_at H1 s1) (map (unbox H1) bs) = (errs', set_at H' s') \<and> grown H1 H' \<and> owns_from n H' s'"
    using Cons.IH [of e1 s1 H1] Cons.prems(1,3) a k inside_grown [OF i] grown_next [of H H1] by simp
  moreover have "map (unbox H1) bs = map (unbox H) bs" using map_unbox_grown [OF i] k by blast
  ultimately show ?case using k grown_trans [of H H1 H'] by (simp del: map_eq_conv)
qed simp

lemma heap_new_refines:
  assumes "heap_new service displayName ls H = (r, H')" "inside H (concat ls)"
  shows "newSet service displayName (map (map (unbox H)) ls) = map_sum id (set_at H') r \<and> grown H H' \<and> (\<forall>s. r = Inr s \<longrightarrow> owns_from (h_next H) H' s)"
proof -
  let ?s0 = "\<lparr>bs_service = service, bs_displayName = displayName, bs_list = [], bs_index = []\<rparr>"
  obtain errs s H1 where f: "foldl heap_add ([], ?s0, H) (concat ls) = (errs, s, H1)" by (metis prod.exhaust)
  have "owns_from (h_next H) H ?s0" by (simp add: owns_from_def)
  from heap_add_all_refines [OF f this _ assms(2)]
  have "foldl add_permission ([], \<lparr>ps_service = service, ps_displayName = displayName, ps_list = [], ps_index = []\<rparr>)
      (concat (map (map (unbox H)) ls)) = (errs, set_at H1 s)" "grown H H1" "owns_from (h_next H) H1 s"
    by (simp_all add: set_at_def map_concat)
  with assms(1) f show ?thesis
    by (auto simp: heap_new_def newSet_def foldl_foldl split: if_splits)
qed

section \<open>Callers reach nothing of the set\<close>

definition apart :: "boxed_set \<Rightarrow> perm_set \<Rightarrow> heap \<times> nat set \<Rightarrow> bool" where
  "apart s a st = (case st of (H, R) \<Rightarrow> set_at H s = a \<and> inside H (bs_list s) \<and> R \<subseteq> {..<h_next H} \<and> R \<inter> refs_all (bs_list s) = {})"

lemma set_at_grown: "inside H (bs_list s) \<Longrightarrow> grown H H' \<Longrightarrow> set_at H' s = set_at H s"
  using map_unbox_grown [of H "bs_list s" H'] unfolding set_at_def by metis

lemma unbox_write:
  assumes "a \<notin> refs_of b"
  shows "unbox (H\<lparr>h_slices := (h_slices H)(a := xs)\<rparr>) b = unbox H b" "unbox (H\<lparr>h_maps := (h_maps H)(a := m)\<rparr>) b = unbox H b"
  using assms by (auto simp: unbox_def refs_of_def slice_at_def map_at_def split: option.splits)

lemma apart_grown:
  assumes "apart s a (H, R)" "grown H H'" "N \<subseteq> {h_next H..<h_next H'}"
  shows "apart s a (H', R \<union> N)"
proof -
  have a: "set_at H s = a" "inside H (bs_list s)" "R \<subseteq> {..<h_next H}" "R \<inter> refs_all (bs_list s) = {}" using assms(1) by (simp_all add: apart_def)
  have "refs_all (bs_list s) \<subseteq> {..<h_next H}" using a(2) unfolding inside_def refs_all_def list_all_iff within_def by force
  then have "N \<inter> refs_all (bs_list s) = {}" using assms(3) by fastforce
  moreover have "R \<union> N \<subseteq> {..<h_next H'}" using a(3) assms(3) grown_next [OF assms(2)] by fastforce
  ultimately show ?thesis
    using a set_at_grown [OF a(2) assms(2)] inside_grown [OF a(2) assms(2)] by (auto simp: apart_def)
qed

lemma apart_step: "caller_step s st st' \<Longrightarrow> apart s a st \<Longrightarrow> apart s a st'"
proof (induction rule: caller_step.induct)
  case (Write_Slice a' R H xs)
  then have "a' \<notin> refs_of b" if "b \<in> set (bs_list s)" for b using that by (auto simp: apart_def refs_all_def)
  with Write_Slice.prems show ?case by (simp add: apart_def set_at_def inside_def unbox_write(1) list_all_iff within_def cong: map_cong)
next
  case (Write_Map a' R H m)
  then have "a' \<notin> refs_of b" if "b \<in> set (bs_list s)" for b using that by (auto simp: apart_def refs_all_def)
  with Write_Map.prems show ?case by (simp add: apart_def set_at_def inside_def unbox_write(2) list_all_iff within_def cong: map_cong)
next
  case (Make_Slice xs H a' H' R)
  with apart_grown [of s a H R H' "{a'}"] grown_new(1) show ?case by fastforce
next
  case (Make_Map m H a' H' R)
  with apart_grown [of s a H R H' "{a'}"] grown_new(2) show ?case by fastforce
next
  case (Ask_List H bs H' R)
  then have "inside H (bs_list s)" by (simp add: apart_def)
  note k = clone_all_copies [OF Ask_List.hyps [unfolded heap_list_def] this]
  have "refs_all bs \<subseteq> {h_next H..<h_next H'}" using k unfolding refs_all_def list_all_iff within_def by auto
  with k Ask_List.prems show ?case by (blast intro: apart_grown)
next
  case (Ask_Lookup feature act H b H' R)
  then have "grown H H' \<and> \<Union> (refs_of ` set_option b) \<subseteq> {h_next H..<h_next H'}"
  proof (cases "mget (bs_index s) (perm_key feature act)")
    case (Some i)
    then obtain c where "clone (bs_list s ! i) H = (c, H')" "b = Some c"
      using Ask_Lookup.hyps by (auto simp: heap_lookup_def split: prod.splits)
    with clone_copies [of "bs_list s ! i" H c H'] show ?thesis by (simp add: within_def)
  qed (simp add: heap_lookup_def)
  with Ask_Lookup.prems show ?case by (blast intro: apart_grown)
qed

text \<open>
  C29: a set built from lists in memory answers, whatever its callers have written since to the
  lists it was built from, to the permissions it answered before or to anything else they can
  reach, exactly what the set of the values the lists held when it was built answers.
\<close>

theorem set_answers_by_value:
  assumes "heap_new service displayName ls H0 = (Inr s, H1)" and "inside H0 (concat ls)" and "R0 \<subseteq> {..<h_next H0}"
    and "(caller_step s)\<^sup>*\<^sup>* (H1, R0) (H, R)"
    and "heap_list s H = (bs, H2)" and "heap_lookup s feature act H = (b, H3)"
  shows "\<exists>a. newSet service displayName (map (map (unbox H0)) ls) = Inr a
    \<and> map (unbox H2) bs = list_perms a \<and> map_option (unbox H3) b = lookup_perm a feature act"
proof -
  let ?a = "set_at H1 s"
  have new: "newSet service displayName (map (map (unbox H0)) ls) = Inr ?a" "grown H0 H1" "owns_from (h_next H0) H1 s"
    using heap_new_refines [OF assms(1,2)] by simp_all
  have "apart s ?a (H1, R0)"
    using new(3) owns_inside [OF new(3)] assms(3) grown_next [OF new(2)]
    unfolding apart_def prod.case owns_from_def refs_all_def list_all_iff within_def by fastforce
  with assms(4) have "apart s ?a (H, R)"
    by (induction rule: rtranclp_induct) (auto intro: apart_step)
  then have a: "set_at H s = ?a" "inside H (bs_list s)" by (simp_all add: apart_def)
  have "map (unbox H2) bs = list_perms ?a"
    using clone_all_copies [OF assms(5) [unfolded heap_list_def] a(2)] by (simp add: a(1) [symmetric] list_perms_def) (simp add: set_at_def)
  moreover have "map_option (unbox H3) b = lookup_perm ?a feature act"
  proof (cases "mget (bs_index s) (perm_key feature act)")
    case None
    with assms(6) show ?thesis by (simp add: heap_lookup_def lookup_perm_def set_at_def)
  next
    case (Some i)
    then have "i < length (bs_list s)"
      using newSet_built [OF new(1)] index_ok_Some [of ?a "perm_key feature act" i] by (metis length_map set_at_def perm_set.select_convs(3,4))
    moreover obtain c where "b = Some c" "clone (bs_list s ! i) H = (c, H3)"
      using assms(6) Some by (auto simp: heap_lookup_def split: prod.splits)
    ultimately show ?thesis
      using clone_copies(2) Some unfolding a(1) [symmetric] by (simp add: lookup_perm_def set_at_def)
  qed
  ultimately show ?thesis using new(1) by blast
qed

section \<open>A caller that writes\<close>

definition demo_heap :: heap where
  "demo_heap = \<lparr>h_slices = (\<lambda>_. [''manager'']), h_maps = (\<lambda>_. []), h_next = 1\<rparr>"

definition demo_boxed :: boxed where
  "demo_boxed = \<lparr>bx_Feature = ''task/attachment'', bx_Act = ''delete'', bx_Description = ''Remove any file.'', bx_Class = ordinary,
     bx_Plane = objectPlane, bx_Labels = None, bx_Retired = False, bx_Seeds = Some 0\<rparr>"

lemma demo_unboxed: "unbox demo_heap demo_boxed = demo_permission"
  by (simp add: unbox_def demo_heap_def demo_boxed_def demo_permission_def slice_at_def map_at_def)

theorem set_answers_by_value_witness:
  "\<exists>s H1 bs H2. heap_new ''projects'' ''Projects'' [[demo_boxed]] demo_heap = (Inr s, H1)
     \<and> heap_list s (H1\<lparr>h_slices := (h_slices H1)(0 := [''anybody''])\<rparr>) = (bs, H2) \<and> map (unbox H2) bs = [demo_permission]"
proof -
  have i: "inside demo_heap (concat [[demo_boxed]])" by (simp add: inside_def within_def refs_of_def demo_boxed_def demo_heap_def)
  obtain r H1 where r: "heap_new ''projects'' ''Projects'' [[demo_boxed]] demo_heap = (r, H1)" by (metis prod.exhaust)
  then obtain s where s: "r = Inr s" using heap_new_refines [OF r i] demo_set by (cases r) (simp_all add: demo_unboxed)
  let ?H = "H1\<lparr>h_slices := (h_slices H1)(0 := [''anybody''])\<rparr>"
  have c: "(caller_step s)\<^sup>*\<^sup>* (H1, {0}) (?H, {0})" by (rule r_into_rtranclp) (rule Write_Slice, simp)
  obtain bs H2 where l: "heap_list s ?H = (bs, H2)" by (metis prod.exhaust)
  obtain b H3 where k: "heap_lookup s ''x'' ''y'' ?H = (b, H3)" by (metis prod.exhaust)
  have "{0} \<subseteq> {..<h_next demo_heap}" by (simp add: demo_heap_def)
  from set_answers_by_value [OF r [unfolded s] i this c l k] have "map (unbox H2) bs = [demo_permission]"
    using demo_set by (auto simp: demo_unboxed list_perms_def)
  with r [unfolded s] l show ?thesis by (intro exI conjI)
qed

end
