(* ===== verification/Spec2Isabelle.thy ===== *)
theory Spec2Isabelle
  imports Identity_Code Key_Verifier Client_Config Service_Call Sign_In Route_Gate Membership_Register Token_Flight Gate_Fleet Guarded_Route Permission_Heap Permission_Section Json_Decode
begin

text \<open>
  A verification development of \<open>go-authbyte\<close>, the library with which services authenticate
  each other and their users: access tokens bound to a key by DPoP proofs, API keys, sign-in,
  permissions, and local copies of a membership register. All paths below are under \<open>src/\<close>.

  \<^bold>\<open>The program and its model.\<close> Each package is one or more theories; each struct is a record,
  each function or method one definition of the same name where HOL allows it, each error a
  value of a sum. A part of a function that is worth its own statement (a loop, a key, a header)
  is a definition of its own, which the function's definition calls.

  \<^item> \<open>Go_Prelude\<close>, \<open>Go_Strings\<close>, \<open>Encodings\<close>, \<open>Url_Encoding\<close>: what the sources use of Go and its
    standard library. Strings and byte slices are lists of bytes; 64-bit integers are \<open>int\<close> with
    \<open>wrap64\<close> written where they wrap; times are nanoseconds, with the saturating \<open>Sub\<close>; maps are
    association lists (\<open>gomap\<close>); UTF-8, trimming, splitting, base64, base32, decimal and
    percent-encoding are functions. Encodings are instances of the locales \<open>codec\<close> and
    \<open>canonical_codec\<close>, which carry their round trips.
  \<^item> \<open>Go_Json\<close>: \<open>encoding/json\<close> as far as the library writes with it: \<open>Marshal\<close> and
    \<open>MarshalIndent\<close> with the escapes of strings, and a reader that splits a text into tokens and
    runs them through the stack of open arrays and objects. What is written reads back, with
    bytes that are not UTF-8 replaced; on UTF-8 both writers are instances of \<open>codec\<close>.
    \<open>Json_Decode\<close> is \<open>Unmarshal\<close>: decoders for the types of the fields, composed to one for each
    struct the library reads, with names that differ in case and names given twice.
  \<^item> \<open>Identity_Code\<close> (\<open>identitycode/identitycode.go\<close>): personal codes. The values \<open>Canonical\<close>
    answers are those \<open>Parse\<close> accepts, whatever spelling comes in; \<open>Display\<close> and \<open>Key\<close> agree.
  \<^item> \<open>Rate_Limit\<close> (\<open>apikeys/limit.go\<close>): the attempt limiter. In any stretch of time an allowance
    lets through no more than its rate and burst; while the callers whose allowance is not
    whole fit the table it answers, sweeping, as a reference limiter that forgets nobody.
  \<^item> \<open>Api_Key\<close> (\<open>apikeys/apikeys.go\<close>, \<open>secret.go\<close>, \<open>presented.go\<close>): schemes, keys and stored
    strings; a stored string has one spelling, and what is minted is read back.
  \<^item> \<open>Key_Verifier\<close> (\<open>apikeys/verify.go\<close>): checks of presented keys, split at the points where
    the code waits, so that they interleave (\<open>flight_step\<close>): derives in flight stay within the
    cap, only a known key with the right secret passes, a refusal costs one derive. It relies on
    the limiter through the locale \<open>attempt_limiter\<close> and on its cache through \<open>success_memo\<close>.
  \<^item> \<open>Replay_Store\<close> (\<open>replay/replay.go\<close>): identifiers seen once within their lifetime. The
    interface \<open>Store\<close> is the locale \<open>once_store\<close>; \<open>replay_store\<close> is a store that is exact and gives
    it (a sublocale), interpreted on the memory store; \<open>punctual_store\<close> extends it with a store that
    answers and forgets on time. The Redis store and the choice between the two keep each contract
    when the server does.
  \<^item> \<open>Nonce_Issuer\<close> (\<open>nonce/nonce.go\<close>), \<open>Jwks_Cache\<close> (\<open>jwks/jwks.go\<close>), \<open>Claim_Model\<close>
    (\<open>claims/claims.go\<close>), \<open>Dpop_Proof\<close> (\<open>dpop/dpop.go\<close>): when a nonce is accepted; that fetches
    of the issuer's keys are spaced under every interleaving of requests (\<open>jwks_step\<close>); what a
    token's claims give the user; what an accepted proof proves, and that a generated one is
    accepted exactly within its window.
  \<^item> \<open>Auth_Gate\<close> (\<open>authclient/client.go\<close>, \<open>middleware.go\<close>, \<open>errors.go\<close>) and \<open>Client_Config\<close>
    (\<open>authclient/config.go\<close>): the inbound side. Only a verified token with a verified, new proof
    by its key comes through, under a key of the cached set or of this request's own fetch; what a
    refused caller is told, one of four answers, is characterised exactly; a configuration that
    validates makes a client.
  \<^item> \<open>Gate_Fleet\<close>: the gates of a service's instances, each with memory of its own or on one Redis
    server (\<open>fleet_run\<close>; \<open>one_store\<close> says when two requests ask the same store). Proved in the locale
    \<open>fleet_stores\<close>: through any run of requests a proof is let through once by the instances that
    ask one store, as long as its record is kept; and when exactly one that comes back after that is let through
    again, which a proof stamped ahead of the clock is.
  \<^item> \<open>Http_Calls\<close>: headers, requests and answers of \<open>net/http\<close>, and the contract of a sender that
    retries once for a nonce, the locale \<open>nonce_retry\<close>, interpreted on the library's four.
  \<^item> \<open>Outbound\<close> (\<open>authclient/outbound.go\<close>, \<open>background.go\<close>, \<open>keyexchange.go\<close>): the token cache,
    the token endpoint and calls with a token; a call retries at most once. \<open>Token_Flight\<close> takes an
    acquisition apart where the client's lock is free (\<open>acquire_step\<close>; left alone the parts are
    the acquisition) and interleaves any number of them (\<open>fly\<close>): a call gets only a token issued
    for its own audience, scope, tenant and subject, and none past its subject token. This holds
    when no audience, scope or tenant has a bar in it, the character the cache's keys are joined with.
  \<^item> \<open>Service_Call\<close>: the two sides together. A call comes through the callee's gate, after one
    challenge when the caller remembers no usable nonce.
  \<^item> \<open>Sign_In\<close> (\<open>asclient/*.go\<close>): addresses for the browser, calls with a session's key, the checks
    of an ID token at the times the run reads, revocation of a refused sign-in, and the connected
    apps, whose names go into an address as one segment each.
  \<^item> \<open>Permission_Set\<close> and \<open>Route_Gate\<close> (\<open>permissions/permissions.go\<close>, \<open>gate.go\<close>,
    \<open>permissionstest/permissionstest.go\<close>): a set answers what its lists declare, a guarded route
    passes whom its level or permissions name, and the rules of the test kit complain of what
    they should; the search of one of them ends. \<open>Permission_Heap\<close> models the set again over a
    heap of slices and maps, with callers that write what they can reach (\<open>caller_step\<close>): thanks
    to the copies of \<open>clone\<close> it refines the set of values. \<open>Permission_Section\<close> is the document
    the set is registered with and the command that prints it (\<open>permissions/command.go\<close>): it
    reads back, and its bytes are the same exactly for the same declarations.
  \<^item> \<open>Guarded_Route\<close>: the middleware, the claims of the user and a route's guard together; which
    requests reach a handler.
  \<^item> \<open>Copy_Keeper\<close> (\<open>placement/placement.go\<close>, \<open>chart/chart.go\<close>): the keepers of the copies, once
    for both packages through the locale \<open>copy_keeper\<close>. Rounds and wakes interleave as events;
    an outage ends trust after the window, a good cycle restores it.
  \<^item> \<open>Membership_Register\<close> (\<open>placement/register.go\<close>, \<open>chart/register.go\<close>): the registers the
    keepers read, as instances of the locale \<open>copy_source\<close>; what is copied is well formed and
    stays so, a role that is answered is copied as it is, and a report reads back as the counts
    it was given. This theory holds the property of a register used through the auth client.

  \<^bold>\<open>Bounds and loops.\<close> No definition needs fuel. The loops of two attempts are recursions on the
  attempts left, called with 2; that both attempts suffice for an answer is part of the
  properties. Every other recursion has a termination proof on a string, a list or the declared
  permissions that remain.

  \<^bold>\<open>What is outside.\<close> Code that is not in the repository is an argument: the JWT and JWK
  libraries, SHA-256, HMAC and Argon2, reading JSON into a
  \<open>time.Time\<close> or a type the caller of a call chooses, \<open>net/url\<close>'s parser, Redis, HTTP transports, clocks
  and randomness. What is relied on is a named predicate, met by a concrete instance in the
  witnesses: \<open>jwt_contract\<close>, \<open>signer_contract\<close> and \<open>jwk_contract\<close> (a token is answered only when
  it verifies under the key function's key, and a signed one verifies), \<open>id_contract\<close> (the same for
  ID tokens, with the parser's options), \<open>cid_clear\<close> (the correlation header is none of the
  headers the client sets), \<open>server_contract\<close> (how the web framework shows a request and writes
  an answer), \<open>scope_contract\<close> (how its user answers for a scope), \<open>once_store\<close> of the Redis
  server's \<open>SETNX\<close> (a key is there until its time to live has passed) and, where a proof that comes
  back is let through, \<open>punctual_store\<close> (the server answers, and a key is gone after that time), \<open>copy_store\<close> (replacing a
  copy replaces that one), and the length of a MAC or a derived tag. Nothing is assumed about
  collisions; the cache key of a delegated token names the subject token's hash.

  \<^bold>\<open>Concurrency.\<close> A mutex is the atomicity of the step that holds it; where the code releases one
  and waits, the model has two steps, and the properties hold for every order of them. A request
  at the gate and a request to the token endpoint are one step: they share only the stores, whose
  operations hold the lock, and the world.

  \<^bold>\<open>Not modelled.\<close> How \<open>permissions/command.go\<close> registers its command with cobra; error
  messages and logging other than the reason a refusal logs; contexts and their deadlines,
  except as an end of a keeper's run and a timeout chosen for a call; tracing other than the
  correlation id; choosing an HTTP client; aliasing of slices and maps outside \<open>Permission_Heap\<close>,
  where they are values. The chain of tests under \<open>*_test.go\<close> is not
  part of the model.
\<close>

section \<open>The register read by the auth client\<close>

lemma tenant_call_requests:
  assumes "cache_ok env c" and "call_ok (ServiceCall audience scope tenant)"
    and "doServiceForTenant env audience scope tenant meth fullURL h body c w = ((q, rqs), c', w')"
  shows "list_all (\<lambda>rq. hq_url rq = fullURL \<and> (\<exists>tok. issued env (ob_tokenURL c) (service_form c audience scope tenant) tok \<and>
    header_get (hq_header rq) ''Authorization'' = ''DPoP '' @ tok)) rqs"
proof -
  obtain a c1 w1 where a: "acquire env (ServiceCall audience scope tenant) c w = (a, c1, w1)" by (metis prod.exhaust)
  show ?thesis
  proof (cases a)
    case (Inl e)
    with assms(3) a show ?thesis by (simp add: doServiceForTenant_def with_token_def)
  next
    case (Inr tok)
    obtain d where d: "same_call env d (ServiceCall audience scope tenant)" "issued env (ob_tokenURL c) (call_form c d) tok"
      using acquired_for_its_call [OF _ assms(1,2)] a Inr by blast
    then have i: "issued env (ob_tokenURL c) (service_form c audience scope tenant) tok" by (cases d) auto
    have "doBackgroundWith env (oe_do env) audience tok meth fullURL h body c1 w1 = ((q, rqs), c', w')"
      using assms(3) a Inr by (simp add: doServiceForTenant_def with_token_def doBackground_def)
    from background_chain [OF this] have "list_all (\<lambda>rq. \<exists>n. presents env (ascii_upper meth) fullURL tok body n rq) rqs"
      by (blast intro: nonce_chain_all)
    with i show ?thesis by (auto simp: presents_def list_all_iff)
  qed
qed

text \<open>The register's calls, each with what it sends and whether something new came back.\<close>

datatype register_use = ReadRoles string | ReadChart string | ReportCounts counts

fun use_register :: "'w doer \<Rightarrow> register \<Rightarrow> 'w \<Rightarrow> string \<Rightarrow> register_use \<Rightarrow> (register_error, bool) result \<times> 'w" where
  "use_register call r w tenant (ReadRoles v) = apfst (map_sum id (\<lambda>d. d \<noteq> None)) (register_definitions call r w tenant v)"
| "use_register call r w tenant (ReadChart v) = apfst (map_sum id (\<lambda>d. d \<noteq> None)) (register_chart call r w tenant v)"
| "use_register call r w tenant (ReportCounts cs) = apfst (map_sum id (\<lambda>_. True)) (report call r w tenant cs)"

fun use_scope :: "register_use \<Rightarrow> string" where
  "use_scope (ReadRoles _) = scopeDefinitions"
| "use_scope (ReadChart _) = scopeChart"
| "use_scope (ReportCounts _) = scopePlacements"

fun use_path :: "register_use \<Rightarrow> string" where
  "use_path (ReadRoles _) = ''role-definitions''"
| "use_path (ReadChart _) = ''chart''"
| "use_path (ReportCounts _) = ''role-placements''"

fun use_method :: "register_use \<Rightarrow> string" where
  "use_method (ReportCounts _) = ''PUT''"
| "use_method _ = ''GET''"

text \<open>New content is answered only to a 200, and that nothing changed only to a 304.\<close>

definition told :: "(register_error, bool) result \<Rightarrow> (outbound_error, http_response) result \<Rightarrow> bool" where
  "told a q \<longleftrightarrow> (\<forall>b. a = Inr b \<longrightarrow> (\<exists>res. q = Inr res \<and> hp_status res = (if b then 200 else 304)))"

lemma versioned_news:
  "apfst (map_sum id (\<lambda>d. d \<noteq> None)) (versioned read (q, w)) = (a, w') \<Longrightarrow>
     w' = w \<and> told a q"
  by (cases q) (auto simp: told_def versioned_def split: if_splits sum.splits)

lemma register_use_is_a_call:
  assumes "use_register (client_doer env) r (c, w) tenant u = (a, (c', w'))"
  shows "(\<exists>q rqs h body. doServiceForTenant env (rg_audience r) (use_scope u) tenant (use_method u) (tenantURL r tenant (use_path u)) h body c w = ((q, rqs), c', w')
      \<and> told a q)"
proof (cases u)
  case (ReadRoles v)
  obtain q rqs c1 w1 where d: "doServiceForTenant env (rg_audience r) scopeDefinitions tenant ''GET'' (tenantURL r tenant ''role-definitions'')
      (read_header v) None c w = ((q, rqs), c1, w1)" by (metis prod.exhaust)
  with ReadRoles assms versioned_news [of "read_definitions r" q "(c1, w1)" a "(c', w')"] show ?thesis
    by (auto simp: register_definitions_def client_doer_def)
next
  case (ReadChart v)
  obtain q rqs c1 w1 where d: "doServiceForTenant env (rg_audience r) scopeChart tenant ''GET'' (tenantURL r tenant ''chart'')
      (read_header v) None c w = ((q, rqs), c1, w1)" by (metis prod.exhaust)
  with ReadChart assms versioned_news [of read_chart q "(c1, w1)" a "(c', w')"] show ?thesis
    by (auto simp: register_chart_def client_doer_def)
next
  case (ReportCounts cs)
  let ?h = "[(''Accept'', ''application/json''), (''Content-Type'', ''application/json'')]"
  obtain q rqs c1 w1 where d: "doServiceForTenant env (rg_audience r) scopePlacements tenant ''PUT'' (tenantURL r tenant ''role-placements'')
      ?h (Some (marshal (counts_json cs))) c w = ((q, rqs), c1, w1)" by (metis prod.exhaust)
  with ReportCounts assms have "c1 = c' \<and> w1 = w' \<and> told a q"
    by (cases q) (auto simp: told_def report_def report_answer_def client_doer_def split: if_splits option.splits)
  with d ReportCounts show ?thesis by auto
qed

lemma tenantURL_segments:
  assumes "CHR ''/'' \<notin> set what"
  shows "split_on (CHR ''/'') (tenantURL r tenant what) = split_on (CHR ''/'') (rg_base r) @ [''api'', ''v1'', ''tenants'', path_escape tenant, what]"
  using split_on_sep [of "CHR ''/''" "rg_base r"] split_on_append [of "CHR ''/''" "path_escape tenant"] path_escape_no_sep [of tenant]
    assms
  by (simp add: tenantURL_def)

text \<open>
  C15: However acquisitions overlapped on the auth client before, starting from an empty cache and with no
  bar in the audience, scope or tenant of any of them, nor in the register's audience or the tenant: a
  read of a tenant's roles or chart and a report of its placements send only requests whose address
  has the tenant's name, percent-encoded, as one path segment before the resource asked for, from
  which the name is read back, and which carry a token the Auth Service issued for
  that tenant, the register's audience and the one scope of that resource; and new content is answered
  only to a 200, and that nothing changed only to a 304. The segment is empty or a dot segment only when the
  name is: such names are not refused here.
\<close>

theorem register_used_as_tenant:
  assumes "list_all event_ok evs" and "ob_tokens c0 = []" and "fly env evs (c0, [], w0) = (c, ts, w)"
    and "bar_free (rg_audience r)" and "bar_free tenant"
    and "use_register (client_doer env) r (c, w) tenant u = (a, (c', w'))"
  shows "(\<exists>q rqs h body. doServiceForTenant env (rg_audience r) (use_scope u) tenant (use_method u) (tenantURL r tenant (use_path u)) h body c w = ((q, rqs), c', w')
      \<and> list_all (\<lambda>rq. split_on (CHR ''/'') (hq_url rq) = split_on (CHR ''/'') (rg_base r) @ [''api'', ''v1'', ''tenants'', path_escape tenant, use_path u]
          \<and> (\<exists>tok. issued env (ob_tokenURL c) (service_form c (rg_audience r) (use_scope u) tenant) tok \<and>
               header_get (hq_header rq) ''Authorization'' = ''DPoP '' @ tok)) rqs
      \<and> told a q)
    \<and> unescape False (path_escape tenant) = Some tenant \<and> (path_escape tenant \<in> {'''', ''.'', ''..''} \<longrightarrow> tenant \<in> {'''', ''.'', ''..''})"
proof -
  have esc: "path_escape tenant \<in> {'''', ''.'', ''..''} \<longrightarrow> tenant \<in> {'''', ''.'', ''..''}" using path_unescape [of tenant] by auto
  have "cache_ok env c" using flown_ok [OF assms(1-3)] by (simp add: flying_ok_def)
  moreover have "call_ok (ServiceCall (rg_audience r) (use_scope u) tenant)"
    using assms(4,5) by (cases u) (simp_all add: bar_free_def scopeDefinitions_def scopeChart_def scopePlacements_def)
  moreover have "split_on (CHR ''/'') (tenantURL r tenant (use_path u)) =
      split_on (CHR ''/'') (rg_base r) @ [''api'', ''v1'', ''tenants'', path_escape tenant, use_path u]"
    by (cases u; simp add: tenantURL_segments)
  ultimately show ?thesis
    using register_use_is_a_call [OF assms(6)] tenant_call_requests [of env c "rg_audience r" "use_scope u" tenant] esc path_unescape [of tenant] unfolding list_all_iff by fastforce
qed

theorem register_used_as_tenant_witness:
  "\<exists>q rqs h body c' w'. doServiceForTenant demo_env ''reg'' scopeDefinitions ''t1'' ''GET'' (tenantURL demo_register ''t1'' ''role-definitions'')
        h body demo_client 0 = ((q, rqs), c', w')
     \<and> list_all (\<lambda>rq. \<exists>tok. issued demo_env (ob_tokenURL demo_client) (service_form demo_client ''reg'' scopeDefinitions ''t1'') tok \<and>
          header_get (hq_header rq) ''Authorization'' = ''DPoP '' @ tok) rqs
     \<and> (\<exists>res. q = Inr res \<and> hp_status res = 304)"
proof -
  let ?url = "tenantURL demo_register ''t1'' ''role-definitions''"
  have "acquire demo_env (ServiceCall ''reg'' scopeDefinitions ''t1'') demo_client 0 =
      (Inr ''t1'', store_token demo_client (int (Suc 0) * second) (call_key demo_env (ServiceCall ''reg'' scopeDefinitions ''t1''))
        \<lparr>ct_token = ''t1'', ct_exp = int (Suc 0) * second + 300 * second, ct_notAfter = zero_time\<rparr>, Suc 0)"
    by (subst demo_acquire [where na = zero_time])
      (simp_all add: demo_token_of_def service_form_def scopeDefinitions_def cached_token_for_def demo_client_def demo_fits_tenants)
  then obtain c1 where a: "acquireServiceTokenForTenant demo_env ''reg'' scopeDefinitions ''t1'' demo_client 0 = (Inr ''t1'', c1, Suc 0)"
    by auto
  have "\<exists>rqs c' w'. doServiceForTenant demo_env ''reg'' scopeDefinitions ''t1'' ''GET'' ?url (read_header ''v1'') None demo_client 0
      = ((Inr \<lparr>hp_status = 304, hp_header = [], hp_body = []\<rparr>, rqs), c', w')"
    unfolding doServiceForTenant_def a with_token_def prod.case sum.case doBackground_def doBackgroundWith_def numeral_2_eq_2
      background_attempts.simps demo_client_proof
    by (simp add: demo_env_def eval_simps)
  then obtain rqs c' w' where "doServiceForTenant demo_env ''reg'' scopeDefinitions ''t1'' ''GET'' ?url (read_header ''v1'') None demo_client 0
      = ((Inr \<lparr>hp_status = 304, hp_header = [], hp_body = []\<rparr>, rqs), c', w')" by blast
  then have r: "use_register (client_doer demo_env) demo_register (demo_client, 0) ''t1''
      (ReadRoles ''v1'') = (Inr False, (c', w'))"
    by (simp add: register_definitions_def client_doer_def versioned_def demo_register_def)
  have b: "list_all event_ok []" "ob_tokens demo_client = []" "fly demo_env [] (demo_client, [], 0) = (demo_client, [], 0)"
      "bar_free (rg_audience demo_register)" "bar_free ''t1''"
    by (simp_all add: demo_client_def demo_register_def bar_free_def fly_def)
  have reg: "rg_audience demo_register = ''reg''" by (simp add: demo_register_def)
  show ?thesis
    using register_used_as_tenant [OF b r, unfolded use_scope.simps use_path.simps use_method.simps reg, THEN conjunct1]
  proof (elim exE conjE)
    fix q rqs h body
    assume l: "list_all (\<lambda>rq. split_on (CHR ''/'') (hq_url rq) = split_on (CHR ''/'') (rg_base demo_register) @
        [''api'', ''v1'', ''tenants'', path_escape ''t1'', ''role-definitions''] \<and>
        (\<exists>tok. issued demo_env (ob_tokenURL demo_client) (service_form demo_client ''reg'' scopeDefinitions ''t1'') tok \<and>
          header_get (hq_header rq) ''Authorization'' = ''DPoP '' @ tok)) rqs"
      and d: "doServiceForTenant demo_env ''reg'' scopeDefinitions ''t1'' ''GET'' ?url h body demo_client 0 = ((q, rqs), c', w')"
      and n: "told (Inr False) q"
    from l have "list_all (\<lambda>rq. \<exists>tok. issued demo_env (ob_tokenURL demo_client) (service_form demo_client ''reg'' scopeDefinitions ''t1'') tok \<and>
          header_get (hq_header rq) ''Authorization'' = ''DPoP '' @ tok) rqs" by (rule list.pred_mono_strong) blast
    moreover from n have "\<exists>res. q = Inr res \<and> hp_status res = 304" by (auto simp: told_def)
    ultimately show ?thesis using d by blast
  qed
qed

end
